(* ===== verification/Go_Prelude.thy ===== *)
theory Go_Prelude
  imports Main "HOL-Library.Word" "HOL-Library.AList" "HOL-Library.List_Lexorder" "HOL-Library.Char_ord"
begin

text \<open>
  Shared vocabulary of the development: byte strings and the operations of Go's package
  \<^verbatim>\<open>strings\<close> that the program calls, Go error values with \<^verbatim>\<open>errors.Is\<close> and
  \<^verbatim>\<open>errors.As\<close>, the result type of fallible functions and its bind, and finite maps as
  association lists.  A Go string is a sequence of bytes, so it is a HOL \<open>string\<close> (a list of
  8-bit characters); a \<^verbatim>\<open>[]byte\<close> whose numeric contents matter is a list of \<open>8 word\<close>.
\<close>

section \<open>Collections of facts\<close>

named_theorems go_defs \<open>definitions unfolded when an operation is executed symbolically\<close>
named_theorems result_simps \<open>inversion rules for the result bind\<close>

type_synonym byte = "8 word"
type_synonym bytes = "8 word list"

definition str_bytes :: "string \<Rightarrow> bytes" where
  "str_bytes s = map of_char s"

definition bytes_str :: "bytes \<Rightarrow> string" where
  "bytes_str b = map (\<lambda>w. char_of (unat w)) b"

lemma unat_of_char [simp]: "unat (of_char c :: byte) = (of_char c :: nat)"
proof -
  have "(of_char c :: nat) < 2 ^ 8"
    using mod_less_divisor [of 256 "of_char c :: nat"] by simp
  moreover have "(of_char c :: byte) = of_nat (of_char c :: nat)" by (simp add: of_nat_of_char)
  ultimately show ?thesis by (simp add: unat_of_nat)
qed

lemma bytes_str_of_str_bytes [simp]: "bytes_str (str_bytes s) = s"
  by (simp add: bytes_str_def str_bytes_def comp_def)

section \<open>Package strings\<close>

definition has_prefix :: "string \<Rightarrow> string \<Rightarrow> bool" where
  "has_prefix s p \<longleftrightarrow> take (length p) s = p"

definition has_suffix :: "string \<Rightarrow> string \<Rightarrow> bool" where
  "has_suffix s p \<longleftrightarrow> has_prefix (rev s) (rev p)"

definition trim_prefix :: "string \<Rightarrow> string \<Rightarrow> string" where
  "trim_prefix s p = (if has_prefix s p then drop (length p) s else s)"

fun contains_str :: "string \<Rightarrow> string \<Rightarrow> bool" where
  "contains_str [] p = (p = [])"
| "contains_str (c # s) p = (has_prefix (c # s) p \<or> contains_str s p)"

text \<open>\<^verbatim>\<open>strings.Trim(s, cutset)\<close> for an ASCII cutset.\<close>

definition trim_cut :: "char set \<Rightarrow> string \<Rightarrow> string" where
  "trim_cut cs s = rev (dropWhile (\<lambda>c. c \<in> cs) (rev (dropWhile (\<lambda>c. c \<in> cs) s)))"

definition trim_slashes :: "string \<Rightarrow> string" where
  "trim_slashes = trim_cut {CHR ''/''}"

definition ascii_space :: "char set" where
  "ascii_space = {CHR 0x09, CHR 0x0A, CHR 0x0B, CHR 0x0C, CHR 0x0D, CHR '' ''}"

text \<open>
  The characters of \<^verbatim>\<open>unicode.IsSpace\<close> in UTF-8: the ASCII ones, U+0085, U+00A0, U+1680, U+2000
  to U+200A, U+2028, U+2029, U+202F, U+205F and U+3000.  Decoding a string at its start, or at its
  end, yields one of them exactly when the string starts, or ends, with its encoding.
\<close>

definition space_runes :: "string list" where
  "space_runes =
     [[CHR 0x09], [CHR 0x0A], [CHR 0x0B], [CHR 0x0C], [CHR 0x0D], [CHR '' ''],
      [CHR 0xC2, CHR 0x85], [CHR 0xC2, CHR 0xA0], [CHR 0xE1, CHR 0x9A, CHR 0x80],
      [CHR 0xE2, CHR 0x80, CHR 0x80], [CHR 0xE2, CHR 0x80, CHR 0x81], [CHR 0xE2, CHR 0x80, CHR 0x82],
      [CHR 0xE2, CHR 0x80, CHR 0x83], [CHR 0xE2, CHR 0x80, CHR 0x84], [CHR 0xE2, CHR 0x80, CHR 0x85],
      [CHR 0xE2, CHR 0x80, CHR 0x86], [CHR 0xE2, CHR 0x80, CHR 0x87], [CHR 0xE2, CHR 0x80, CHR 0x88],
      [CHR 0xE2, CHR 0x80, CHR 0x89], [CHR 0xE2, CHR 0x80, CHR 0x8A], [CHR 0xE2, CHR 0x80, CHR 0xA8],
      [CHR 0xE2, CHR 0x80, CHR 0xA9], [CHR 0xE2, CHR 0x80, CHR 0xAF], [CHR 0xE2, CHR 0x81, CHR 0x9F],
      [CHR 0xE3, CHR 0x80, CHR 0x80]]"

function strip_runes :: "string list \<Rightarrow> string \<Rightarrow> string" where
  "strip_runes rs s =
     (case find (\<lambda>r. r \<noteq> '''' \<and> has_prefix s r) rs of
        None \<Rightarrow> s
      | Some r \<Rightarrow> strip_runes rs (drop (length r) s))"
  by pat_completeness auto
termination
proof (relation "measure (\<lambda>(rs, s). length s)", goal_cases)
  case (2 rs s r)
  then have "r \<noteq> ''''" "has_prefix s r" by (auto simp: find_Some_iff)
  then show ?case by (cases s) (auto simp: has_prefix_def)
qed simp

declare strip_runes.simps [simp del]

text \<open>\<^verbatim>\<open>strings.TrimSpace\<close>.\<close>

definition trim_space :: "string \<Rightarrow> string" where
  "trim_space s = rev (strip_runes (map rev space_runes) (rev (strip_runes space_runes s)))"

definition replace_char :: "char \<Rightarrow> char \<Rightarrow> string \<Rightarrow> string" where
  "replace_char a b s = map (\<lambda>c. if c = a then b else c) s"

abbreviation (input) slashed :: "string \<Rightarrow> string" where
  "slashed s \<equiv> replace_char (CHR 0x5C) (CHR ''/'') s"

text \<open>\<^verbatim>\<open>strings.Split(s, sep)\<close> and \<^verbatim>\<open>strings.SplitN(s, sep, 2)\<close> for a one-byte separator.\<close>

fun split_on :: "char \<Rightarrow> string \<Rightarrow> string list" where
  "split_on d [] = [[]]"
| "split_on d (c # s) =
     (if c = d then [] # split_on d s
      else (case split_on d s of [] \<Rightarrow> [[c]] | w # ws \<Rightarrow> (c # w) # ws))"

definition split2 :: "char \<Rightarrow> string \<Rightarrow> string \<times> string option" where
  "split2 d s = (takeWhile (\<lambda>c. c \<noteq> d) s,
     case dropWhile (\<lambda>c. c \<noteq> d) s of [] \<Rightarrow> None | _ # r \<Rightarrow> Some r)"

fun join_with :: "string \<Rightarrow> string list \<Rightarrow> string" where
  "join_with d [] = []"
| "join_with d [w] = w"
| "join_with d (w # ws) = w @ d @ join_with d ws"

definition ascii_upper_char :: "char \<Rightarrow> char" where
  "ascii_upper_char c =
     (let n = of_char c :: nat in if 97 \<le> n \<and> n \<le> 122 then char_of (n - 32) else c)"

definition ascii_lower_char :: "char \<Rightarrow> char" where
  "ascii_lower_char c =
     (let n = of_char c :: nat in if 65 \<le> n \<and> n \<le> 90 then char_of (n + 32) else c)"

definition to_upper :: "string \<Rightarrow> string" where
  "to_upper = map ascii_upper_char"

text \<open>\<^verbatim>\<open>strings.ToLower\<close>, exact on ASCII input.\<close>

definition to_lower :: "string \<Rightarrow> string" where
  "to_lower = map ascii_lower_char"

section \<open>Numbers as text\<close>

definition digit_char :: "nat \<Rightarrow> char" where
  "digit_char n = char_of (48 + n)"

fun nat_text :: "nat \<Rightarrow> string" where
  "nat_text n = (if n < 10 then [digit_char n] else nat_text (n div 10) @ [digit_char (n mod 10)])"

declare nat_text.simps [simp del]

definition int_text :: "int \<Rightarrow> string" where
  "int_text i = (if i < 0 then CHR ''-'' # nat_text (nat (- i)) else nat_text (nat i))"

definition digit_val :: "char \<Rightarrow> nat option" where
  "digit_val c = (let n = of_char c :: nat in if 48 \<le> n \<and> n \<le> 57 then Some (n - 48) else None)"

fun digits_val :: "nat \<Rightarrow> string \<Rightarrow> nat option" where
  "digits_val acc [] = Some acc"
| "digits_val acc (c # s) =
     (case digit_val c of None \<Rightarrow> None | Some d \<Rightarrow> digits_val (10 * acc + d) s)"

text \<open>\<^verbatim>\<open>strconv.Atoi\<close>: an optional sign, then at least one digit, within 64 bits.\<close>

definition atoi :: "string \<Rightarrow> int option" where
  "atoi s =
     (let (neg, ds) = (case s of
            [] \<Rightarrow> (False, [])
          | c # r \<Rightarrow> (if c = CHR ''-'' then (True, r) else if c = CHR ''+'' then (False, r) else (False, s)))
      in if ds = [] then None
         else case digits_val 0 ds of
                None \<Rightarrow> None
              | Some n \<Rightarrow>
                  (let i = (if neg then - int n else int n)
                   in if - (2 ^ 63) \<le> i \<and> i < 2 ^ 63 then Some i else None))"

definition hex_digit :: "nat \<Rightarrow> char" where
  "hex_digit n = char_of (if n < 10 then 48 + n else 87 + n)"

text \<open>\<^verbatim>\<open>hex.EncodeToString\<close>.\<close>

definition hex_encode :: "bytes \<Rightarrow> string" where
  "hex_encode b = concat (map (\<lambda>x. [hex_digit (unat x div 16), hex_digit (unat x mod 16)]) b)"

lemma length_hex_encode [simp]: "length (hex_encode b) = 2 * length b"
  by (induction b) (auto simp: hex_encode_def)

text \<open>\<^verbatim>\<open>strconv.Quote\<close> as \<open>%q\<close> prints it; bytes outside ASCII are printed as they are.\<close>

definition quote_char :: "char \<Rightarrow> string" where
  "quote_char c =
     (let n = of_char c :: nat in
      if c = CHR 0x22 then [CHR 0x5C, CHR 0x22]
      else if c = CHR 0x5C then [CHR 0x5C, CHR 0x5C]
      else if n = 7 then [CHR 0x5C, CHR ''a''] else if n = 8 then [CHR 0x5C, CHR ''b'']
      else if n = 12 then [CHR 0x5C, CHR ''f''] else if n = 10 then [CHR 0x5C, CHR ''n'']
      else if n = 13 then [CHR 0x5C, CHR ''r''] else if n = 9 then [CHR 0x5C, CHR ''t'']
      else if n = 11 then [CHR 0x5C, CHR ''v'']
      else if n < 32 \<or> n = 127
           then [CHR 0x5C, CHR ''x'', hex_digit (n div 16), hex_digit (n mod 16)]
      else [c])"

definition go_quote :: "string \<Rightarrow> string" where
  "go_quote s = [CHR 0x22] @ concat (map quote_char s) @ [CHR 0x22]"

section \<open>Association lists\<close>

lemma map_of_update [simp]: "map_of (AList.update k v al) x = (if x = k then Some v else map_of al x)"
  by (simp add: update_conv')

lemma map_of_delete [simp]: "map_of (AList.delete k al) x = (if x = k then None else map_of al x)"
  by (simp add: delete_conv')

section \<open>Lemmas on strings\<close>

lemma has_prefix_iff: "has_prefix s p \<longleftrightarrow> (\<exists>r. s = p @ r)"
  by (metis append_eq_conv_conj append_take_drop_id has_prefix_def)

lemma trim_cut_Nil: "trim_cut cs s = '''' \<longleftrightarrow> (\<forall>c\<in>set s. c \<in> cs)"
proof -
  let ?t = "dropWhile (\<lambda>c. c \<in> cs) s"
  have a: "?t = []" if "\<forall>c\<in>set ?t. c \<in> cs"
  proof (rule ccontr)
    assume ne: "?t \<noteq> []"
    have "hd ?t \<notin> cs" by (rule hd_dropWhile [OF ne])
    moreover have "hd ?t \<in> set ?t" using ne by simp
    ultimately show False using that by blast
  qed
  have b: "\<forall>c\<in>set ?t. c \<in> cs" if "?t = []" unfolding that by simp
  have 1: "(\<forall>c\<in>set ?t. c \<in> cs) \<longleftrightarrow> ?t = []" by (rule iffI [OF a b])
  have 2: "trim_cut cs s = '''' \<longleftrightarrow> (\<forall>c\<in>set ?t. c \<in> cs)"
    unfolding trim_cut_def rev_is_Nil_conv dropWhile_eq_Nil_conv set_rev ..
  show ?thesis unfolding 2 1 dropWhile_eq_Nil_conv ..
qed

lemma has_prefix_Nil [simp]: "has_prefix s []"
  by (simp add: has_prefix_def)

lemma has_prefix_append [simp]: "has_prefix (p @ r) p"
  by (simp add: has_prefix_def)

lemma has_prefix_refl [simp]: "has_prefix s s"
  by (simp add: has_prefix_def)

lemma trim_prefix_append [simp]: "trim_prefix (p @ r) p = r"
  by (simp add: trim_prefix_def)

lemma trim_prefix_other: "\<not> has_prefix s p \<Longrightarrow> trim_prefix s p = s"
  by (simp add: trim_prefix_def)

lemma split_on_nonempty [simp]: "split_on d s \<noteq> []"
  by (cases s) (auto split: list.splits)

lemma split_on_no_sep: "w \<in> set (split_on d s) \<Longrightarrow> d \<notin> set w"
proof (induction s arbitrary: w)
  case Nil
  then show ?case by simp
next
  case (Cons c s)
  then show ?case
    by (cases "split_on d s") (auto split: if_splits)
qed

lemma split_on_chars: "w \<in> set (split_on d s) \<Longrightarrow> set w \<subseteq> set s"
proof (induction s arbitrary: w)
  case Nil
  then show ?case by simp
next
  case (Cons c s)
  then show ?case
    by (cases "split_on d s") (fastforce split: if_splits)+
qed

lemma join_split [simp]: "join_with [d] (split_on d s) = s"
proof (induction s)
  case Nil
  then show ?case by simp
next
  case (Cons c s)
  then show ?case
    by (cases "split_on d s" rule: remdups_adj.cases) auto
qed

lemma set_join: "set (join_with d ws) \<subseteq> set d \<union> \<Union> (set ` set ws)"
  by (induction d ws rule: join_with.induct) auto

lemma split_on_single: "d \<notin> set w \<Longrightarrow> split_on d w = [w]"
  by (induction w) auto

lemma split_on_append_sep: "d \<notin> set w \<Longrightarrow> split_on d (w @ d # s) = w # split_on d s"
  by (induction w) auto

lemma split_on_append: "split_on d (a @ d # b) = split_on d a @ split_on d b"
  by (induction a) (auto simp: Cons_eq_append_conv split: list.splits)

lemma split_join:
  "ws \<noteq> [] \<Longrightarrow> (\<And>w. w \<in> set ws \<Longrightarrow> d \<notin> set w) \<Longrightarrow> split_on d (join_with [d] ws) = ws"
  by (induction "[d]" ws rule: join_with.induct) (auto simp: split_on_single split_on_append_sep)

lemma set_replace_char: "set (replace_char a b s) \<subseteq> insert b (set s - {a})"
  by (auto simp: replace_char_def)

lemma replace_char_id: "a \<notin> set s \<Longrightarrow> replace_char a b s = s"
  by (induction s) (auto simp: replace_char_def)

lemma contains_single: "contains_str s [c] \<longleftrightarrow> c \<in> set s"
  by (induction s) (auto simp: has_prefix_def)

lemma contains_iff: "contains_str s p \<longleftrightarrow> (\<exists>a b. s = a @ p @ b)"
proof (induction s)
  case Nil
  then show ?case by auto
next
  case (Cons c s)
  show ?case
  proof
    assume "contains_str (c # s) p"
    then consider "has_prefix (c # s) p" | "contains_str s p" by auto
    then show "\<exists>a b. c # s = a @ p @ b"
    proof cases
      case 1
      then show ?thesis by (metis append_Nil has_prefix_iff)
    next
      case 2
      then show ?thesis using Cons.IH by (metis append_Cons)
    qed
  next
    assume "\<exists>a b. c # s = a @ p @ b"
    then obtain a b where ab: "c # s = a @ p @ b" by blast
    show "contains_str (c # s) p"
    proof (cases a)
      case Nil
      then have "has_prefix (c # s) p" using ab by (auto simp: has_prefix_iff)
      then show ?thesis by simp
    next
      case (Cons x a')
      then show ?thesis using ab Cons.IH by auto
    qed
  qed
qed

lemma contains_append: "contains_str s p \<Longrightarrow> contains_str (a @ s @ b) p"
  by (metis append.assoc contains_iff)

lemma split2_found: "c \<notin> set a \<Longrightarrow> split2 c (a @ c # b) = (a, Some b)"
  unfolding split2_def by (induction a) (auto simp: takeWhile_tail dropWhile_append3)

lemma split2_none: "c \<notin> set a \<Longrightarrow> split2 c a = (a, None)"
  unfolding split2_def by (induction a) auto

text \<open>A string that neither starts nor ends with a space stays as it is.\<close>

definition no_space_ends :: "string \<Rightarrow> bool" where
  "no_space_ends s \<longleftrightarrow> list_all (\<lambda>r. \<not> has_prefix s r \<and> \<not> has_suffix s r) space_runes"

lemma strip_runes_id: "list_all (\<lambda>r. \<not> has_prefix s r) rs \<Longrightarrow> strip_runes rs s = s"
proof -
  assume "list_all (\<lambda>r. \<not> has_prefix s r) rs"
  then have "find (\<lambda>r. r \<noteq> '''' \<and> has_prefix s r) rs = None" by (auto simp: list_all_iff find_None_iff)
  then show ?thesis by (subst strip_runes.simps) simp
qed

lemma trim_space_id: "no_space_ends s \<Longrightarrow> trim_space s = s"
  unfolding trim_space_def no_space_ends_def has_suffix_def
  by (simp add: strip_runes_id list_all_iff)

text \<open>Spaces of ASCII at the end of a string go, one by one.\<close>

lemma space_rune_start:
  assumes "r \<in> set (map rev space_runes)" "has_prefix (x # t) r" "x \<in> ascii_space"
  shows "r = [x]"
  using assms by (auto simp: space_runes_def ascii_space_def has_prefix_def)

lemma ascii_space_rune: "x \<in> ascii_space \<Longrightarrow> [x] \<in> set (map rev space_runes)"
  by (auto simp: ascii_space_def space_runes_def)

lemma strip_ascii_spaces:
  "set e \<subseteq> ascii_space \<Longrightarrow> strip_runes (map rev space_runes) (e @ t) = strip_runes (map rev space_runes) t"
proof (induction e)
  case (Cons x e)
  then have x: "x \<in> ascii_space" by simp
  let ?P = "\<lambda>r. r \<noteq> '''' \<and> has_prefix (x # e @ t) r"
  have "?P [x]" by (simp add: has_prefix_def)
  then have "find ?P (map rev space_runes) \<noteq> None" unfolding find_None_iff using ascii_space_rune [OF x] by blast
  then obtain r where r: "find ?P (map rev space_runes) = Some r" by blast
  then have "r \<in> set (map rev space_runes)" "has_prefix (x # e @ t) r" unfolding find_Some_iff by auto
  then have "r = [x]" using space_rune_start x by blast
  then have "strip_runes (map rev space_runes) (x # e @ t) = strip_runes (map rev space_runes) (e @ t)"
    using r by (subst strip_runes.simps) simp
  then show ?case using Cons by simp
qed simp

lemma trim_space_line:
  assumes "no_space_ends s" "set e \<subseteq> ascii_space" "list_all (\<lambda>r. \<not> has_prefix (s @ e) r) space_runes"
  shows "trim_space (s @ e) = s"
proof -
  have "strip_runes (map rev space_runes) (rev s) = rev s"
    using assms(1) by (intro strip_runes_id) (simp add: no_space_ends_def has_suffix_def list_all_iff)
  then show ?thesis using assms(2) by (simp add: trim_space_def strip_runes_id [OF assms(3)] strip_ascii_spaces)
qed

text \<open>The bytes that can begin and end a space.\<close>

lemma has_prefix_hd: "has_prefix s r \<Longrightarrow> r \<noteq> '''' \<Longrightarrow> s \<noteq> '''' \<and> hd s = hd r"
  by (auto simp: has_prefix_iff)

lemma space_rune_nonempty: "r \<in> set space_runes \<Longrightarrow> r \<noteq> ''''"
  by (auto simp: space_runes_def)

lemma no_space_prefix: "s \<noteq> '''' \<Longrightarrow> hd s \<notin> hd ` set space_runes \<Longrightarrow> list_all (\<lambda>r. \<not> has_prefix s r) space_runes"
  unfolding list_all_iff using has_prefix_hd space_rune_nonempty by (metis imageI)

lemma no_space_ends_chars:
  assumes "s \<noteq> ''''" "hd s \<notin> hd ` set space_runes" "last s \<notin> last ` set space_runes"
  shows "no_space_ends s"
proof -
  have "\<not> has_suffix s r" if "r \<in> set space_runes" for r
  proof
    assume "has_suffix s r"
    moreover have "r \<noteq> ''''" by (rule space_rune_nonempty [OF that])
    ultimately have "last s = last r" using has_prefix_hd [of "rev s" "rev r"] assms(1) by (simp add: has_suffix_def hd_rev)
    then show False using assms(3) that by blast
  qed
  then show ?thesis using no_space_prefix [OF assms(1,2)] by (simp add: no_space_ends_def list_all_iff)
qed

end
