(* ===== verification/Go_Errors.thy ===== *)
theory Go_Errors
  imports Go_Prelude
begin

text \<open>
  Go error values.  Sentinels are compared by identity, so they are constructors; an error made by
  \<^verbatim>\<open>fmt.Errorf\<close> carries its text and the operands of its \<open>%w\<close> verbs; the wrapping types of the
  program and of the operating system are constructors of their own.  \<open>err_is\<close> is
  \<^verbatim>\<open>errors.Is\<close>; \<open>err_api\<close> and \<open>err_timeout\<close> are \<^verbatim>\<open>errors.As\<close> for
  \<^verbatim>\<open>smithy.APIError\<close> and \<^verbatim>\<open>net.Error\<close> (the first match in depth-first order);
  \<open>err_msg\<close> is the \<^verbatim>\<open>Error\<close> method.
\<close>

datatype errno = ENOENT | EACCES | EEXIST | ENOTDIR | EISDIR | ENOTEMPTY | ELOOP | EINVAL | EIO | ENOSPC

datatype go_error =
    ErrNotFound | ErrAlreadyExists | ErrPathTraversal | ErrInvalidPath
  | ErrPermissionDenied | ErrStorageUnavailable | ErrPreconditionFailed | ErrInvalidRange
  | ErrRemoteNotFound | ErrInvalidPassword | ErrCorruptedVault
  | ErrRecursiveSync
  | ErrFeatureNotLicensed
  | ErrCanceled | ErrDeadlineExceeded
  | ErrEOF | ErrUnexpectedEOF
  | ErrPathOS string string errno
  | ErrAPI string string
  | ErrNet bool string
  | ErrConnReset
  | ErrText string
  | ErrWrap string "go_error list"
  | StorageError string string string go_error
  | ErrPanic string

type_synonym 'a res = "go_error + 'a"

abbreviation Ok :: "'a \<Rightarrow> 'a res" where "Ok \<equiv> Inr"
abbreviation Err :: "go_error \<Rightarrow> 'a res" where "Err \<equiv> Inl"

section \<open>errors.Is and errors.As\<close>

fun err_is :: "go_error \<Rightarrow> go_error \<Rightarrow> bool" where
  "err_is (ErrWrap m es) t \<longleftrightarrow> ErrWrap m es = t \<or> (\<exists>e \<in> set es. err_is e t)"
| "err_is (StorageError oper drv p e) t \<longleftrightarrow> StorageError oper drv p e = t \<or> err_is e t"
| "err_is e t \<longleftrightarrow> e = t"

text \<open>\<^verbatim>\<open>errors.Is(err, os.ErrNotExist)\<close>: an operating system error unwraps to its errno.\<close>

fun err_errno :: "go_error \<Rightarrow> errno \<Rightarrow> bool" where
  "err_errno (ErrPathOS op p n) t \<longleftrightarrow> n = t"
| "err_errno (ErrWrap m es) t \<longleftrightarrow> (\<exists>e \<in> set es. err_errno e t)"
| "err_errno (StorageError oper drv p e) t \<longleftrightarrow> err_errno e t"
| "err_errno e t \<longleftrightarrow> False"

text \<open>
  \<^verbatim>\<open>os.IsNotExist\<close> and \<^verbatim>\<open>os.IsPermission\<close> look through the operating system's own
  wrappers only, never through \<^verbatim>\<open>fmt.Errorf\<close>.
\<close>

fun os_is_not_exist :: "go_error \<Rightarrow> bool" where
  "os_is_not_exist (ErrPathOS op p n) \<longleftrightarrow> n = ENOENT"
| "os_is_not_exist e \<longleftrightarrow> False"

fun os_is_permission :: "go_error \<Rightarrow> bool" where
  "os_is_permission (ErrPathOS op p n) \<longleftrightarrow> n = EACCES"
| "os_is_permission e \<longleftrightarrow> False"

definition first_some :: "'a option list \<Rightarrow> 'a option" where
  "first_some xs = (case filter (\<lambda>x. x \<noteq> None) xs of [] \<Rightarrow> None | x # _ \<Rightarrow> x)"

lemma first_some_simps [simp]:
  "first_some [] = None"
  "first_some (None # xs) = first_some xs"
  "first_some (Some x # xs) = Some x"
  by (simp_all add: first_some_def)

fun err_api :: "go_error \<Rightarrow> string option" where
  "err_api (ErrAPI code m) = Some code"
| "err_api (ErrWrap m es) = first_some (map err_api es)"
| "err_api (StorageError oper drv p e) = err_api e"
| "err_api e = None"

fun err_timeout :: "go_error \<Rightarrow> bool option" where
  "err_timeout (ErrNet t m) = Some t"
| "err_timeout ErrDeadlineExceeded = Some True"
| "err_timeout ErrConnReset = Some False"
| "err_timeout (ErrPathOS op p n) = Some False"
| "err_timeout (ErrWrap m es) = first_some (map err_timeout es)"
| "err_timeout (StorageError oper drv p e) = err_timeout e"
| "err_timeout e = None"

section \<open>The Error method\<close>

fun errno_text :: "errno \<Rightarrow> string" where
  "errno_text ENOENT = ''no such file or directory''"
| "errno_text EACCES = ''permission denied''"
| "errno_text EEXIST = ''file exists''"
| "errno_text ENOTDIR = ''not a directory''"
| "errno_text EISDIR = ''is a directory''"
| "errno_text ENOTEMPTY = ''directory not empty''"
| "errno_text ELOOP = ''too many levels of symbolic links''"
| "errno_text EINVAL = ''invalid argument''"
| "errno_text EIO = ''input/output error''"
| "errno_text ENOSPC = ''no space left on device''"

fun err_msg :: "go_error \<Rightarrow> string" where
  "err_msg ErrNotFound = ''storage: object not found''"
| "err_msg ErrAlreadyExists = ''storage: object already exists''"
| "err_msg ErrPathTraversal = ''storage: path traversal detected''"
| "err_msg ErrInvalidPath = ''storage: invalid path''"
| "err_msg ErrPermissionDenied = ''storage: permission denied''"
| "err_msg ErrStorageUnavailable = ''storage: backend unavailable''"
| "err_msg ErrPreconditionFailed = ''storage: precondition failed''"
| "err_msg ErrInvalidRange = ''storage: invalid byte range''"
| "err_msg ErrRemoteNotFound = ''vault: remote profile not found''"
| "err_msg ErrInvalidPassword = ''vault: authentication failed: invalid passphrase or corrupted vault''"
| "err_msg ErrCorruptedVault = ''vault: corrupted vault header or format''"
| "err_msg ErrRecursiveSync =
     ''sync: recursive loop detected: destination directory is inside source directory''"
| "err_msg ErrFeatureNotLicensed = ''feature not licensed in community edition''"
| "err_msg ErrCanceled = ''context canceled''"
| "err_msg ErrDeadlineExceeded = ''context deadline exceeded''"
| "err_msg ErrEOF = ''EOF''"
| "err_msg ErrUnexpectedEOF = ''unexpected EOF''"
| "err_msg (ErrPathOS op p n) = op @ '' '' @ p @ '': '' @ errno_text n"
| "err_msg (ErrAPI code m) = ''api error '' @ code @ '': '' @ m"
| "err_msg (ErrNet t m) = m"
| "err_msg ErrConnReset = ''connection reset by peer''"
| "err_msg (ErrText m) = m"
| "err_msg (ErrWrap m es) = m"
| "err_msg (StorageError oper drv p e) =
     ''storage '' @ drv @ '' '' @ oper @ '' ['' @ p @ '']: '' @ err_msg e"
| "err_msg (ErrPanic m) = m"

text \<open>The two shapes of \<^verbatim>\<open>fmt.Errorf\<close> the program uses: \<open>"text: %w"\<close> and \<open>"%w: text: %w"\<close>.\<close>

definition errorf_w :: "string \<Rightarrow> go_error \<Rightarrow> go_error" where
  "errorf_w m e = ErrWrap (m @ '': '' @ err_msg e) [e]"

definition errorf_wv :: "go_error \<Rightarrow> string \<Rightarrow> go_error" where
  "errorf_wv e m = ErrWrap (err_msg e @ '': '' @ m) [e]"

definition errorf_ww :: "go_error \<Rightarrow> string \<Rightarrow> go_error \<Rightarrow> go_error" where
  "errorf_ww e m f = ErrWrap (err_msg e @ '': '' @ m @ '': '' @ err_msg f) [e, f]"

lemma err_is_refl [simp]: "err_is e e"
  by (cases e) auto

lemma err_is_errorf_w [simp]: "err_is (errorf_w m e) t \<longleftrightarrow> errorf_w m e = t \<or> err_is e t"
  by (simp add: errorf_w_def)

lemma err_is_errorf_wv [simp]: "err_is (errorf_wv e m) t \<longleftrightarrow> errorf_wv e m = t \<or> err_is e t"
  by (simp add: errorf_wv_def)

lemma err_is_errorf_ww [simp]:
  "err_is (errorf_ww e m f) t \<longleftrightarrow> errorf_ww e m f = t \<or> err_is e t \<or> err_is f t"
  by (simp add: errorf_ww_def)

section \<open>The result bind\<close>

definition bind_res :: "'a res \<Rightarrow> ('a \<Rightarrow> 'b res) \<Rightarrow> 'b res" where
  "bind_res r f = (case r of Inl e \<Rightarrow> Inl e | Inr x \<Rightarrow> f x)"

lemma bind_res_simps [simp]:
  "bind_res (Inl e) f = Inl e" "bind_res (Inr x) f = f x"
  by (simp_all add: bind_res_def)

lemma bind_res_Inr [result_simps]: "bind_res r f = Inr y \<longleftrightarrow> (\<exists>x. r = Inr x \<and> f x = Inr y)"
  by (cases r) auto

lemma bind_res_Inl [result_simps]:
  "bind_res r f = Inl e \<longleftrightarrow> r = Inl e \<or> (\<exists>x. r = Inr x \<and> f x = Inl e)"
  by (cases r) auto

section \<open>Contexts\<close>

text \<open>
  A \<^verbatim>\<open>context.Context\<close> is the sequence of answers its \<^verbatim>\<open>Err()\<close> gives at the successive
  checks an operation makes.
\<close>

type_synonym ctx = "nat \<Rightarrow> go_error option"

definition background :: ctx where
  "background = (\<lambda>_. None)"

lemma background_simp [simp]: "background n = None"
  by (simp add: background_def)

end
