(* ===== verification/Go_Path.thy ===== *)
theory Go_Path
  imports Go_Prelude "HOL-Library.Sublist"
begin

text \<open>
  Go's packages \<^verbatim>\<open>path\<close> and \<^verbatim>\<open>path/filepath\<close> on a Unix platform, where both use
  the separator \<^verbatim>\<open>/\<close> (so \<^verbatim>\<open>FromSlash\<close> and \<^verbatim>\<open>ToSlash\<close> are the identity and
  \<^verbatim>\<open>VolumeName\<close> is empty): \<^verbatim>\<open>Clean\<close>, \<^verbatim>\<open>Join\<close>, \<^verbatim>\<open>Dir\<close>, \<^verbatim>\<open>Base\<close>
  and \<^verbatim>\<open>Rel\<close>.  A cleaned absolute path is the path of a list of proper components; the lemmas
  move between the two views, and \<open>path_rel_escapes\<close> says that the program's test on the result of
  \<^verbatim>\<open>Rel\<close> is the prefix order on components.
\<close>

section \<open>Definitions\<close>

definition rooted :: "string \<Rightarrow> bool" where
  "rooted p \<longleftrightarrow> has_prefix p ''/''"

definition clean_step :: "bool \<Rightarrow> string list \<Rightarrow> string \<Rightarrow> string list" where
  "clean_step r st c =
     (if c = '''' \<or> c = ''.'' then st
      else if c = ''..'' then
        (case st of
           [] \<Rightarrow> (if r then [] else [''..''])
         | t # st' \<Rightarrow> (if t = ''..'' then ''..'' # st else st'))
      else c # st)"

definition clean_comps :: "bool \<Rightarrow> string list \<Rightarrow> string list" where
  "clean_comps r cs = rev (foldl (clean_step r) [] cs)"

definition abs_path :: "string list \<Rightarrow> string" where
  "abs_path cs = ''/'' @ join_with ''/'' cs"

definition path_comps :: "string \<Rightarrow> string list" where
  "path_comps p = filter (\<lambda>c. c \<noteq> '''') (split_on (CHR ''/'') p)"

definition path_clean :: "string \<Rightarrow> string" where
  "path_clean p =
     (if p = '''' then ''.''
      else let cs = clean_comps (rooted p) (split_on (CHR ''/'') p)
           in if rooted p then abs_path cs
              else if cs = [] then ''.'' else join_with ''/'' cs)"

definition path_join :: "string list \<Rightarrow> string" where
  "path_join ps =
     (case dropWhile (\<lambda>x. x = '''') ps of [] \<Rightarrow> '''' | q # qs \<Rightarrow> path_clean (join_with ''/'' (q # qs)))"

definition path_dir :: "string \<Rightarrow> string" where
  "path_dir p = path_clean (rev (dropWhile (\<lambda>c. c \<noteq> CHR ''/'') (rev p)))"

definition path_base :: "string \<Rightarrow> string" where
  "path_base p =
     (if p = '''' then ''.''
      else let q = rev (takeWhile (\<lambda>c. c \<noteq> CHR ''/'') (dropWhile (\<lambda>c. c = CHR ''/'') (rev p)))
           in if q = '''' then ''/'' else q)"

fun strip_common :: "string list \<Rightarrow> string list \<Rightarrow> string list \<times> string list" where
  "strip_common (b # bs) (t # ts) = (if b = t then strip_common bs ts else (b # bs, t # ts))"
| "strip_common bs ts = (bs, ts)"

text \<open>
  \<^verbatim>\<open>filepath.Rel\<close>; every call of the program has two absolute arguments.  \<open>None\<close> is the
  error for one absolute and one relative argument.
\<close>

definition path_rel :: "string \<Rightarrow> string \<Rightarrow> string option" where
  "path_rel base targ =
     (let b = path_clean base; t = path_clean targ in
      if t = b then Some ''.''
      else if rooted b \<noteq> rooted t then None
      else let (b1, t1) = strip_common (path_comps b) (path_comps t)
           in Some (join_with ''/'' (replicate (length b1) ''..'' @ t1)))"

text \<open>The test the program applies to a result of \<^verbatim>\<open>Rel\<close>.\<close>

definition rel_escapes :: "string \<Rightarrow> bool" where
  "rel_escapes rel \<longleftrightarrow> rel = ''..'' \<or> has_prefix rel ''../''"

section \<open>Proper components\<close>

definition proper_comp :: "string \<Rightarrow> bool" where
  "proper_comp c \<longleftrightarrow> c \<noteq> '''' \<and> c \<noteq> ''.'' \<and> c \<noteq> ''..'' \<and> CHR ''/'' \<notin> set c"

abbreviation proper :: "string list \<Rightarrow> bool" where
  "proper cs \<equiv> list_all proper_comp cs"

lemma proper_no_slash: "proper cs \<Longrightarrow> c \<in> set cs \<Longrightarrow> CHR ''/'' \<notin> set c"
  by (auto simp: list_all_iff proper_comp_def)

lemma proper_split: "proper cs \<Longrightarrow> cs \<noteq> [] \<Longrightarrow> split_on (CHR ''/'') (join_with ''/'' cs) = cs"
  by (rule split_join) (auto dest: proper_no_slash)

lemma proper_path_comps: "proper cs \<Longrightarrow> path_comps (join_with ''/'' cs) = cs"
proof (cases "cs = []")
  case False
  assume "proper cs"
  then have "\<forall>c\<in>set cs. c \<noteq> ''''" by (auto simp: list_all_iff proper_comp_def)
  then show ?thesis using \<open>proper cs\<close> False by (simp add: path_comps_def proper_split)
qed (simp add: path_comps_def)

lemma path_comps_slash [simp]: "path_comps (CHR ''/'' # s) = path_comps s"
  by (simp add: path_comps_def)

lemma path_comps_abs [simp]: "proper cs \<Longrightarrow> path_comps (abs_path cs) = cs"
  by (simp add: abs_path_def proper_path_comps)

lemma abs_path_inject: "proper cs \<Longrightarrow> proper ds \<Longrightarrow> abs_path cs = abs_path ds \<longleftrightarrow> cs = ds"
  by (metis path_comps_abs)

lemma rooted_abs_path [simp]: "rooted (abs_path cs)"
  by (simp add: rooted_def abs_path_def has_prefix_def)

lemma trim_prefix_abs_path [simp]: "trim_prefix (abs_path cs) ''/'' = join_with ''/'' cs"
  by (simp add: abs_path_def trim_prefix_def has_prefix_def)

lemma abs_path_not_Nil [simp]: "abs_path cs \<noteq> ''''"
  by (simp add: abs_path_def)

lemma clean_step_proper_fold:
  "proper st \<Longrightarrow> (\<And>c. c \<in> set cs \<Longrightarrow> CHR ''/'' \<notin> set c) \<Longrightarrow> proper (foldl (clean_step True) st cs)"
proof (induction cs arbitrary: st)
  case Nil
  then show ?case by simp
next
  case (Cons c cs)
  have "proper_comp c" if "c \<noteq> ''''" "c \<noteq> ''.''" "c \<noteq> ''..''"
    using that Cons.prems by (simp add: proper_comp_def)
  with Cons.prems have "proper (clean_step True st c)"
    by (cases st) (auto simp: clean_step_def)
  then show ?case using Cons by simp
qed

lemma clean_comps_proper:
  "(\<And>c. c \<in> set cs \<Longrightarrow> CHR ''/'' \<notin> set c) \<Longrightarrow> proper (clean_comps True cs)"
  unfolding clean_comps_def by (simp add: list_all_rev clean_step_proper_fold)

lemma foldl_clean_proper: "proper cs \<Longrightarrow> foldl (clean_step r) st cs = rev cs @ st"
  by (induction cs arbitrary: st) (auto simp: clean_step_def proper_comp_def)

lemma clean_comps_id: "proper cs \<Longrightarrow> clean_comps r cs = cs"
  by (simp add: clean_comps_def foldl_clean_proper)

lemma clean_step_empty [simp]: "clean_step r st '''' = st"
  by (simp add: clean_step_def)

lemma clean_comps_empty [simp]: "clean_comps r ('''' # cs) = clean_comps r cs"
  by (simp add: clean_comps_def)

lemma foldl_clean_subset: "set (foldl (clean_step True) st cs) \<subseteq> set st \<union> set cs"
proof (induction cs arbitrary: st)
  case Nil
  then show ?case by simp
next
  case (Cons c cs)
  have "set (clean_step True st c) \<subseteq> insert c (set st)"
    by (auto simp: clean_step_def split: list.splits)
  then show ?case using Cons [of "clean_step True st c"] by auto
qed

lemma clean_comps_subset: "set (clean_comps True cs) \<subseteq> set cs"
  using foldl_clean_subset [of "[]" cs] by (simp add: clean_comps_def)

section \<open>Cleaning\<close>

lemma path_clean_rooted:
  "rooted p \<Longrightarrow> path_clean p = abs_path (clean_comps True (split_on (CHR ''/'') p))"
  by (auto simp: path_clean_def rooted_def has_prefix_def)

lemma path_clean_slash:
  "path_clean (CHR ''/'' # s) = abs_path (clean_comps True (split_on (CHR ''/'') s))"
  by (simp add: path_clean_rooted rooted_def has_prefix_def)

lemma rooted_comps_proper: "proper (clean_comps True (split_on (CHR ''/'') s))"
  by (rule clean_comps_proper) (rule split_on_no_sep)

lemma path_clean_abs_path [simp]: "proper cs \<Longrightarrow> path_clean (abs_path cs) = abs_path cs"
proof (cases "cs = []")
  case True
  then show ?thesis by (simp add: abs_path_def path_clean_slash clean_comps_def)
next
  case False
  assume "proper cs"
  then show ?thesis using False
    by (simp add: abs_path_def path_clean_slash proper_split clean_comps_id)
qed

text \<open>A rooted path has a canonical list of components, and cleaning it twice changes nothing.\<close>

lemma path_clean_rooted_form:
  assumes "rooted p"
  obtains cs where "proper cs" "path_clean p = abs_path cs"
  using assms path_clean_rooted rooted_comps_proper by blast

lemma path_clean_idem_rooted: "rooted p \<Longrightarrow> path_clean (path_clean p) = path_clean p"
  by (erule path_clean_rooted_form) simp

lemma join_with_append:
  "xs \<noteq> [] \<Longrightarrow> ys \<noteq> [] \<Longrightarrow> join_with d (xs @ ys) = join_with d xs @ d @ join_with d ys"
proof (induction xs)
  case (Cons x xs)
  then show ?case by (cases xs; cases ys) auto
qed simp

lemma path_join_under:
  assumes "proper r" "proper cs"
  shows "path_join [abs_path r, join_with ''/'' cs] = abs_path (r @ cs)"
proof -
  have "path_join [abs_path r, join_with ''/'' cs]
      = path_clean (CHR ''/'' # (join_with ''/'' r @ CHR ''/'' # join_with ''/'' cs))"
    by (simp add: path_join_def abs_path_def)
  also have "\<dots> = abs_path (clean_comps True
      (split_on (CHR ''/'') (join_with ''/'' r @ CHR ''/'' # join_with ''/'' cs)))"
    by (rule path_clean_slash)
  also have "clean_comps True (split_on (CHR ''/'') (join_with ''/'' r @ CHR ''/'' # join_with ''/'' cs))
      = r @ cs"
  proof (cases "r = [] \<or> cs = []")
    case False
    then have "join_with ''/'' r @ CHR ''/'' # join_with ''/'' cs = join_with ''/'' (r @ cs)"
      by (simp add: join_with_append)
    then show ?thesis using assms False by (simp add: proper_split clean_comps_id)
  next
    case True
    have app: "split_on (CHR ''/'') (w @ ''/'') = split_on (CHR ''/'') w @ ['''']" for w
      by (induction w) (auto split: list.splits)
    from True show ?thesis
    proof
      assume "r = []"
      then show ?thesis using assms
        by (cases "cs = []") (simp_all add: clean_comps_def proper_split foldl_clean_proper)
    next
      assume "cs = []"
      then show ?thesis using assms app [of "join_with ''/'' r"]
        by (cases "r = []") (simp_all add: clean_comps_def proper_split foldl_clean_proper)
    qed
  qed
  finally show ?thesis .
qed

lemma path_dir_abs:
  assumes "proper (cs @ [c])"
  shows "path_dir (abs_path (cs @ [c])) = abs_path cs"
proof -
  from assms have nos: "CHR ''/'' \<notin> set c" by (simp add: proper_comp_def)
  then have t: "dropWhile (\<lambda>x. x \<noteq> CHR ''/'') (rev c @ CHR ''/'' # w) = CHR ''/'' # w" for w
    by (induction c rule: rev_induct) auto
  show ?thesis
  proof (cases "cs = []")
    case True
    then show ?thesis using t [of "[]"]
      by (simp add: path_dir_def abs_path_def path_clean_slash clean_comps_def)
  next
    case False
    then have "abs_path (cs @ [c]) = (CHR ''/'' # join_with ''/'' cs) @ CHR ''/'' # c"
      by (simp add: abs_path_def join_with_append)
    then have "path_dir (abs_path (cs @ [c]))
        = path_clean (rev (CHR ''/'' # rev (CHR ''/'' # join_with ''/'' cs)))"
      using t [of "rev (CHR ''/'' # join_with ''/'' cs)"] by (simp add: path_dir_def)
    also have "\<dots> = path_clean (CHR ''/'' # (join_with ''/'' cs @ CHR ''/'' # []))"
      by simp
    also have "\<dots> = path_join [abs_path cs, join_with ''/'' []]"
      by (simp add: path_join_def abs_path_def)
    also have "\<dots> = abs_path cs"
      using assms path_join_under [of cs "[]"] by simp
    finally show ?thesis .
  qed
qed

lemma path_dir_root [simp]: "path_dir (abs_path []) = abs_path []"
  by (simp add: path_dir_def abs_path_def path_clean_slash clean_comps_def)

lemma abs_path_snoc_append: "abs_path (xs @ [c]) @ s = abs_path (xs @ [c @ s])"
  by (cases "xs = []") (simp_all add: abs_path_def join_with_append)

section \<open>Relative paths and confinement\<close>

lemma strip_common_append: "strip_common bs (bs @ ts) = ([], ts)"
  by (induction bs) auto

lemma strip_common_prefix: "fst (strip_common bs ts) = [] \<longleftrightarrow> prefix bs ts"
  by (induction bs ts rule: strip_common.induct) auto

lemma strip_common_proper: "proper ts \<Longrightarrow> proper (snd (strip_common bs ts))"
  by (induction bs ts rule: strip_common.induct) auto

lemma join_first_not_dotdot:
  assumes "proper ts"
  shows "\<not> rel_escapes (join_with ''/'' ts)"
proof (cases ts)
  case Nil
  then show ?thesis by (simp add: rel_escapes_def has_prefix_def)
next
  case (Cons t us)
  have dd: "t = ''..''" if "has_prefix (t @ CHR ''/'' # w) ''../''" "CHR ''/'' \<notin> set t" for w
    using that by (cases t; cases "tl t"; cases "tl (tl t)") (auto simp: has_prefix_def)
  have dd0: "t = ''..''" if "has_prefix t ''../''" "CHR ''/'' \<notin> set t"
    using that by (auto simp: has_prefix_iff)
  have t: "t \<noteq> ''..''" "CHR ''/'' \<notin> set t" using assms Cons by (auto simp: proper_comp_def)
  show ?thesis
  proof
    assume "rel_escapes (join_with ''/'' ts)"
    then consider "join_with ''/'' ts = ''..''" | "has_prefix (join_with ''/'' ts) ''../''"
      by (auto simp: rel_escapes_def)
    then show False
    proof cases
      case 1
      then have "split_on (CHR ''/'') (join_with ''/'' ts) = [''..'']" by simp
      then show False using assms Cons proper_split [of ts] t by simp
    next
      case 2
      then show False using Cons t dd dd0 by (cases us) auto
    qed
  qed
qed

lemma path_rel_escapes:
  assumes "proper r" "proper f"
  shows "\<exists>rel. path_rel (abs_path r) (abs_path f) = Some rel \<and> (rel_escapes rel \<longleftrightarrow> \<not> prefix r f)"
proof (cases "f = r")
  case True
  then show ?thesis using assms by (simp add: path_rel_def rel_escapes_def has_prefix_def)
next
  case False
  obtain b1 t1 where st: "strip_common r f = (b1, t1)" by force
  have rel: "path_rel (abs_path r) (abs_path f)
      = Some (join_with ''/'' (replicate (length b1) ''..'' @ t1))"
    using assms False st by (simp add: path_rel_def abs_path_inject)
  have "rel_escapes (join_with ''/'' (replicate (length b1) ''..'' @ t1)) \<longleftrightarrow> b1 \<noteq> []"
  proof (cases b1)
    case Nil
    then show ?thesis using strip_common_proper [OF assms(2), of r] st join_first_not_dotdot by simp
  next
    case (Cons x xs)
    then have "replicate (length b1) ''..'' @ t1 = ''..'' # (replicate (length xs) ''..'' @ t1)" by simp
    then show ?thesis using Cons
      by (cases "replicate (length xs) ''..'' @ t1") (auto simp: rel_escapes_def has_prefix_def)
  qed
  moreover have "b1 = [] \<longleftrightarrow> prefix r f" using strip_common_prefix [of r f] st by simp
  ultimately show ?thesis using rel by simp
qed

lemma path_rel_under:
  assumes "proper r" "proper cs" "cs \<noteq> []"
  shows "path_rel (abs_path r) (abs_path (r @ cs)) = Some (join_with ''/'' cs)"
  using assms by (simp add: path_rel_def abs_path_inject strip_common_append)

lemma path_rel_self: "proper r \<Longrightarrow> path_rel (abs_path r) (abs_path r) = Some ''.''"
  by (simp add: path_rel_def)

end
