(* ===== verification/Storage_Driver.thy ===== *)
theory Storage_Driver
  imports Go_Errors Go_Path Sha256
begin

text \<open>
  \<^verbatim>\<open>pkg/storage/driver.go\<close>: object metadata, write and list options, the storage error, the
  driver interface and streaming.  A driver is a record of functions over a world \<open>'w\<close>, so that a
  client such as the sync engine can be given two drivers that share state.  The locale
  \<open>object_store\<close> is the contract the clients rely on; the in-memory and the local driver
  provide it.
\<close>

section \<open>Data\<close>

text \<open>Times are nanoseconds since the Unix epoch; \<open>zero_time\<close> is Go's zero \<^verbatim>\<open>time.Time\<close>.\<close>

definition zero_time :: int where
  "zero_time = - 62135596800 * 1000000000"

record object_info =
  oi_key :: string
  oi_path :: string
  oi_size :: int
  oi_modtime :: int
  oi_isdir :: bool
  oi_etag :: string
  oi_ctype :: string
  oi_meta :: "(string \<times> string) list"

record write_options =
  wo_ctype :: string
  wo_meta :: "(string \<times> string) list"
  wo_overwrite :: bool

type_synonym write_option = "write_options \<Rightarrow> write_options"

definition with_content_type :: "string \<Rightarrow> write_option" where
  "with_content_type ct wo = wo\<lparr>wo_ctype := ct\<rparr>"

definition with_metadata :: "(string \<times> string) list \<Rightarrow> write_option" where
  "with_metadata m wo = wo\<lparr>wo_meta := m\<rparr>"

definition with_no_overwrite :: write_option where
  "with_no_overwrite wo = wo\<lparr>wo_overwrite := False\<rparr>"

definition default_write_options :: write_options where
  "default_write_options = \<lparr>wo_ctype = '''', wo_meta = [], wo_overwrite = True\<rparr>"

definition apply_options :: "write_option list \<Rightarrow> write_options" where
  "apply_options opts = foldl (\<lambda>wo f. f wo) default_write_options opts"

lemma apply_options_simps [simp]:
  "apply_options [] = default_write_options"
  "apply_options [with_no_overwrite] = default_write_options\<lparr>wo_overwrite := False\<rparr>"
  by (simp_all add: apply_options_def with_no_overwrite_def)

lemma default_write_options_simps [simp]:
  "wo_ctype default_write_options = ''''"
  "wo_meta default_write_options = []"
  "wo_overwrite default_write_options"
  by (simp_all add: default_write_options_def)

record list_options =
  lo_prefix :: string
  lo_recursive :: bool
  lo_max_keys :: int
  lo_token :: string
  lo_delimiter :: string

definition list_all_under :: "string \<Rightarrow> list_options" where
  "list_all_under p = \<lparr>lo_prefix = p, lo_recursive = True, lo_max_keys = 0, lo_token = '''', lo_delimiter = ''''\<rparr>"

record list_result =
  lr_objects :: "object_info list"
  lr_next :: string
  lr_truncated :: bool

definition storage_error :: "string \<Rightarrow> string \<Rightarrow> string \<Rightarrow> go_error \<Rightarrow> go_error" where
  "storage_error oper drv p e = StorageError oper drv p e"

lemma err_is_storage_error [simp]:
  "err_is (storage_error oper drv p e) t \<longleftrightarrow> StorageError oper drv p e = t \<or> err_is e t"
  by (simp add: storage_error_def)

section \<open>Readers and streaming\<close>

text \<open>
  An \<^verbatim>\<open>io.Reader\<close> is the data it yields and the error, other than \<^verbatim>\<open>io.EOF\<close>, that ends
  it (returned by a call of its own, after the data).
\<close>

record reader =
  rd_data :: bytes
  rd_err :: "go_error option"

definition bytes_reader :: "bytes \<Rightarrow> reader" where
  "bytes_reader d = \<lparr>rd_data = d, rd_err = None\<rparr>"

lemma bytes_reader_simps [simp]:
  "rd_data (bytes_reader d) = d" "rd_err (bytes_reader d) = None"
  by (simp_all add: bytes_reader_def)

text \<open>\<^verbatim>\<open>io.LimitReader\<close>: after \<open>n\<close> bytes it is at the end and asks its source no more.\<close>

definition limit_reader :: "int \<Rightarrow> reader \<Rightarrow> reader" where
  "limit_reader n r =
     (if n \<le> int (length (rd_data r)) then bytes_reader (take (nat n) (rd_data r)) else r)"

text \<open>
  \<^verbatim>\<open>StreamCopy\<close> into a writer that takes everything: what is written, how much, the error.
  The 64 KiB buffer is not visible in the result.
\<close>

definition stream_copy :: "reader \<Rightarrow> bytes \<times> int \<times> go_error option" where
  "stream_copy r = (rd_data r, int (length (rd_data r)), rd_err r)"

text \<open>\<^verbatim>\<open>io.ReadFull\<close> of \<open>n\<close> bytes: what was read, the error, the rest of the source.\<close>

definition read_full :: "nat \<Rightarrow> reader \<Rightarrow> bytes \<times> go_error option \<times> reader" where
  "read_full n r =
     (let d = rd_data r in
      if n \<le> length d then (take n d, None, r\<lparr>rd_data := drop n d\<rparr>)
      else (d, (case rd_err r of
                  Some e \<Rightarrow> Some e
                | None \<Rightarrow> if d = [] then Some ErrEOF else Some ErrUnexpectedEOF),
            r\<lparr>rd_data := []\<rparr>))"

section \<open>The driver interface\<close>

text \<open>
  The interfaces \<^verbatim>\<open>Driver\<close> and \<^verbatim>\<open>AdvancedDriver\<close>: \<open>dr_id\<close> is the identity of the
  pointer, \<open>dr_local_root\<close> what the assertion to the local driver gives, \<open>dr_advanced\<close> whether the
  assertion to the second interface succeeds, \<open>dr_nil_lists\<close> whether the empty listings of the
  driver are \<^verbatim>\<open>nil\<close> slices.
\<close>

record 'w driver =
  dr_name :: string
  dr_id :: nat
  dr_local_root :: "string option"
  dr_advanced :: bool
  dr_nil_lists :: bool
  dr_read :: "ctx \<Rightarrow> string \<Rightarrow> 'w \<Rightarrow> 'w \<times> reader res"
  dr_write :: "ctx \<Rightarrow> string \<Rightarrow> reader \<Rightarrow> int \<Rightarrow> 'w \<Rightarrow> 'w \<times> unit res"
  dr_list :: "ctx \<Rightarrow> string \<Rightarrow> 'w \<Rightarrow> 'w \<times> object_info list res"
  dr_delete :: "ctx \<Rightarrow> string \<Rightarrow> 'w \<Rightarrow> 'w \<times> unit res"
  dr_stat :: "ctx \<Rightarrow> string \<Rightarrow> 'w \<Rightarrow> 'w \<times> object_info res"
  dr_stream :: "ctx \<Rightarrow> string \<Rightarrow> 'w \<Rightarrow> 'w \<times> bytes \<times> go_error option"
  dr_write_opts :: "ctx \<Rightarrow> string \<Rightarrow> reader \<Rightarrow> int \<Rightarrow> write_option list \<Rightarrow> 'w \<Rightarrow> 'w \<times> unit res"
  dr_list_opts :: "ctx \<Rightarrow> list_options \<Rightarrow> 'w \<Rightarrow> 'w \<times> list_result res"

text \<open>
  \<^verbatim>\<open>Stream\<close> as every driver writes it: open the object, copy it to the writer.
\<close>

definition stream_from :: "('w \<Rightarrow> 'w \<times> reader res) \<Rightarrow> 'w \<Rightarrow> 'w \<times> bytes \<times> go_error option" where
  "stream_from rd w =
     (case rd w of
        (w', Inl e) \<Rightarrow> (w', [], Some e)
      | (w', Inr r) \<Rightarrow> (w', rd_data r, rd_err r))"

text \<open>
  A part of a world, read by \<open>get\<close> and written by \<open>put\<close>: an operation on the part as an operation
  on the world.
\<close>

definition on_part :: "('w \<Rightarrow> 'a) \<Rightarrow> ('a \<Rightarrow> 'w \<Rightarrow> 'w) \<Rightarrow> ('a \<Rightarrow> 'a \<times> 'r) \<Rightarrow> 'w \<Rightarrow> 'w \<times> 'r" where
  "on_part get put f w = (case f (get w) of (a, r) \<Rightarrow> (put a w, r))"

definition lens :: "('w \<Rightarrow> 'a) \<Rightarrow> ('a \<Rightarrow> 'w \<Rightarrow> 'w) \<Rightarrow> bool" where
  "lens get put \<longleftrightarrow> (\<forall>a w. get (put a w) = a)"

text \<open>A driver of a part of the world as a driver of the world.\<close>

definition embed :: "('w \<Rightarrow> 'a) \<Rightarrow> ('a \<Rightarrow> 'w \<Rightarrow> 'w) \<Rightarrow> 'a driver \<Rightarrow> 'w driver" where
  "embed get put D =
     \<lparr>dr_name = dr_name D, dr_id = dr_id D, dr_local_root = dr_local_root D, dr_advanced = dr_advanced D,
      dr_nil_lists = dr_nil_lists D,
      dr_read = (\<lambda>cx p. on_part get put (dr_read D cx p)),
      dr_write = (\<lambda>cx p rd n. on_part get put (dr_write D cx p rd n)),
      dr_list = (\<lambda>cx p. on_part get put (dr_list D cx p)),
      dr_delete = (\<lambda>cx p. on_part get put (dr_delete D cx p)),
      dr_stat = (\<lambda>cx p. on_part get put (dr_stat D cx p)),
      dr_stream = (\<lambda>cx p. on_part get put (dr_stream D cx p)),
      dr_write_opts = (\<lambda>cx p rd n wo. on_part get put (dr_write_opts D cx p rd n wo)),
      dr_list_opts = (\<lambda>cx lo. on_part get put (dr_list_opts D cx lo))\<rparr>"

section \<open>Pagination\<close>

text \<open>Go's 64-bit \<^verbatim>\<open>int\<close>.\<close>

definition wrap64 :: "int \<Rightarrow> int" where
  "wrap64 i = (i + 2 ^ 63) mod 2 ^ 64 - 2 ^ 63"

lemma wrap64_id [simp]: "- (2 ^ 63) \<le> i \<Longrightarrow> i < 2 ^ 63 \<Longrightarrow> wrap64 i = i"
  by (simp add: wrap64_def)

fun scan_token :: "string \<Rightarrow> nat \<Rightarrow> object_info list \<Rightarrow> nat" where
  "scan_token tok i [] = i"
| "scan_token tok i (ob # obs) = (if tok < oi_key ob then i else scan_token tok (Suc i) obs)"

definition page_start :: "string \<Rightarrow> object_info list \<Rightarrow> nat" where
  "page_start tok obs = (if tok = '''' then 0 else scan_token tok 0 obs)"

text \<open>
  The slicing common to the in-memory and the local driver.  An index outside the slice is a run
  time panic.
\<close>

definition paginate :: "string \<Rightarrow> int \<Rightarrow> object_info list \<Rightarrow> list_result res" where
  "paginate tok max_keys obs =
     (let n = int (length obs);
          start = int (page_start tok obs);
          mk = (if max_keys \<le> 0 then n else max_keys);
          stop = wrap64 (start + mk)
      in if stop < n
         then (if stop - 1 < 0 then Err (ErrPanic ''index out of range'')
               else if start < n \<and> stop < start then Err (ErrPanic ''slice bounds out of range'')
               else Ok \<lparr>lr_objects = (if start < n then take (nat (stop - start)) (drop (nat start) obs) else []),
                        lr_next = oi_key (obs ! nat (stop - 1)),
                        lr_truncated = True\<rparr>)
         else Ok \<lparr>lr_objects = (if start < n then drop (nat start) obs else []),
                  lr_next = '''', lr_truncated = False\<rparr>)"

definition sort_objects :: "object_info list \<Rightarrow> object_info list" where
  "sort_objects = sort_key oi_key"

definition key_sorted :: "object_info list \<Rightarrow> bool" where
  "key_sorted obs \<longleftrightarrow> sorted_wrt (\<lambda>a b. oi_key a < oi_key b) obs"

lemma key_sorted_Cons [simp]:
  "key_sorted (x # obs) \<longleftrightarrow> (\<forall>y\<in>set obs. oi_key x < oi_key y) \<and> key_sorted obs"
  by (simp add: key_sorted_def)

lemma sort_objects_key_sorted: "distinct (map oi_key obs) \<Longrightarrow> key_sorted (sort_objects obs)"
proof -
  assume "distinct (map oi_key obs)"
  then have "distinct (map oi_key (sort_objects obs))"
    by (metis distinct_map distinct_sort set_sort sort_objects_def)
  moreover have "sorted (map oi_key (sort_objects obs))"
    by (simp add: sort_objects_def)
  ultimately have "sorted_wrt (<) (map oi_key (sort_objects obs))"
    by (simp add: strict_sorted_iff)
  then show ?thesis by (simp add: key_sorted_def sorted_wrt_map)
qed

lemma set_sort_objects [simp]: "set (sort_objects obs) = set obs"
  by (simp add: sort_objects_def)

lemma scan_token_drop:
  "key_sorted obs \<Longrightarrow> i \<le> scan_token tok i obs \<and>
     drop (scan_token tok i obs - i) obs = filter (\<lambda>ob. tok < oi_key ob) obs"
proof (induction obs arbitrary: i)
  case Nil
  then show ?case by simp
next
  case (Cons ob obs)
  show ?case
  proof (cases "tok < oi_key ob")
    case True
    then have "filter (\<lambda>ob. tok < oi_key ob) obs = obs"
      using Cons.prems by (auto simp: filter_id_conv)
    then show ?thesis using True by simp
  next
    case False
    then have "Suc i \<le> scan_token tok (Suc i) obs"
      and "drop (scan_token tok (Suc i) obs - Suc i) obs = filter (\<lambda>ob. tok < oi_key ob) obs"
      using Cons by auto
    then show ?thesis using False by (simp add: Suc_diff_le [symmetric] del: drop_Suc_Cons)
       (metis Suc_diff_Suc Suc_le_eq drop_Suc_Cons)
  qed
qed

lemma page_start_drop:
  "key_sorted obs \<Longrightarrow>
     drop (page_start tok obs) obs = filter (\<lambda>ob. tok = '''' \<or> tok < oi_key ob) obs"
  using scan_token_drop [of obs 0 tok] by (simp add: page_start_def)

lemma scan_token_le: "scan_token tok i obs \<le> i + length obs"
proof (induction obs arbitrary: i)
  case (Cons ob obs)
  then show ?case using Cons [of "Suc i"] by simp
qed simp

lemma page_start_le: "page_start tok obs \<le> length obs"
  using scan_token_le [of tok 0 obs] by (simp add: page_start_def)

text \<open>What is left of a listing after a token.\<close>

definition after_token :: "string \<Rightarrow> object_info list \<Rightarrow> object_info list" where
  "after_token tok obs = filter (\<lambda>ob. tok = '''' \<or> tok < oi_key ob) obs"

lemma after_token_Nil [simp]: "after_token '''' obs = obs"
  by (simp add: after_token_def)

lemma key_sorted_after_token: "key_sorted obs \<Longrightarrow> key_sorted (after_token tok obs)"
  by (simp add: key_sorted_def after_token_def sorted_wrt_filter)

lemma key_sorted_take_drop:
  "key_sorted obs \<Longrightarrow> key_sorted (take n obs) \<and> key_sorted (drop n obs)"
  by (simp add: key_sorted_def sorted_wrt_take sorted_wrt_drop)

text \<open>
  Within the range of the machine integer a page is the first \<open>m\<close> objects after the token, and it
  is marked truncated exactly when objects remain; then the next token is its last key.
\<close>

lemma paginate_page:
  fixes tok :: string
  assumes "key_sorted obs" "0 < m" "m < 2 ^ 62" "int (length obs) < 2 ^ 62"
  defines "rest \<equiv> after_token tok obs"
  shows "paginate tok m obs =
    Ok \<lparr>lr_objects = take (nat m) rest,
        lr_next = (if m < int (length rest) then oi_key (last (take (nat m) rest)) else ''''),
        lr_truncated = (m < int (length rest))\<rparr>"
proof -
  let ?s = "page_start tok obs"
  have rest: "rest = drop ?s obs"
    using page_start_drop [OF assms(1)] by (simp add: rest_def after_token_def)
  have le: "?s \<le> length obs" by (rule page_start_le)
  have len: "length rest = length obs - ?s" using rest by simp
  have wr: "wrap64 (int ?s + m) = int ?s + m"
    using assms le by (intro wrap64_id) auto
  show ?thesis
  proof (cases "int ?s + m < int (length obs)")
    case True
    then have "m < int (length rest)" using len le by auto
    moreover have "take (nat m) rest \<noteq> []" using calculation assms(2) by auto
    moreover have "last (take (nat m) rest) = obs ! nat (int ?s + m - 1)"
    proof -
      have "last (take (nat m) rest) = rest ! (nat m - 1)"
        using calculation assms(2) by (simp add: last_conv_nth min_def)
      also have "\<dots> = obs ! (?s + (nat m - 1))" using rest len calculation assms(2) le by simp
      also have "?s + (nat m - 1) = nat (int ?s + m - 1)" using assms(2) by auto
      finally show ?thesis .
    qed
    moreover have "\<not> int ?s + m - 1 < 0" using assms(2) by auto
    ultimately show ?thesis using True wr assms(2) rest
      by (simp add: paginate_def Let_def)
  next
    case False
    then have "\<not> m < int (length rest)" using len le by auto
    moreover have "take (nat m) rest = rest" using calculation by simp
    ultimately show ?thesis using False wr assms(2) rest le
      by (auto simp add: paginate_def Let_def)
  qed
qed

lemma paginate_everything:
  assumes "key_sorted obs" "m \<le> 0" "int (length obs) < 2 ^ 62"
  shows "paginate tok m obs = Ok \<lparr>lr_objects = after_token tok obs, lr_next = '''', lr_truncated = False\<rparr>"
proof -
  let ?s = "page_start tok obs"
  have le: "?s \<le> length obs" by (rule page_start_le)
  have wr: "wrap64 (int ?s + int (length obs)) = int ?s + int (length obs)"
    using assms le by (intro wrap64_id) auto
  have "drop ?s obs = after_token tok obs"
    using page_start_drop [OF assms(1), of tok] by (simp add: after_token_def)
  then show ?thesis using wr assms(2) le by (auto simp: paginate_def Let_def)
qed

text \<open>
  A client that follows the next tokens: the objects of the pages, \<open>None\<close> when a page fails or the
  fuel runs out.
\<close>

fun follow_pages :: "nat \<Rightarrow> (string \<Rightarrow> list_result res) \<Rightarrow> string \<Rightarrow> object_info list option" where
  "follow_pages 0 page tok = None"
| "follow_pages (Suc n) page tok =
     (case page tok of
        Inl e \<Rightarrow> None
      | Inr r \<Rightarrow>
          if lr_truncated r
          then map_option (\<lambda>xs. lr_objects r @ xs) (follow_pages n page (lr_next r))
          else Some (lr_objects r))"

lemma after_token_trans:
  "t \<noteq> '''' \<Longrightarrow> tok = '''' \<or> tok < t \<Longrightarrow> after_token t (after_token tok obs) = after_token t obs"
  unfolding after_token_def filter_filter
  by (rule filter_cong) (auto dest: order_less_trans)

lemma after_token_last:
  assumes "key_sorted rest" "0 < n" "n < length rest" "rest = after_token tok obs"
    and "oi_key (last (take n rest)) \<noteq> ''''" "key_sorted obs"
  shows "after_token (oi_key (last (take n rest))) obs = drop n rest"
proof -
  let ?l = "last (take n rest)"
  have lin: "?l \<in> set rest" using assms by (metis in_set_takeD last_in_set length_greater_0_conv length_take
      min.absorb4)
  have gt: "tok = '''' \<or> tok < oi_key ?l" using lin assms(4) by (auto simp: after_token_def)
  have "after_token (oi_key ?l) obs = filter (\<lambda>ob. oi_key ?l < oi_key ob) rest"
    using after_token_trans [OF assms(5) gt, of obs] assms(4,5) by (simp add: after_token_def)
  also have "\<dots> = filter (\<lambda>ob. oi_key ?l < oi_key ob) (take n rest @ drop n rest)"
    by (simp only: append_take_drop_id)
  also have "\<dots> = drop n rest"
  proof -
    have nth: "?l = rest ! (n - 1)"
    proof -
      have "take n rest \<noteq> []" using assms(2,3) by (cases rest) auto
      then show ?thesis using assms(2,3) by (simp add: last_conv_nth)
    qed
    have srt: "\<And>i j. i < j \<Longrightarrow> j < length rest \<Longrightarrow> oi_key (rest ! i) < oi_key (rest ! j)"
      using assms(1) by (simp add: key_sorted_def sorted_wrt_iff_nth_less)
    have "filter (\<lambda>ob. oi_key ?l < oi_key ob) (take n rest) = []"
    proof (rule filter_False, rule ballI)
      fix x assume "x \<in> set (take n rest)"
      then obtain i where i: "i < n" "x = rest ! i" using assms(3) by (auto simp: in_set_conv_nth)
      have "oi_key x \<le> oi_key (rest ! (n - 1))"
      proof (cases "i = n - 1")
        case False
        then have "i < n - 1" "n - 1 < length rest" using i(1) assms(2,3) by auto
        then show ?thesis using srt [of i "n - 1"] i(2) by simp
      qed (simp add: i(2))
      then show "\<not> oi_key ?l < oi_key x" using nth by simp
    qed
    moreover have "filter (\<lambda>ob. oi_key ?l < oi_key ob) (drop n rest) = drop n rest"
    proof (rule filter_True, rule ballI)
      fix x assume "x \<in> set (drop n rest)"
      then obtain i where "i < length rest - n" "x = drop n rest ! i"
        by (auto simp: in_set_conv_nth)
      then have i: "n + i < length rest" "x = rest ! (n + i)" by auto
      show "oi_key ?l < oi_key x" using srt [of "n - 1" "n + i"] i nth assms(2) by simp
    qed
    ultimately show ?thesis by (simp only: filter_append append_Nil)
  qed
  finally show ?thesis .
qed

lemma follow_pages_complete:
  assumes "key_sorted obs" "0 < m" "m < 2 ^ 62" "int (length obs) < 2 ^ 62"
    and "\<And>ob. ob \<in> set obs \<Longrightarrow> oi_key ob \<noteq> ''''"
    and "length (after_token tok obs) < n"
  shows "follow_pages n (\<lambda>tk. paginate tk m obs) tok = Some (after_token tok obs)"
  using assms(6)
proof (induction n arbitrary: tok)
  case 0
  then show ?case by simp
next
  case (Suc n)
  let ?rest = "after_token tok obs" and ?k = "nat m"
  show ?case
  proof (cases "m < int (length ?rest)")
    case True
    then have k: "0 < ?k" "?k < length ?rest" using assms(2) by auto
    have "last (take ?k ?rest) \<in> set obs"
      using k by (metis after_token_def filter_is_subset in_set_takeD last_in_set length_greater_0_conv
          length_take min.absorb4 subset_eq)
    then have nxt: "after_token (oi_key (last (take ?k ?rest))) obs = drop ?k ?rest"
      using after_token_last [OF key_sorted_after_token [OF assms(1)] k refl] assms(1,5) by blast
    then have "length (after_token (oi_key (last (take ?k ?rest))) obs) < n"
      using Suc.prems k by simp
    then show ?thesis
      using Suc.IH [of "oi_key (last (take ?k ?rest))"] nxt True
      by (simp add: paginate_page [OF assms(1-4)])
  next
    case False
    then show ?thesis by (simp add: paginate_page [OF assms(1-4)])
  qed
qed

section \<open>The contract of a driver\<close>

text \<open>
  What the clients of a driver rely on.  \<open>key\<close> is the driver's normal form of a path (\<open>None\<close>: the
  path is refused), \<open>view\<close> the objects the world holds by normal form, \<open>plain w k\<close> says that the
  name \<open>k\<close> can hold an object (no directory is in the way), \<open>small\<close> that the driver can store a
  content of this size, \<open>pre\<close> the normal form of a listing prefix.
\<close>

locale object_store =
  fixes D :: "'w driver"
    and inv :: "'w \<Rightarrow> bool"
    and key :: "string \<Rightarrow> string option"
    and pre :: "string \<Rightarrow> string"
    and view :: "'w \<Rightarrow> string \<Rightarrow> bytes option"
    and plain :: "'w \<Rightarrow> string \<Rightarrow> bool"
    and small :: "bytes \<Rightarrow> bool"
  assumes stored_key: "inv w \<Longrightarrow> view w k = Some d \<Longrightarrow> key k = Some k"
    and stored_plain: "inv w \<Longrightarrow> view w k = Some d \<Longrightarrow> plain w k"
    and read_hit: "inv w \<Longrightarrow> key p = Some k \<Longrightarrow> view w k = Some d \<Longrightarrow>
      \<exists>w'. dr_read D background p w = (w', Ok (bytes_reader d)) \<and> inv w' \<and> view w' = view w"
    and read_miss: "inv w \<Longrightarrow> key p = Some k \<Longrightarrow> view w k = None \<Longrightarrow> plain w k \<Longrightarrow>
      \<exists>w' e. dr_read D background p w = (w', Err e) \<and> err_is e ErrNotFound \<and> inv w' \<and> view w' = view w"
    and stat_hit: "inv w \<Longrightarrow> key p = Some k \<Longrightarrow> view w k = Some d \<Longrightarrow>
      \<exists>w' oi. dr_stat D background p w = (w', Ok oi) \<and> oi_path oi = k \<and> oi_size oi = int (length d)
        \<and> \<not> oi_isdir oi \<and> inv w' \<and> view w' = view w"
    and stat_miss: "inv w \<Longrightarrow> key p = Some k \<Longrightarrow> view w k = None \<Longrightarrow> plain w k \<Longrightarrow>
      \<exists>w' e. dr_stat D background p w = (w', Err e) \<and> err_is e ErrNotFound \<and> inv w' \<and> view w' = view w"
    and write_full: "inv w \<Longrightarrow> key p = Some k \<Longrightarrow> plain w k \<Longrightarrow> small d \<Longrightarrow>
      \<exists>w'. dr_write D background p (bytes_reader d) (int (length d)) w = (w', Ok ())
        \<and> inv w' \<and> view w' = (view w)(k \<mapsto> d) \<and> plain w' k"
    and delete_plain: "inv w \<Longrightarrow> key p = Some k \<Longrightarrow> plain w k \<Longrightarrow>
      \<exists>w'. dr_delete D background p w = (w', Ok ()) \<and> inv w' \<and> view w' = (view w)(k := None)
        \<and> plain w' k"
    and list_files: "inv w \<Longrightarrow>
      \<exists>w' obs. dr_list D background p w = (w', Ok obs) \<and> inv w' \<and> view w' = view w
        \<and> distinct (map oi_path obs)
        \<and> {(oi_path ob, oi_size ob) |ob. ob \<in> set obs \<and> \<not> oi_isdir ob}
            = {(k, int (length d)) |k d. view w k = Some d \<and> has_prefix k (pre p)}"
begin

lemmas store_laws = stored_key stored_plain read_hit read_miss stat_hit stat_miss write_full delete_plain

lemma read_after_write:
  assumes "inv w" "key p = Some k" "plain w k" "key q = Some k" "small d"
  shows "\<exists>w1 w2. dr_write D background p (bytes_reader d) (int (length d)) w = (w1, Ok ())
    \<and> dr_read D background q w1 = (w2, Ok (bytes_reader d)) \<and> inv w2 \<and> view w2 = (view w)(k \<mapsto> d)"
proof -
  obtain w1 where 1: "dr_write D background p (bytes_reader d) (int (length d)) w = (w1, Ok ())"
    "inv w1" "view w1 = (view w)(k \<mapsto> d)"
    using write_full [OF assms(1-3,5)] by blast
  then show ?thesis using read_hit [OF 1(2) assms(4), of d] by auto
qed

lemma read_after_delete:
  assumes "inv w" "key p = Some k" "plain w k" "key q = Some k"
  shows "\<exists>w1 w2 e. dr_delete D background p w = (w1, Ok ())
    \<and> dr_read D background q w1 = (w2, Err e) \<and> err_is e ErrNotFound \<and> view w2 = (view w)(k := None)"
proof -
  obtain w1 where 1: "dr_delete D background p w = (w1, Ok ())"
    "inv w1" "view w1 = (view w)(k := None)" "plain w1 k"
    using delete_plain [OF assms(1-3)] by blast
  then show ?thesis using read_miss [OF 1(2) assms(4)] by auto
qed

text \<open>Every listed file can be read back under its listed path and with its listed size.\<close>

lemma listed_readable:
  assumes "inv w" "dr_list D background p w = (w1, Ok obs)" "ob \<in> set obs" "\<not> oi_isdir ob"
  shows "\<exists>w2 d. dr_read D background (oi_path ob) w1 = (w2, Ok (bytes_reader d))
    \<and> oi_size ob = int (length d) \<and> view w (oi_path ob) = Some d \<and> inv w2 \<and> view w2 = view w"
proof -
  have l: "inv w1" "view w1 = view w" and
    s: "{(oi_path ob, oi_size ob) |ob. ob \<in> set obs \<and> \<not> oi_isdir ob}
        = {(k, int (length d)) |k d. view w k = Some d \<and> has_prefix k (pre p)}"
    using list_files [OF assms(1), of p] assms(2) by auto
  have "(oi_path ob, oi_size ob) \<in> {(oi_path ob, oi_size ob) |ob. ob \<in> set obs \<and> \<not> oi_isdir ob}"
    using assms(3,4) by blast
  then obtain d where d: "view w (oi_path ob) = Some d" "oi_size ob = int (length d)"
    unfolding s by auto
  have v: "view w1 (oi_path ob) = Some d" using d(1) l(2) by simp
  then show ?thesis using read_hit [OF l(1) stored_key [OF l(1) v] v] l d by auto
qed

end

end
