(* ===== verification/Go_OS.thy ===== *)
theory Go_OS
  imports Go_Errors Go_Path
begin

text \<open>
  The operating system services the program calls through Go's package \<^verbatim>\<open>os\<close>: a tree of
  files, directories and symbolic links, path resolution with the kernel's limit on symbolic links,
  and one function per call.  Every call takes one tick; at each tick the environment may make the
  call fail (\<open>faults\<close>), reads the time (\<open>now\<close>) and draws random bytes (\<open>entropy\<close>), so a
  statement for all file systems is a statement for every pattern of failures.  A node is stored
  under its physical path, the list of its components; the root directory \<open>[]\<close> always exists.
\<close>

section \<open>The file tree\<close>

datatype node =
    File (file_data: bytes) (node_mtime: int) (file_mode: int)
  | Dir (dir_mode: int) (node_mtime: int)
  | Link (link_target: string) (node_mtime: int)

type_synonym tree = "(string list \<times> node) list"

record fs =
  nodes :: tree
  cwd :: "string list"
  ticks :: nat
  faults :: "nat \<Rightarrow> errno option"
  now :: "nat \<Rightarrow> int"
  entropy :: "nat \<Rightarrow> nat \<Rightarrow> byte"

definition node_at :: "tree \<Rightarrow> string list \<Rightarrow> node option" where
  "node_at t p = (if p = [] then Some (Dir 493 0) else map_of t p)"

fun is_dir :: "node option \<Rightarrow> bool" where
  "is_dir (Some (Dir m t)) \<longleftrightarrow> True"
| "is_dir n \<longleftrightarrow> False"

fun is_link :: "node option \<Rightarrow> bool" where
  "is_link (Some (Link s t)) \<longleftrightarrow> True"
| "is_link n \<longleftrightarrow> False"

definition link_start :: "string \<Rightarrow> string list \<Rightarrow> string list" where
  "link_start s cur = (if rooted s then [] else cur)"

text \<open>
  Path resolution.  \<open>walk n t fol cur cs\<close> follows the components \<open>cs\<close> from the physical directory
  \<open>cur\<close>, following at most \<open>n\<close> symbolic links, the last component only when \<open>fol\<close>.  It answers
  the links left and the physical path, whose last component need not exist.
\<close>

fun walk :: "nat \<Rightarrow> tree \<Rightarrow> bool \<Rightarrow> string list \<Rightarrow> string list \<Rightarrow> errno + nat \<times> string list" where
  "walk n t fol cur [] = Inr (n, cur)"
| "walk n t fol cur (c # cs) =
     (if c = '''' \<or> c = ''.'' then walk n t fol cur cs
      else if c = ''..'' then walk n t fol (butlast cur) cs
      else (case map_of t (cur @ [c]) of
          None \<Rightarrow> if cs = [] then Inr (n, cur @ [c]) else Inl ENOENT
        | Some (File d m pm) \<Rightarrow> if cs = [] then Inr (n, cur @ [c]) else Inl ENOTDIR
        | Some (Dir pm m) \<Rightarrow> walk n t fol (cur @ [c]) cs
        | Some (Link s m) \<Rightarrow>
            if cs = [] \<and> \<not> fol then Inr (n, cur @ [c])
            else (case n of
                0 \<Rightarrow> Inl ELOOP
              | Suc n' \<Rightarrow> walk n' t fol (link_start s cur) (split_on (CHR ''/'') s @ cs))))"

definition kernel_links :: nat where "kernel_links = 40"
definition eval_links :: nat where "eval_links = 255"

definition path_start :: "fs \<Rightarrow> string \<Rightarrow> string list" where
  "path_start w p = (if rooted p then [] else cwd w)"

definition resolve :: "fs \<Rightarrow> bool \<Rightarrow> string \<Rightarrow> errno + string list" where
  "resolve w fol p =
     (if p = '''' then Inl ENOENT
      else map_sum id snd (walk kernel_links (nodes w) fol (path_start w p) (split_on (CHR ''/'') p)))"

section \<open>Calls\<close>

type_synonym 'a os_call = "fs \<Rightarrow> fs \<times> (errno + 'a)"

definition sys :: "(fs \<Rightarrow> fs \<times> (errno + 'a)) \<Rightarrow> 'a os_call" where
  "sys act w =
     (let w' = w\<lparr>ticks := Suc (ticks w)\<rparr>
      in case faults w (ticks w) of Some e \<Rightarrow> (w', Inl e) | None \<Rightarrow> act w')"

definition with_path :: "bool \<Rightarrow> string \<Rightarrow> (string list \<Rightarrow> fs \<Rightarrow> fs \<times> (errno + 'a)) \<Rightarrow> 'a os_call" where
  "with_path fol p f = sys (\<lambda>w. case resolve w fol p of Inl e \<Rightarrow> (w, Inl e) | Inr q \<Rightarrow> f q w)"

definition os_stat_gen :: "bool \<Rightarrow> string \<Rightarrow> node os_call" where
  "os_stat_gen fol p = with_path fol p (\<lambda>q w.
     (w, case node_at (nodes w) q of None \<Rightarrow> Inl ENOENT | Some n \<Rightarrow> Inr n))"

abbreviation os_lstat :: "string \<Rightarrow> node os_call" where "os_lstat \<equiv> os_stat_gen False"
abbreviation os_stat :: "string \<Rightarrow> node os_call" where "os_stat \<equiv> os_stat_gen True"

text \<open>
  \<^verbatim>\<open>os.Open\<close>: a directory opens and fails at the first read, so the data comes with the error
  that ends it.
\<close>

definition os_open :: "string \<Rightarrow> (bytes \<times> errno option) os_call" where
  "os_open p = with_path True p (\<lambda>q w.
     (w, case node_at (nodes w) q of
           None \<Rightarrow> Inl ENOENT
         | Some (File d m pm) \<Rightarrow> Inr (d, None)
         | Some _ \<Rightarrow> Inr ([], Some EISDIR)))"

definition os_read_file :: "string \<Rightarrow> bytes os_call" where
  "os_read_file p = with_path True p (\<lambda>q w.
     (w, case node_at (nodes w) q of
           None \<Rightarrow> Inl ENOENT
         | Some (File d m pm) \<Rightarrow> Inr d
         | Some _ \<Rightarrow> Inl EISDIR))"

definition put_node :: "string list \<Rightarrow> node \<Rightarrow> fs \<Rightarrow> fs" where
  "put_node q n w = w\<lparr>nodes := AList.update q n (nodes w)\<rparr>"

definition del_node :: "string list \<Rightarrow> fs \<Rightarrow> fs" where
  "del_node q w = w\<lparr>nodes := AList.delete q (nodes w)\<rparr>"

text \<open>\<^verbatim>\<open>os.OpenFile(p, O_CREATE|O_WRONLY|O_TRUNC, mode)\<close>; the handle is the physical path.\<close>

definition os_create :: "string \<Rightarrow> int \<Rightarrow> string list os_call" where
  "os_create p mode = with_path True p (\<lambda>q w.
     case node_at (nodes w) q of
       None \<Rightarrow> (put_node q (File [] (now w (ticks w)) mode) w, Inr q)
     | Some (File d m pm) \<Rightarrow> (put_node q (File [] (now w (ticks w)) pm) w, Inr q)
     | Some _ \<Rightarrow> (w, Inl EISDIR))"

definition os_write :: "string list \<Rightarrow> bytes \<Rightarrow> unit os_call" where
  "os_write q d = sys (\<lambda>w.
     case node_at (nodes w) q of
       Some (File d0 m pm) \<Rightarrow> (put_node q (File (d0 @ d) (now w (ticks w)) pm) w, Inr ())
     | _ \<Rightarrow> (w, Inl EIO))"

definition os_sync :: "string list \<Rightarrow> unit os_call" where
  "os_sync q = sys (\<lambda>w. (w, Inr ()))"

definition os_close :: "string list \<Rightarrow> unit os_call" where
  "os_close q = sys (\<lambda>w. (w, Inr ()))"

text \<open>\<^verbatim>\<open>os.WriteFile\<close>.\<close>

definition os_write_file :: "string \<Rightarrow> bytes \<Rightarrow> int \<Rightarrow> unit os_call" where
  "os_write_file p d mode w =
     (case os_create p mode w of
        (w1, Inl e) \<Rightarrow> (w1, Inl e)
      | (w1, Inr q) \<Rightarrow> os_write q d w1)"

definition has_children :: "tree \<Rightarrow> string list \<Rightarrow> bool" where
  "has_children t q \<longleftrightarrow> (\<exists>(p, n) \<in> set t. p \<noteq> [] \<and> butlast p = q)"

definition os_remove :: "string \<Rightarrow> unit os_call" where
  "os_remove p = with_path False p (\<lambda>q w.
     case node_at (nodes w) q of
       None \<Rightarrow> (w, Inl ENOENT)
     | Some (Dir m t) \<Rightarrow>
         if q = [] then (w, Inl EINVAL)
         else if has_children (nodes w) q then (w, Inl ENOTEMPTY)
         else (del_node q w, Inr ())
     | Some _ \<Rightarrow> (del_node q w, Inr ()))"

text \<open>\<^verbatim>\<open>os.Rename\<close> of a file: it replaces a file or a link, never a directory.\<close>

definition os_rename :: "string \<Rightarrow> string \<Rightarrow> unit os_call" where
  "os_rename a b = sys (\<lambda>w.
     case resolve w False a of
       Inl e \<Rightarrow> (w, Inl e)
     | Inr qa \<Rightarrow> (case resolve w False b of
         Inl e \<Rightarrow> (w, Inl e)
       | Inr qb \<Rightarrow> (case node_at (nodes w) qa of
           None \<Rightarrow> (w, Inl ENOENT)
         | Some n \<Rightarrow>
             if is_dir (node_at (nodes w) qb) then (w, Inl EEXIST)
             else if is_dir (Some n) then (w, Inl EINVAL)
             else if qa = qb then (w, Inr ())
             else (put_node qb n (del_node qa w), Inr ()))))"

text \<open>\<^verbatim>\<open>os.MkdirAll\<close>: create the missing directories of a path.\<close>

fun mk_dirs :: "tree \<Rightarrow> int \<Rightarrow> int \<Rightarrow> string list \<Rightarrow> string list \<Rightarrow> errno + tree" where
  "mk_dirs t tm mode cur [] = Inr t"
| "mk_dirs t tm mode cur (c # cs) =
     (if c = '''' \<or> c = ''.'' then mk_dirs t tm mode cur cs
      else if c = ''..'' then mk_dirs t tm mode (butlast cur) cs
      else (case map_of t (cur @ [c]) of
          None \<Rightarrow> mk_dirs (AList.update (cur @ [c]) (Dir mode tm) t) tm mode (cur @ [c]) cs
        | Some (Dir pm m) \<Rightarrow> mk_dirs t tm mode (cur @ [c]) cs
        | Some (File d m pm) \<Rightarrow> Inl ENOTDIR
        | Some (Link s m) \<Rightarrow>
            (case walk kernel_links t True cur [c] of
               Inl e \<Rightarrow> Inl e
             | Inr (_, q) \<Rightarrow> (case node_at t q of
                   Some (Dir pm m') \<Rightarrow> mk_dirs t tm mode q cs
                 | None \<Rightarrow> Inl EEXIST
                 | _ \<Rightarrow> Inl ENOTDIR))))"

definition os_mkdir_all :: "string \<Rightarrow> int \<Rightarrow> unit os_call" where
  "os_mkdir_all p mode = sys (\<lambda>w.
     case mk_dirs (nodes w) (now w (ticks w)) mode (path_start w p) (split_on (CHR ''/'') p) of
       Inl e \<Rightarrow> (w, Inl e)
     | Inr t \<Rightarrow> (w\<lparr>nodes := t\<rparr>, Inr ()))"

text \<open>\<^verbatim>\<open>filepath.EvalSymlinks\<close>: the physical path of an existing node.\<close>

definition os_eval_symlinks :: "string \<Rightarrow> string os_call" where
  "os_eval_symlinks p = sys (\<lambda>w.
     (w, case walk eval_links (nodes w) True (path_start w p) (split_on (CHR ''/'') p) of
           Inl e \<Rightarrow> Inl e
         | Inr (_, q) \<Rightarrow> if node_at (nodes w) q = None then Inl ENOENT else Inr (abs_path q)))"

text \<open>\<^verbatim>\<open>filepath.Abs\<close>.\<close>

definition os_abs :: "fs \<Rightarrow> string \<Rightarrow> string" where
  "os_abs w p = (if rooted p then path_clean p else path_join [abs_path (cwd w), p])"

text \<open>\<^verbatim>\<open>rand.Read\<close> of \<open>n\<close> bytes.\<close>

definition os_rand :: "nat \<Rightarrow> bytes os_call" where
  "os_rand n = sys (\<lambda>w. (w, Inr (map (entropy w (ticks w)) [0..<n])))"

text \<open>A failing call as a Go error: \<^verbatim>\<open>fs.PathError\<close>.\<close>

definition os_err :: "string \<Rightarrow> string \<Rightarrow> errno \<Rightarrow> go_error" where
  "os_err oper p n = ErrPathOS oper p n"

text \<open>\<^verbatim>\<open>os.ReadDir\<close>: the entries of a directory, sorted by name.\<close>

definition children :: "tree \<Rightarrow> string list \<Rightarrow> (string \<times> node) list" where
  "children t q =
     sort_key fst (map (\<lambda>(p, n). (last p, n)) (filter (\<lambda>(p, n). p \<noteq> [] \<and> butlast p = q) t))"

definition os_read_dir :: "string \<Rightarrow> (string \<times> node) list os_call" where
  "os_read_dir p = with_path True p (\<lambda>q w.
     (w, case node_at (nodes w) q of
           None \<Rightarrow> Inl ENOENT
         | Some (Dir m t) \<Rightarrow> Inr (children (nodes w) q)
         | Some _ \<Rightarrow> Inl ENOTDIR))"

text \<open>\<^verbatim>\<open>FileInfo.Size\<close>; the size of a directory is that of one block.\<close>

fun node_size :: "node \<Rightarrow> int" where
  "node_size (File d m pm) = int (length d)"
| "node_size (Dir pm m) = 4096"
| "node_size (Link s m) = int (length s)"

text \<open>\<^verbatim>\<open>io.Copy\<close> of data to a file, in the 64 KiB pieces of the pooled buffer.\<close>

fun os_copy :: "string list \<Rightarrow> bytes \<Rightarrow> unit os_call" where
  "os_copy q d w =
     (if d = [] then (w, Inr ())
      else (case os_write q (take 65536 d) w of
          (w1, Inl e) \<Rightarrow> (w1, Inl e)
        | (w1, Inr _) \<Rightarrow> os_copy q (drop 65536 d) w1))"

declare os_copy.simps [simp del]

lemma os_copy_Nil [simp]: "os_copy q [] w = (w, Inr ())"
  by (simp add: os_copy.simps)

lemma os_copy_code [code]:
  "os_copy q d w =
     (if d = [] then (w, Inr ())
      else if int (length d) \<le> 65536 then os_write q d w
      else (case os_write q (take 65536 d) w of
          (w1, Inl e) \<Rightarrow> (w1, Inl e)
        | (w1, Inr _) \<Rightarrow> os_copy q (drop 65536 d) w1))"
  by (auto simp: os_copy.simps [of q d] split: prod.split sum.split)

text \<open>
  \<^verbatim>\<open>filepath.WalkDir\<close>: every node below a path, depth first, entries in the order of their
  names.  The callback has a state of its own; it goes on, skips a directory or stops with an
  error.  The fuel bounds the depth.
\<close>

datatype verdict = Go | Skip | Stop go_error

fun walk_dir :: "nat \<Rightarrow> (string \<Rightarrow> node \<Rightarrow> go_error option \<Rightarrow> fs \<times> 's \<Rightarrow> (fs \<times> 's) \<times> verdict) \<Rightarrow>
      string \<Rightarrow> node \<Rightarrow> fs \<times> 's \<Rightarrow> (fs \<times> 's) \<times> verdict"
  and walk_list :: "nat \<Rightarrow> (string \<Rightarrow> node \<Rightarrow> go_error option \<Rightarrow> fs \<times> 's \<Rightarrow> (fs \<times> 's) \<times> verdict) \<Rightarrow>
      string \<Rightarrow> (string \<times> node) list \<Rightarrow> fs \<times> 's \<Rightarrow> (fs \<times> 's) \<times> verdict" where
  "walk_dir 0 fn p nd st = (st, Stop (ErrPanic ''depth bound''))"
| "walk_dir (Suc n) fn p nd st =
     (case fn p nd None st of
        (st1, v) \<Rightarrow>
          if v \<noteq> Go \<or> \<not> is_dir (Some nd)
          then (st1, if v = Skip \<and> is_dir (Some nd) then Go else v)
          else (case os_read_dir p (fst st1) of
              (w1, Inl e) \<Rightarrow>
                (case fn p nd (Some (os_err ''open'' p e)) (w1, snd st1) of
                   (st2, v2) \<Rightarrow> (st2, if v2 = Skip then Go else v2))
            | (w1, Inr ents) \<Rightarrow> walk_list n fn p ents (w1, snd st1)))"
| "walk_list n fn p [] st = (st, Go)"
| "walk_list n fn p ((name, nd) # ents) st =
     (case walk_dir n fn (path_join [p, name]) nd st of
        (st1, v) \<Rightarrow>
          if v = Skip then (st1, Go)
          else if v = Go then walk_list n fn p ents st1
          else (st1, v))"

text \<open>The walk from its root, whose own \<^verbatim>\<open>Lstat\<close> may fail.\<close>

definition os_walk_dir :: "(string \<Rightarrow> node \<Rightarrow> go_error option \<Rightarrow> fs \<times> 's \<Rightarrow> (fs \<times> 's) \<times> verdict) \<Rightarrow>
      string \<Rightarrow> fs \<times> 's \<Rightarrow> (fs \<times> 's) \<times> go_error option" where
  "os_walk_dir fn root st =
     (let (w1, r) = os_lstat root (fst st);
          (st', v) = (case r of
             Inl e \<Rightarrow> fn root (Dir 0 0) (Some (os_err ''lstat'' root e)) (w1, snd st)
           | Inr nd \<Rightarrow> walk_dir (Suc (Suc (length (nodes w1)))) fn root nd (w1, snd st))
      in (st', case v of Stop e \<Rightarrow> Some e | _ \<Rightarrow> None))"

section \<open>Well-formed trees\<close>

definition wf_tree :: "tree \<Rightarrow> bool" where
  "wf_tree t \<longleftrightarrow> distinct (map fst t) \<and>
     (\<forall>(p, n) \<in> set t. p \<noteq> [] \<and> proper p \<and> is_dir (node_at t (butlast p)))"

text \<open>A path all of whose prefixes are real directories.\<close>

definition real_dir :: "tree \<Rightarrow> string list \<Rightarrow> bool" where
  "real_dir t r \<longleftrightarrow> proper r \<and> (\<forall>k \<le> length r. is_dir (node_at t (take k r)))"

definition no_faults :: "fs \<Rightarrow> bool" where
  "no_faults w \<longleftrightarrow> faults w = (\<lambda>_. None)"

section \<open>Lemmas on calls\<close>

text \<open>Two file systems that differ in the tick counter only: what a reading call leaves behind.\<close>

definition ticked :: "fs \<Rightarrow> fs \<Rightarrow> bool" where
  "ticked w w' \<longleftrightarrow> (\<exists>n. w' = w\<lparr>ticks := n\<rparr>)"

lemma ticked_refl [simp]: "ticked w w"
  unfolding ticked_def by (rule exI [of _ "ticks w"]) simp

lemma ticked_trans [trans]: "ticked a b \<Longrightarrow> ticked b c \<Longrightarrow> ticked a c"
  by (auto simp: ticked_def)

lemma ticked_fields:
  "ticked w w' \<Longrightarrow> nodes w' = nodes w \<and> cwd w' = cwd w \<and> faults w' = faults w"
  by (auto simp: ticked_def)

lemma ticked_tick [simp]: "ticked w (w\<lparr>ticks := n\<rparr>)"
  by (auto simp: ticked_def)

lemma sys_ticked:
  "(\<And>w. ticked w (fst (act w))) \<Longrightarrow> ticked w (fst (sys act w))"
  by (auto simp: sys_def Let_def split: option.splits intro: ticked_trans [OF ticked_tick])

lemma with_path_ticked:
  "(\<And>q w. ticked w (fst (f q w))) \<Longrightarrow> ticked w (fst (with_path fol p f w))"
  unfolding with_path_def by (rule sys_ticked) (auto split: sum.splits)

lemma os_stat_gen_ticked: "os_stat_gen fol p w = (w', r) \<Longrightarrow> ticked w w'"
  using with_path_ticked [of "\<lambda>q w. (w, case node_at (nodes w) q of None \<Rightarrow> Inl ENOENT | Some n \<Rightarrow> Inr n)"
      w fol p]
  by (simp add: os_stat_gen_def)

lemma os_eval_ticked: "os_eval_symlinks p w = (w', r) \<Longrightarrow> ticked w w'"
  using sys_ticked [of "\<lambda>w. (w, case walk eval_links (nodes w) True (path_start w p) (split_on (CHR ''/'') p) of
           Inl e \<Rightarrow> Inl e
         | Inr (_, q) \<Rightarrow> if node_at (nodes w) q = None then Inl ENOENT else Inr (abs_path q))" w]
  by (simp add: os_eval_symlinks_def)

text \<open>The environment never answers "no such file" for a call it makes fail.\<close>

definition honest :: "fs \<Rightarrow> bool" where
  "honest w \<longleftrightarrow> (\<forall>n. faults w n \<noteq> Some ENOENT)"

lemma honest_ticked: "honest w \<Longrightarrow> ticked w w' \<Longrightarrow> honest w'"
  by (auto simp: honest_def ticked_def)

lemma resolve_ticked: "ticked w w' \<Longrightarrow> resolve w' fol p = resolve w fol p"
  by (auto simp: ticked_def resolve_def path_start_def)

lemma os_stat_gen_ok:
  assumes "os_stat_gen fol p w = (w', Inr n)"
  shows "\<exists>q. resolve w fol p = Inr q \<and> node_at (nodes w) q = Some n"
proof -
  from assms have "\<exists>q. resolve (w\<lparr>ticks := Suc (ticks w)\<rparr>) fol p = Inr q \<and> node_at (nodes w) q = Some n"
    by (auto simp: os_stat_gen_def with_path_def sys_def Let_def split: option.splits sum.splits)
  then show ?thesis by (simp add: resolve_ticked [OF ticked_tick])
qed

lemma os_stat_gen_enoent:
  assumes "os_stat_gen fol p w = (w', Inl ENOENT)" "honest w"
  shows "resolve w fol p = Inl ENOENT \<or> (\<exists>q. resolve w fol p = Inr q \<and> node_at (nodes w) q = None)"
proof -
  from assms have "resolve (w\<lparr>ticks := Suc (ticks w)\<rparr>) fol p = Inl ENOENT \<or>
      (\<exists>q. resolve (w\<lparr>ticks := Suc (ticks w)\<rparr>) fol p = Inr q \<and> node_at (nodes w) q = None)"
    by (auto simp: os_stat_gen_def with_path_def sys_def Let_def honest_def split: option.splits sum.splits)
  then show ?thesis by (simp add: resolve_ticked [OF ticked_tick])
qed

lemma os_eval_ok:
  assumes "os_eval_symlinks p w = (w', Inr s)"
  shows "\<exists>m q. walk eval_links (nodes w) True (path_start w p) (split_on (CHR ''/'') p) = Inr (m, q)
           \<and> s = abs_path q \<and> node_at (nodes w) q \<noteq> None"
  using assms
  by (auto simp: os_eval_symlinks_def sys_def Let_def path_start_def split: option.splits sum.splits if_splits)

section \<open>Path resolution\<close>

lemma walk_empty [simp]: "walk n t fol cur ('''' # cs) = walk n t fol cur cs"
  by simp

lemma split_abs_path: "proper ds \<Longrightarrow> split_on (CHR ''/'') (abs_path ds) = '''' # (if ds = [] then [''''] else ds)"
  by (simp add: abs_path_def proper_split)

lemma walk_split_abs [simp]:
  "proper ds \<Longrightarrow> walk n t fol cur (split_on (CHR ''/'') (abs_path ds)) = walk n t fol cur ds"
  by (simp add: split_abs_path)

lemma path_start_abs [simp]: "path_start w (abs_path ds) = []"
  by (simp add: path_start_def)

text \<open>Resolving a longer path resolves its front first, whatever follows.\<close>

lemma walk_append_any:
  assumes "walk n t fol cur (xs @ ys) = Inr z" "ys \<noteq> []" "fol0"
  shows "\<exists>m q. walk n t fol0 cur xs = Inr (m, q) \<and>
           (\<forall>fol' ys'. ys' \<noteq> [] \<longrightarrow> walk n t fol' cur (xs @ ys') = walk m t fol' q ys')"
  using assms
proof (induction n t fol0 cur xs rule: walk.induct)
  case (1 n t fol0 cur)
  then show ?case by auto
next
  case (2 n t fol0 cur c cs)
  show ?case
  proof (cases "c = '''' \<or> c = ''.''")
    case True
    then show ?thesis using "2.IH"(1) "2.prems" by auto
  next
    case ne: False
    show ?thesis
    proof (cases "c = ''..''")
      case True
      then show ?thesis using "2.IH"(2) "2.prems" ne by auto
    next
      case False
      note c = ne False
      show ?thesis
      proof (cases "map_of t (cur @ [c])")
        case None
        then show ?thesis using "2.prems" c by simp
      next
        case (Some nd)
        then show ?thesis
        proof (cases nd)
          case (File d m pm)
          then show ?thesis using "2.prems" c Some by simp
        next
          case (Dir pm m)
          then show ?thesis using "2.IH"(3) "2.prems" c Some by auto
        next
          case (Link s m)
          show ?thesis
          proof (cases n)
            case 0
            then show ?thesis using "2.prems" c Some Link by simp
          next
            case (Suc n')
            then show ?thesis using "2.IH"(4) [OF ne False Some Link _ Suc] "2.prems" c Some Link by simp
          qed
        qed
      qed
    qed
  qed
qed

lemma walk_more_links:
  "walk n t fol cur xs = Inr (m, q) \<Longrightarrow> walk (n + k) t fol cur xs = Inr (m + k, q)"
proof (induction n t fol cur xs rule: walk.induct)
  case (2 n t fol cur c cs)
  then show ?case
    by (auto split: option.splits node.splits nat.splits if_splits)
qed simp

lemma walk_append:
  assumes "walk n t fol cur (xs @ ys) = Inr z" "ys \<noteq> []"
  shows "\<exists>m q. walk n t True cur xs = Inr (m, q) \<and>
           (\<forall>fol' ys'. ys' \<noteq> [] \<longrightarrow> walk n t fol' cur (xs @ ys') = walk m t fol' q ys')"
  by (rule walk_append_any [OF assms]) simp

text \<open>A resolved path has proper components when the directory it starts from has.\<close>

lemma walk_proper:
  assumes "walk n t fol cur xs = Inr (m, q)" "proper cur" "\<And>c. c \<in> set xs \<Longrightarrow> CHR ''/'' \<notin> set c"
  shows "proper q"
  using assms
proof (induction n t fol cur xs rule: walk.induct)
  case (1 n t fol cur)
  then show ?case by simp
next
  case (2 n t fol cur c cs)
  have nos: "CHR ''/'' \<notin> set c" "\<And>d. d \<in> set cs \<Longrightarrow> CHR ''/'' \<notin> set d" using "2.prems"(3) by auto
  have pb: "proper (butlast cur)" using "2.prems"(2) by (metis butlast_conv_take list_all_iff in_set_takeD)
  show ?case
  proof (cases "c = '''' \<or> c = ''.'' \<or> c = ''..''")
    case True
    then show ?thesis using "2.IH"(1,2) "2.prems" nos pb by (auto split: if_splits)
  next
    case False
    then have "proper_comp c" using nos(1) by (simp add: proper_comp_def)
    then have pc: "proper (cur @ [c])" using "2.prems"(2) by simp
    have ps: "\<And>d s. d \<in> set (split_on (CHR ''/'') s @ cs) \<Longrightarrow> CHR ''/'' \<notin> set d"
      using nos(2) split_on_no_sep by auto
    have ls: "\<And>s. proper (link_start s cur)" using "2.prems"(2) by (simp add: link_start_def)
    show ?thesis
      using "2.prems"(1) False pc "2.IH"(3) [OF _ _ _ _ _ pc nos(2)] "2.IH"(4) [OF _ _ _ _ _ _ _ ls ps]
      by (auto split: option.splits node.splits nat.splits if_splits)
  qed
qed

section \<open>A small file system\<close>

text \<open>
  The world in which the witnesses of the development are evaluated: a store \<^verbatim>\<open>/srv\<close> with a
  directory, a file, a link inside and a link to the outside.
\<close>

definition demo_fs :: fs where
  "demo_fs =
     \<lparr>nodes = [([''srv''], Dir 488 0), ([''srv'', ''a''], Dir 488 0), ([''srv'', ''a'', ''f''], File [1, 2] 0 384),
               ([''srv'', ''in''], Link ''a'' 0), ([''srv'', ''out''], Link ''/etc'' 0), ([''etc''], Dir 493 0)],
      cwd = [], ticks = 0, faults = (\<lambda>_. None), now = (\<lambda>n. int n), entropy = (\<lambda>n k. of_nat k)\<rparr>"

lemma demo_fs_honest: "honest demo_fs"
  by (simp add: honest_def demo_fs_def)

lemma demo_fs_real_dir: "real_dir (nodes demo_fs) [''srv'']"
  by (simp add: real_dir_def demo_fs_def node_at_def proper_comp_def le_Suc_eq)

text \<open>The same without links, and with a failure at every second call once a rename is reached.\<close>

definition plain_fs :: fs where
  "plain_fs = demo_fs\<lparr>nodes := [([''srv''], Dir 488 0), ([''srv'', ''a''], Dir 488 0),
     ([''srv'', ''a'', ''f''], File [1, 2] 0 384)]\<rparr>"

definition flaky_fs :: fs where
  "flaky_fs = plain_fs\<lparr>faults := (\<lambda>n. if 9 \<le> n \<and> even (n - 9) then Some EACCES else None)\<rparr>"

text \<open>A store with nothing in it.\<close>

definition empty_fs :: fs where
  "empty_fs = demo_fs\<lparr>nodes := [([''srv''], Dir 488 0)]\<rparr>"

end
