(* ===== verification/Go_Tree.thy ===== *)
theory Go_Tree
  imports Go_OS
begin

text \<open>
  The system calls on a tree without symbolic links and without failures: what a path resolves to
  and what each call answers, for a path below a directory \<open>r\<close> that exists.
\<close>

section \<open>Calls without failures\<close>

definition link_free :: "tree \<Rightarrow> bool" where
  "link_free t \<longleftrightarrow> (\<forall>(p, n) \<in> set t. \<not> is_link (Some n))"

lemma link_free_node: "link_free t \<Longrightarrow> \<not> is_link (map_of t p)"
  by (cases "map_of t p") (auto simp: link_free_def dest: map_of_SomeD)

lemma link_free_node_at: "link_free t \<Longrightarrow> \<not> is_link (node_at t p)"
  by (simp add: node_at_def link_free_node)

abbreviation tick :: "fs \<Rightarrow> fs" where
  "tick w \<equiv> w\<lparr>ticks := Suc (ticks w)\<rparr>"

lemma sys_plain: "no_faults w \<Longrightarrow> sys act w = act (tick w)"
  by (simp add: sys_def no_faults_def)

lemma no_faults_ticked: "ticked w w' \<Longrightarrow> no_faults w \<Longrightarrow> no_faults w'"
  by (auto simp: ticked_def no_faults_def)

lemma no_faults_update [simp]:
  "no_faults (w\<lparr>ticks := n\<rparr>) = no_faults w" "no_faults (w\<lparr>nodes := t\<rparr>) = no_faults w"
  by (simp_all add: no_faults_def)

lemma wf_tree_parent:
  assumes "wf_tree t" "map_of t p = Some n"
  shows "p \<noteq> []" "proper p" "is_dir (node_at t (butlast p))"
proof -
  have "(p, n) \<in> set t" using assms(2) by (rule map_of_SomeD)
  then show "p \<noteq> []" "proper p" "is_dir (node_at t (butlast p))"
    using assms(1) by (auto simp: wf_tree_def)
qed

lemma wf_tree_take:
  assumes "wf_tree t" "map_of t p = Some n" "k < length p"
  shows "is_dir (node_at t (take k p))"
proof -
  have "is_dir (node_at t (take (length p - Suc m) p))" if "m < length p" for m
    using that
  proof (induction m)
    case 0
    then show ?case using wf_tree_parent [OF assms(1,2)] by (simp add: butlast_conv_take)
  next
    case (Suc m)
    let ?q = "take (length p - Suc m) p"
    have d: "is_dir (node_at t ?q)" using Suc by simp
    have "?q \<noteq> []" using Suc.prems by auto
    then obtain nq where "map_of t ?q = Some nq" using d by (auto simp: node_at_def elim: is_dir.elims)
    then have "is_dir (node_at t (butlast ?q))" using wf_tree_parent [OF assms(1)] by blast
    moreover have "butlast ?q = take (length p - Suc (Suc m)) p"
      using Suc.prems by (simp add: butlast_take)
    ultimately show ?case by simp
  qed
  from this [of "length p - Suc k"] show ?thesis using assms(3) by simp
qed

section \<open>Resolution below a directory\<close>

text \<open>No file lies on the way to \<open>cs\<close> below \<open>r\<close>.\<close>

definition clear_way :: "tree \<Rightarrow> string list \<Rightarrow> string list \<Rightarrow> bool" where
  "clear_way t r cs \<longleftrightarrow>
     (\<forall>k. 0 < k \<longrightarrow> k < length cs \<longrightarrow> map_of t (r @ take k cs) = None \<or> is_dir (map_of t (r @ take k cs)))"

lemma clear_way_Cons: "clear_way t r (c # cs) \<Longrightarrow> clear_way t (r @ [c]) cs"
  unfolding clear_way_def
proof (intro allI impI)
  fix k assume h: "\<forall>k. 0 < k \<longrightarrow> k < length (c # cs) \<longrightarrow>
      map_of t (r @ take k (c # cs)) = None \<or> is_dir (map_of t (r @ take k (c # cs)))"
    and k: "0 < k" "k < length cs"
  show "map_of t ((r @ [c]) @ take k cs) = None \<or> is_dir (map_of t ((r @ [c]) @ take k cs))"
    using h [rule_format, of "Suc k"] k by simp
qed

lemma clear_way_take: "clear_way t r cs \<Longrightarrow> clear_way t r (take k cs)"
  by (auto simp: clear_way_def min_def)

lemma clear_way_stored:
  assumes "wf_tree t" "map_of t (r @ cs) = Some n"
  shows "clear_way t r cs"
  unfolding clear_way_def
proof (intro allI impI disjI2)
  fix k assume k: "0 < k" "k < length cs"
  then have "is_dir (node_at t (take (length r + k) (r @ cs)))"
    using wf_tree_take [OF assms, of "length r + k"] by simp
  then show "is_dir (map_of t (r @ take k cs))" using k by (auto simp: node_at_def split: if_splits)
qed

lemma walk_clear:
  assumes "link_free t" "wf_tree t" "proper cs" "clear_way t cur cs"
  shows "walk n t fol cur cs = Inr (n, cur @ cs) \<or>
    walk n t fol cur cs = Inl ENOENT \<and> map_of t (cur @ cs) = None"
  using assms(3,4)
proof (induction cs arbitrary: cur)
  case Nil
  then show ?case by simp
next
  case (Cons c cs)
  have pc: "proper_comp c" "proper cs" using Cons.prems(1) by auto
  have lf: "\<not> is_link (map_of t (cur @ [c]))" by (rule link_free_node [OF assms(1)])
  show ?case
  proof (cases "cs = []")
    case True
    then show ?thesis using pc lf
      by (auto simp: proper_comp_def split: option.splits node.splits)
  next
    case False
    have cl: "map_of t (cur @ [c]) = None \<or> is_dir (map_of t (cur @ [c]))"
      using Cons.prems(2) False unfolding clear_way_def
      by (metis One_nat_def append_Nil length_Cons length_greater_0_conv less_Suc_eq_0_disj not_less_eq take0 take_Suc_Cons zero_less_one)
    show ?thesis
    proof (cases "map_of t (cur @ [c])")
      case None
      have "map_of t (cur @ c # cs) = None"
      proof (rule ccontr)
        assume "map_of t (cur @ c # cs) \<noteq> None"
        then obtain m where "map_of t (cur @ c # cs) = Some m" by blast
        from wf_tree_take [OF assms(2) this, of "Suc (length cur)"] False None
        show False by (simp add: node_at_def)
      qed
      then show ?thesis using None False pc by (simp add: proper_comp_def)
    next
      case (Some nd)
      then obtain pm m where "nd = Dir pm m" using cl by (cases nd) auto
      then show ?thesis
        using Cons.IH [OF pc(2) clear_way_Cons [OF Cons.prems(2)]] Some pc by (simp add: proper_comp_def)
    qed
  qed
qed

lemma real_dir_take: "real_dir t r \<Longrightarrow> k \<le> length r \<Longrightarrow> 0 < k \<Longrightarrow> is_dir (map_of t (take k r))"
  unfolding real_dir_def by (metis node_at_def take_eq_Nil less_not_refl list.size(3) le_zero_eq)

text \<open>A real directory is resolved to itself, whatever is resolved below it.\<close>

lemma walk_real_dir:
  assumes "real_dir t r"
  shows "walk n t fol [] (r @ xs) = walk n t fol r xs"
proof -
  have "walk n t fol (take k r) (drop k r @ xs) = walk n t fol r xs" if "k \<le> length r" for k
    using that
  proof (induction "length r - k" arbitrary: k)
    case 0
    then show ?case by simp
  next
    case (Suc m)
    then have kl: "k < length r" by simp
    have "proper_comp (r ! k)" using assms kl by (auto simp: real_dir_def list_all_iff)
    moreover have "is_dir (map_of t (take k r @ [r ! k]))"
      using real_dir_take [OF assms, of "Suc k"] kl by (simp add: take_Suc_conv_app_nth)
    then obtain pm m where "map_of t (take k r @ [r ! k]) = Some (Dir pm m)"
      by (metis is_dir.elims(2))
    ultimately have "walk n t fol (take k r) (r ! k # drop (Suc k) r @ xs)
        = walk n t fol (take (Suc k) r) (drop (Suc k) r @ xs)"
      using kl by (simp add: proper_comp_def take_Suc_conv_app_nth)
    moreover have "drop k r @ xs = r ! k # drop (Suc k) r @ xs" using kl by (simp add: Cons_nth_drop_Suc)
    ultimately show ?case using Suc by auto
  qed
  from this [of 0] show ?thesis by simp
qed

text \<open>The setting of this theory: a world and a directory in it.\<close>

definition plain_world :: "fs \<Rightarrow> string list \<Rightarrow> bool" where
  "plain_world w r \<longleftrightarrow> wf_tree (nodes w) \<and> link_free (nodes w) \<and> no_faults w \<and> real_dir (nodes w) r"

lemma plain_worldD:
  assumes "plain_world w r"
  shows "wf_tree (nodes w)" "link_free (nodes w)" "no_faults w" "real_dir (nodes w) r" "proper r"
  using assms by (auto simp: plain_world_def real_dir_def)

lemma plain_world_ticked: "ticked w w' \<Longrightarrow> plain_world w r \<Longrightarrow> plain_world w' r"
  by (auto simp: plain_world_def ticked_fields no_faults_ticked)

lemma plain_world_tick [simp]: "plain_world (w\<lparr>ticks := n\<rparr>) r = plain_world w r"
  by (simp add: plain_world_def)

lemma resolve_clear:
  assumes "plain_world w r" "proper cs" "clear_way (nodes w) r cs"
  shows "resolve w fol (abs_path (r @ cs)) = Inr (r @ cs) \<or>
    resolve w fol (abs_path (r @ cs)) = Inl ENOENT \<and> map_of (nodes w) (r @ cs) = None"
proof -
  note p = plain_worldD [OF assms(1)]
  have "resolve w fol (abs_path (r @ cs)) = map_sum id snd (walk kernel_links (nodes w) fol r cs)"
    using p assms(2) walk_real_dir [OF p(4), of kernel_links fol cs] by (simp add: resolve_def)
  then show ?thesis using walk_clear [OF p(2,1) assms(2,3), of kernel_links fol] by auto
qed

lemma resolve_stored:
  assumes "plain_world w r" "proper cs" "map_of (nodes w) (r @ cs) = Some n"
  shows "resolve w fol (abs_path (r @ cs)) = Inr (r @ cs)"
  using resolve_clear [OF assms(1,2) clear_way_stored [OF plain_worldD(1) [OF assms(1)] assms(3)], of fol] assms(3)
  by auto

lemma resolve_below_dir:
  assumes "plain_world w r" "proper cs" "proper_comp c" "is_dir (node_at (nodes w) (r @ cs))"
  shows "resolve w fol (abs_path (r @ cs @ [c])) = Inr (r @ cs @ [c])"
proof -
  note p = plain_worldD [OF assms(1)]
  have d: "is_dir (map_of (nodes w) (r @ take k (cs @ [c])))" if k: "0 < k" "k \<le> length cs" for k
  proof (cases "k = length cs")
    case True
    then show ?thesis using assms(4) k by (auto simp: node_at_def)
  next
    case False
    then have ne: "r @ cs \<noteq> []" "k < length cs" using k by auto
    obtain nd where "map_of (nodes w) (r @ cs) = Some nd"
      using assms(4) ne by (auto simp: node_at_def elim: is_dir.elims)
    from wf_tree_take [OF p(1) this, of "length r + k"] show ?thesis using ne k by (auto simp: node_at_def)
  qed
  then have "clear_way (nodes w) r (cs @ [c])" by (auto simp: clear_way_def)
  moreover have "walk n (nodes w) fol cur (ys @ [c]) = Inr (n, cur @ ys @ [c])"
    if "proper ys" "\<And>k. 0 < k \<Longrightarrow> k \<le> length ys \<Longrightarrow> is_dir (map_of (nodes w) (cur @ take k ys))" for n cur ys
    using that
  proof (induction ys arbitrary: cur)
    case Nil
    then show ?case using assms(3) link_free_node [OF p(2), of "cur @ [c]"]
      by (auto simp: proper_comp_def split: option.splits node.splits)
  next
    case (Cons y ys)
    have "is_dir (map_of (nodes w) (cur @ [y]))" using Cons.prems(2) [of 1] by simp
    then obtain pm m where "map_of (nodes w) (cur @ [y]) = Some (Dir pm m)" by (metis is_dir.elims(2))
    moreover have "walk n (nodes w) fol (cur @ [y]) (ys @ [c]) = Inr (n, (cur @ [y]) @ ys @ [c])"
    proof (rule Cons.IH)
      fix k assume "0 < k" "k \<le> length ys"
      then show "is_dir (map_of (nodes w) ((cur @ [y]) @ take k ys))"
        using Cons.prems(2) [of "Suc k"] by simp
    qed (use Cons.prems in simp)
    ultimately show ?case using Cons.prems(1) by (simp add: proper_comp_def)
  qed
  from this [OF assms(2), of r kernel_links] d have
    "walk kernel_links (nodes w) fol r (cs @ [c]) = Inr (kernel_links, r @ cs @ [c])"
    by simp
  then show ?thesis
    using p assms(2,3) walk_real_dir [OF p(4), of kernel_links fol "cs @ [c]"] by (simp add: resolve_def)
qed

section \<open>Changing a tree\<close>

lemma wf_tree_map:
  "wf_tree t \<longleftrightarrow> distinct (map fst t) \<and>
     (\<forall>p n. map_of t p = Some n \<longrightarrow> p \<noteq> [] \<and> proper p \<and> is_dir (node_at t (butlast p)))"
proof (cases "distinct (map fst t)")
  case True
  have "(\<forall>(p, n) \<in> set t. p \<noteq> [] \<and> proper p \<and> is_dir (node_at t (butlast p))) \<longleftrightarrow>
      (\<forall>p n. map_of t p = Some n \<longrightarrow> p \<noteq> [] \<and> proper p \<and> is_dir (node_at t (butlast p)))"
    by (simp only: map_of_eq_Some_iff [OF True]) auto
  then show ?thesis by (simp add: wf_tree_def)
next
  case False
  then show ?thesis by (simp add: wf_tree_def)
qed

lemma link_free_map: "wf_tree t \<Longrightarrow> link_free t \<longleftrightarrow> (\<forall>p n. map_of t p = Some n \<longrightarrow> \<not> is_link (Some n))"
proof -
  assume "wf_tree t"
  then have d: "distinct (map fst t)" by (simp add: wf_tree_def)
  show ?thesis unfolding link_free_def by (simp only: map_of_eq_Some_iff [OF d]) auto
qed

lemma wf_tree_put:
  assumes "wf_tree t" "p \<noteq> []" "proper p" "is_dir (node_at t (butlast p))"
    and "is_dir (Some n) \<or> \<not> is_dir (map_of t p)"
  shows "wf_tree (AList.update p n t)"
proof -
  have "distinct (map fst (AList.update p n t))" using assms(1) by (simp add: wf_tree_def distinct_update)
  moreover have "q \<noteq> [] \<and> proper q \<and> is_dir (node_at (AList.update p n t) (butlast q))"
    if q: "map_of (AList.update p n t) q = Some m" for q m
  proof (cases "q = p")
    case True
    have "butlast p \<noteq> p" using assms(2) by (metis butlast_snoc append_butlast_last_id not_Cons_self2 self_append_conv)
    then show ?thesis using True assms(2-4) by (simp add: node_at_def split: if_splits)
  next
    case False
    then have "map_of t q = Some m" using q by simp
    from wf_tree_parent [OF assms(1) this] show ?thesis using assms(5) by (auto simp: node_at_def)
  qed
  ultimately show ?thesis by (simp add: wf_tree_map del: map_of_update map_of_eq_Some_iff)
qed

lemma link_free_put: "link_free t \<Longrightarrow> \<not> is_link (Some n) \<Longrightarrow> link_free (AList.update p n t)"
proof -
  assume "link_free t" "\<not> is_link (Some n)"
  moreover have "set (AList.update p n t) \<subseteq> insert (p, n) (set t)"
    by (induction t) auto
  ultimately show ?thesis unfolding link_free_def by fast
qed

lemma wf_tree_del:
  assumes "wf_tree t" "\<not> is_dir (map_of t p)"
  shows "wf_tree (AList.delete p t)"
proof -
  have "distinct (map fst (AList.delete p t))" using assms(1) by (simp add: wf_tree_def distinct_delete)
  moreover have "q \<noteq> [] \<and> proper q \<and> is_dir (node_at (AList.delete p t) (butlast q))"
    if q: "map_of (AList.delete p t) q = Some m" for q m
  proof -
    have "map_of t q = Some m" using q by (simp split: if_splits)
    from wf_tree_parent [OF assms(1) this] show ?thesis using assms(2)
      by (auto simp: node_at_def split: if_splits)
  qed
  ultimately show ?thesis by (simp add: wf_tree_map del: map_of_delete map_of_eq_Some_iff)
qed

lemma link_free_del: "link_free t \<Longrightarrow> link_free (AList.delete p t)"
  by (auto simp: link_free_def AList.delete_eq)

lemma real_dir_mono:
  assumes "real_dir t r" "\<And>k. k \<le> length r \<Longrightarrow> is_dir (node_at t (take k r)) \<Longrightarrow> is_dir (node_at t' (take k r))"
  shows "real_dir t' r"
  using assms by (auto simp: real_dir_def)

lemma real_dir_put:
  assumes "real_dir t r" "is_dir (Some n) \<or> \<not> is_dir (map_of t p)"
  shows "real_dir (AList.update p n t) r"
  by (rule real_dir_mono [OF assms(1)]) (use assms(2) in \<open>auto simp: node_at_def split: if_splits\<close>)

lemma real_dir_del:
  assumes "real_dir t r" "\<not> is_dir (map_of t p)"
  shows "real_dir (AList.delete p t) r"
  by (rule real_dir_mono [OF assms(1)]) (use assms(2) in \<open>auto simp: node_at_def split: if_splits\<close>)

text \<open>The tree after the missing directories of a path were made.\<close>

definition with_dirs :: "tree \<Rightarrow> node \<Rightarrow> string list \<Rightarrow> string list \<Rightarrow> string list \<Rightarrow> node option" where
  "with_dirs t nd cur cs x =
     (if map_of t x = None \<and> (\<exists>k. 0 < k \<and> k \<le> length cs \<and> x = cur @ take k cs) then Some nd else map_of t x)"

lemma mk_dirs_plain:
  assumes "wf_tree t" "link_free t" "proper cur" "is_dir (node_at t cur)" "proper cs"
    and "\<And>k. 0 < k \<Longrightarrow> k \<le> length cs \<Longrightarrow> map_of t (cur @ take k cs) = None \<or> is_dir (map_of t (cur @ take k cs))"
  shows "\<exists>t'. mk_dirs t tm mode cur cs = Inr t' \<and> wf_tree t' \<and> link_free t'
    \<and> map_of t' = with_dirs t (Dir mode tm) cur cs \<and> is_dir (node_at t' (cur @ cs))"
  using assms
proof (induction cs arbitrary: t cur)
  case Nil
  have "map_of t = with_dirs t (Dir mode tm) cur []" by (rule ext) (auto simp: with_dirs_def)
  then show ?case using Nil by simp
next
  case (Cons c cs)
  have pc: "proper_comp c" "proper cs" "proper (cur @ [c])" using Cons.prems by auto
  have tk: "map_of t (cur @ [c]) = None \<or> is_dir (map_of t (cur @ [c]))"
    using Cons.prems(6) [of 1] by simp
  have shift: "(\<exists>k. 0 < k \<and> k \<le> length (c # cs) \<and> x = cur @ take k (c # cs)) \<longleftrightarrow>
      x = cur @ [c] \<or> (\<exists>k. 0 < k \<and> k \<le> length cs \<and> x = (cur @ [c]) @ take k cs)" for x
  proof
    assume "\<exists>k. 0 < k \<and> k \<le> length (c # cs) \<and> x = cur @ take k (c # cs)"
    then obtain k where k: "0 < k" "k \<le> length (c # cs)" "x = cur @ take k (c # cs)" by blast
    then obtain j where "k = Suc j" by (cases k) auto
    then show "x = cur @ [c] \<or> (\<exists>k. 0 < k \<and> k \<le> length cs \<and> x = (cur @ [c]) @ take k cs)"
      using k by (cases "j = 0") auto
  next
    assume "x = cur @ [c] \<or> (\<exists>k. 0 < k \<and> k \<le> length cs \<and> x = (cur @ [c]) @ take k cs)"
    then show "\<exists>k. 0 < k \<and> k \<le> length (c # cs) \<and> x = cur @ take k (c # cs)"
    proof
      assume "x = cur @ [c]"
      then show ?thesis by (intro exI [of _ 1]) simp
    next
      assume "\<exists>k. 0 < k \<and> k \<le> length cs \<and> x = (cur @ [c]) @ take k cs"
      then obtain k where "k \<le> length cs" "x = (cur @ [c]) @ take k cs" by blast
      then show ?thesis by (intro exI [of _ "Suc k"]) simp
    qed
  qed
  have below: "map_of t ((cur @ [c]) @ take k cs) = None \<or> is_dir (map_of t ((cur @ [c]) @ take k cs))"
    if "0 < k" "k \<le> length cs" for k
    using Cons.prems(6) [of "Suc k"] that by simp
  show ?case
  proof (cases "map_of t (cur @ [c])")
    case None
    let ?t1 = "AList.update (cur @ [c]) (Dir mode tm) t"
    have w1: "wf_tree ?t1" by (rule wf_tree_put) (use Cons.prems pc in simp_all)
    have "\<exists>t'. mk_dirs ?t1 tm mode (cur @ [c]) cs = Inr t' \<and> wf_tree t' \<and> link_free t'
        \<and> map_of t' = with_dirs ?t1 (Dir mode tm) (cur @ [c]) cs \<and> is_dir (node_at t' ((cur @ [c]) @ cs))"
      by (rule Cons.IH) (use w1 link_free_put Cons.prems pc below in \<open>auto simp: node_at_def\<close>)
    then obtain t' where t': "mk_dirs ?t1 tm mode (cur @ [c]) cs = Inr t'" "wf_tree t'" "link_free t'"
      "map_of t' = with_dirs ?t1 (Dir mode tm) (cur @ [c]) cs" "is_dir (node_at t' ((cur @ [c]) @ cs))" by blast
    have "with_dirs ?t1 (Dir mode tm) (cur @ [c]) cs = with_dirs t (Dir mode tm) cur (c # cs)"
    proof
      fix x show "with_dirs ?t1 (Dir mode tm) (cur @ [c]) cs x = with_dirs t (Dir mode tm) cur (c # cs) x"
        unfolding with_dirs_def shift using None by auto
    qed
    then show ?thesis using t' None pc by (simp add: proper_comp_def)
  next
    case (Some nd)
    then obtain pm m where nd: "nd = Dir pm m" using tk by (cases nd) auto
    have "\<exists>t'. mk_dirs t tm mode (cur @ [c]) cs = Inr t' \<and> wf_tree t' \<and> link_free t'
        \<and> map_of t' = with_dirs t (Dir mode tm) (cur @ [c]) cs \<and> is_dir (node_at t' ((cur @ [c]) @ cs))"
      by (rule Cons.IH) (use Cons.prems pc below Some nd in \<open>auto simp: node_at_def\<close>)
    moreover have "with_dirs t (Dir mode tm) (cur @ [c]) cs = with_dirs t (Dir mode tm) cur (c # cs)"
    proof
      fix x show "with_dirs t (Dir mode tm) (cur @ [c]) cs x = with_dirs t (Dir mode tm) cur (c # cs) x"
        unfolding with_dirs_def shift using Some by auto
    qed
    ultimately show ?thesis using Some nd pc by (simp add: proper_comp_def)
  qed
qed

section \<open>The calls\<close>

lemma os_stat_plain:
  assumes "plain_world w r" "proper cs" "clear_way (nodes w) r cs" "r @ cs \<noteq> []"
  shows "os_stat_gen fol (abs_path (r @ cs)) w =
    (tick w, case map_of (nodes w) (r @ cs) of None \<Rightarrow> Inl ENOENT | Some n \<Rightarrow> Inr n)"
  using resolve_clear [OF assms(1-3), of fol] plain_worldD(3) [OF assms(1)] assms(4)
  by (auto simp: os_stat_gen_def with_path_def sys_plain resolve_ticked [OF ticked_tick] node_at_def)

lemma os_open_plain:
  assumes "plain_world w r" "proper cs" "clear_way (nodes w) r cs" "r @ cs \<noteq> []"
    and "\<not> is_dir (map_of (nodes w) (r @ cs))"
  shows "os_open (abs_path (r @ cs)) w =
    (tick w, case map_of (nodes w) (r @ cs) of Some (File d m pm) \<Rightarrow> Inr (d, None) | _ \<Rightarrow> Inl ENOENT)"
proof -
  have "\<not> is_link (map_of (nodes w) (r @ cs))" by (rule link_free_node [OF plain_worldD(2) [OF assms(1)]])
  then show ?thesis
    using resolve_clear [OF assms(1-3), of True] plain_worldD(3) [OF assms(1)] assms(4,5)
    by (auto simp: os_open_def with_path_def sys_plain resolve_ticked [OF ticked_tick] node_at_def
        split: option.splits node.splits)
qed

lemma os_remove_plain:
  assumes "plain_world w r" "proper cs" "clear_way (nodes w) r cs" "r @ cs \<noteq> []"
    and "\<not> is_dir (map_of (nodes w) (r @ cs))"
  shows "os_remove (abs_path (r @ cs)) w =
    (if map_of (nodes w) (r @ cs) = None then (tick w, Inl ENOENT) else (del_node (r @ cs) (tick w), Inr ()))"
  using resolve_clear [OF assms(1-3), of False] plain_worldD(3) [OF assms(1)] assms(4,5)
  by (auto simp: os_remove_def with_path_def sys_plain resolve_ticked [OF ticked_tick] node_at_def
      split: option.splits node.splits)

lemma os_mkdir_all_plain:
  assumes "plain_world w r" "proper cs" "clear_way (nodes w) r (cs @ [c])"
  shows "\<exists>t'. os_mkdir_all (abs_path (r @ cs)) mode w = ((tick w)\<lparr>nodes := t'\<rparr>, Inr ())
    \<and> wf_tree t' \<and> link_free t' \<and> is_dir (node_at t' (r @ cs)) \<and> real_dir t' r
    \<and> map_of t' = with_dirs (nodes w) (Dir mode (now w (Suc (ticks w)))) r cs"
proof -
  note p = plain_worldD [OF assms(1)]
  let ?tm = "now w (Suc (ticks w))"
  have skip: "mk_dirs (nodes w) tm mode [] (r @ cs) = mk_dirs (nodes w) tm mode r cs" for tm
  proof -
    have "mk_dirs (nodes w) tm mode (take k r) (drop k r @ cs) = mk_dirs (nodes w) tm mode r cs"
      if "k \<le> length r" for k
      using that
    proof (induction "length r - k" arbitrary: k)
      case 0
      then show ?case by simp
    next
      case (Suc m)
      then have kl: "k < length r" by simp
      have "proper_comp (r ! k)" using p(5) kl by (auto simp: list_all_iff)
      moreover have "is_dir (map_of (nodes w) (take k r @ [r ! k]))"
        using real_dir_take [OF p(4), of "Suc k"] kl by (simp add: take_Suc_conv_app_nth)
      then obtain pm m where "map_of (nodes w) (take k r @ [r ! k]) = Some (Dir pm m)"
        by (metis is_dir.elims(2))
      ultimately have "mk_dirs (nodes w) tm mode (take k r) (r ! k # drop (Suc k) r @ cs)
          = mk_dirs (nodes w) tm mode (take (Suc k) r) (drop (Suc k) r @ cs)"
        using kl by (simp add: proper_comp_def take_Suc_conv_app_nth)
      moreover have "drop k r @ cs = r ! k # drop (Suc k) r @ cs" using kl by (simp add: Cons_nth_drop_Suc)
      ultimately show ?case using Suc by auto
    qed
    from this [of 0] show ?thesis by simp
  qed
  have sp: "mk_dirs (nodes w) tm mode [] (split_on (CHR ''/'') (abs_path (r @ cs))) = mk_dirs (nodes w) tm mode r cs"
    for tm using p(5) assms(2) skip [of tm] by (simp add: split_abs_path)
  have dr: "is_dir (node_at (nodes w) r)" using p(4) by (auto simp: real_dir_def)
  have "\<exists>t'. mk_dirs (nodes w) ?tm mode r cs = Inr t' \<and> wf_tree t' \<and> link_free t'
      \<and> map_of t' = with_dirs (nodes w) (Dir mode ?tm) r cs \<and> is_dir (node_at t' (r @ cs))"
    by (rule mk_dirs_plain [OF p(1,2,5) dr assms(2)])
       (use assms(3) in \<open>auto simp: clear_way_def\<close>)
  then obtain t' where t': "mk_dirs (nodes w) ?tm mode r cs = Inr t'" "wf_tree t'" "link_free t'"
    "map_of t' = with_dirs (nodes w) (Dir mode ?tm) r cs" "is_dir (node_at t' (r @ cs))" by blast
  have "real_dir t' r"
    by (rule real_dir_mono [OF p(4)]) (use t'(4) in \<open>auto simp: node_at_def with_dirs_def split: if_splits\<close>)
  then show ?thesis using t' sp p(3) by (intro exI [of _ t']) (simp add: os_mkdir_all_def sys_plain)
qed

lemma os_create_plain:
  assumes "plain_world w r" "proper cs" "proper_comp c" "is_dir (node_at (nodes w) (r @ cs))"
    and "map_of (nodes w) (r @ cs @ [c]) = None"
  shows "os_create (abs_path (r @ cs @ [c])) mode w =
    (put_node (r @ cs @ [c]) (File [] (now w (Suc (ticks w))) mode) (tick w), Inr (r @ cs @ [c]))"
  using resolve_below_dir [OF assms(1-4), of True] plain_worldD(3) [OF assms(1)] assms(5)
  by (simp add: os_create_def with_path_def sys_plain resolve_ticked [OF ticked_tick] node_at_def)

lemma os_copy_plain:
  assumes "no_faults w" "q \<noteq> []" "map_of (nodes w) q = Some (File d0 m pm)"
  shows "\<exists>n m'. os_copy q d w = (w\<lparr>ticks := n, nodes := (if d = [] then nodes w else
    AList.update q (File (d0 @ d) m' pm) (nodes w))\<rparr>, Inr ())"
  using assms
proof (induction q d w arbitrary: d0 m rule: os_copy.induct)
  case (1 q d w)
  show ?case
  proof (cases "d = []")
    case True
    then show ?thesis by (intro exI [of _ "ticks w"]) (simp add: os_copy.simps [of q "[]"])
  next
    case False
    let ?w1 = "put_node q (File (d0 @ take 65536 d) (now w (Suc (ticks w))) pm) (tick w)"
    have st: "os_write q (take 65536 d) w = (?w1, Inr ())"
      using "1.prems" by (simp add: os_write_def sys_plain node_at_def)
    have "\<exists>n m'. os_copy q (drop 65536 d) ?w1 = (?w1\<lparr>ticks := n, nodes := (if drop 65536 d = [] then nodes ?w1 else
        AList.update q (File ((d0 @ take 65536 d) @ drop 65536 d) m' pm) (nodes ?w1))\<rparr>, Inr ())"
      by (rule "1.IH" [OF False st [symmetric] refl]) (use "1.prems" in \<open>simp_all add: put_node_def\<close>)
    then obtain n m' where c: "os_copy q (drop 65536 d) ?w1 = (?w1\<lparr>ticks := n, nodes := (if drop 65536 d = [] then nodes ?w1 else
        AList.update q (File ((d0 @ take 65536 d) @ drop 65536 d) m' pm) (nodes ?w1))\<rparr>, Inr ())" by blast
    have uu: "AList.update q v (AList.update q u t) = AList.update q v t" for u v and t :: tree
      by (induction t) auto
    show ?thesis using False st c
      by (auto simp: os_copy.simps [of q d] put_node_def uu)
  qed
qed

lemma os_rename_plain:
  assumes "plain_world w r" "proper cs" "proper_comp a" "proper_comp b" "is_dir (node_at (nodes w) (r @ cs))"
    and "map_of (nodes w) (r @ cs @ [a]) = Some (File d m pm)" "\<not> is_dir (map_of (nodes w) (r @ cs @ [b]))"
    and "a \<noteq> b"
  shows "os_rename (abs_path (r @ cs @ [a])) (abs_path (r @ cs @ [b])) w =
    (put_node (r @ cs @ [b]) (File d m pm) (del_node (r @ cs @ [a]) (tick w)), Inr ())"
  using resolve_below_dir [OF assms(1,2,3,5), of False] resolve_below_dir [OF assms(1,2,4,5), of False]
    plain_worldD(3) [OF assms(1)] assms(6-8)
  by (simp add: os_rename_def sys_plain resolve_ticked [OF ticked_tick] node_at_def)

lemma resolve_node:
  assumes "plain_world w r" "proper cs" "node_at (nodes w) (r @ cs) = Some nd"
  shows "resolve w fol (abs_path (r @ cs)) = Inr (r @ cs)"
proof (cases "cs = []")
  case True
  note p = plain_worldD [OF assms(1)]
  show ?thesis using True p walk_real_dir [OF p(4), of kernel_links fol "[]"] by (simp add: resolve_def)
next
  case False
  then have "map_of (nodes w) (r @ cs) = Some nd" using assms(3) by (simp add: node_at_def)
  then show ?thesis by (rule resolve_stored [OF assms(1,2)])
qed

lemma os_stat_node:
  assumes "plain_world w r" "proper cs" "node_at (nodes w) (r @ cs) = Some nd"
  shows "os_stat_gen fol (abs_path (r @ cs)) w = (tick w, Inr nd)"
  using resolve_node [OF assms, of fol] plain_worldD(3) [OF assms(1)] assms(3)
  by (simp add: os_stat_gen_def with_path_def sys_plain resolve_ticked [OF ticked_tick])

lemma os_read_dir_node:
  assumes "plain_world w r" "proper cs" "node_at (nodes w) (r @ cs) = Some (Dir pm m)"
  shows "os_read_dir (abs_path (r @ cs)) w = (tick w, Inr (children (nodes w) (r @ cs)))"
  using resolve_node [OF assms, of True] plain_worldD(3) [OF assms(1)] assms(3)
  by (simp add: os_read_dir_def with_path_def sys_plain resolve_ticked [OF ticked_tick])

end
