(* ===== verification/Path_Sanitizer.thy ===== *)
theory Path_Sanitizer
  imports Go_Tree
begin

text \<open>
  \<^verbatim>\<open>pkg/storage/local/sanitizer.go\<close>: the translation of a caller's path into a host path under
  the root of a local store.  \<open>sanitize_form\<close> says what a translated path looks like,
  \<open>sanitize_confined\<close> that the kernel resolves it inside the root even through symbolic links.
\<close>

section \<open>Reserved device names and URL decoding\<close>

text \<open>
  The regular expression \<^verbatim>\<open>^(?i)(CON|PRN|AUX|NUL|COM[1-9]|LPT[1-9])(\..*)?$\<close>: its dot does not
  match a line feed.
\<close>

definition device_names :: "string list" where
  "device_names =
     [''CON'', ''PRN'', ''AUX'', ''NUL'',
      ''COM1'', ''COM2'', ''COM3'', ''COM4'', ''COM5'', ''COM6'', ''COM7'', ''COM8'', ''COM9'',
      ''LPT1'', ''LPT2'', ''LPT3'', ''LPT4'', ''LPT5'', ''LPT6'', ''LPT7'', ''LPT8'', ''LPT9'']"

definition win_device :: "string \<Rightarrow> bool" where
  "win_device seg \<longleftrightarrow>
     to_upper (takeWhile (\<lambda>c. c \<noteq> CHR ''.'') seg) \<in> set device_names \<and>
     CHR 0x0A \<notin> set (dropWhile (\<lambda>c. c \<noteq> CHR ''.'') seg)"

definition hex_val :: "char \<Rightarrow> nat option" where
  "hex_val c =
     (let n = of_char c :: nat in
      if 48 \<le> n \<and> n \<le> 57 then Some (n - 48)
      else if 97 \<le> n \<and> n \<le> 102 then Some (n - 87)
      else if 65 \<le> n \<and> n \<le> 70 then Some (n - 55)
      else None)"

text \<open>\<^verbatim>\<open>url.PathUnescape\<close>.\<close>

fun path_unescape :: "string \<Rightarrow> string option" where
  "path_unescape [] = Some []"
| "path_unescape (c # s) =
     (if c = CHR ''%''
      then (case s of
          a # b # r \<Rightarrow>
            (case (hex_val a, hex_val b) of
               (Some x, Some y) \<Rightarrow> map_option (\<lambda>u. char_of (16 * x + y) # u) (path_unescape r)
             | _ \<Rightarrow> None)
        | _ \<Rightarrow> None)
      else map_option (\<lambda>u. c # u) (path_unescape s))"

lemma path_unescape_plain: "CHR ''%'' \<notin> set s \<Longrightarrow> path_unescape s = Some s"
  by (induction s) auto

section \<open>The sanitizer\<close>

definition new_path_sanitizer :: "string \<Rightarrow> fs \<Rightarrow> fs \<times> string res" where
  "new_path_sanitizer root w =
     (let abs_root = os_abs w root in
      case os_eval_symlinks abs_root w of
        (w1, Inl e) \<Rightarrow> (w1, Ok (path_clean abs_root))
      | (w1, Inr s) \<Rightarrow> (w1, Ok (path_clean s)))"

abbreviation nul_char :: char where "nul_char \<equiv> CHR 0x00"

text \<open>Step 2 of \<^verbatim>\<open>Sanitize\<close>: decode, and look for a hidden null byte or traversal.\<close>

definition decode_path :: "string \<Rightarrow> string res" where
  "decode_path p =
     (if CHR ''%'' \<in> set p
      then (case path_unescape p of
          None \<Rightarrow> Err (errorf_wv ErrInvalidPath ''invalid url encoding in path'')
        | Some d \<Rightarrow>
            if nul_char \<in> set d
            then Err (errorf_ww ErrInvalidPath ''path contains url-encoded null byte'' ErrPathTraversal)
            else if contains_str d ''..''
            then Err (errorf_ww ErrInvalidPath ''path contains url-encoded traversal'' ErrPathTraversal)
            else Ok d)
      else Ok p)"

text \<open>Step 5: every raw segment, before cleaning.\<close>

fun check_segments :: "string list \<Rightarrow> go_error option" where
  "check_segments [] = None"
| "check_segments (seg # segs) =
     (if trim_cut {CHR ''.''} seg = '''' \<and> 2 \<le> length seg
      then Some (errorf_ww ErrInvalidPath (''traversal segment '' @ go_quote seg) ErrPathTraversal)
      else if seg = ''..'' \<or> contains_str seg ''..''
      then Some (errorf_ww ErrInvalidPath (''traversal segment '' @ go_quote seg) ErrPathTraversal)
      else if win_device seg
      then Some (errorf_wv ErrInvalidPath (''reserved device name '' @ go_quote seg))
      else check_segments segs)"

text \<open>Step 9.  The retries of \<^verbatim>\<open>Lstat\<close>: up to five attempts, only for errors other than absence.\<close>

fun lstat_retry :: "nat \<Rightarrow> string \<Rightarrow> fs \<Rightarrow> fs \<times> (errno + node)" where
  "lstat_retry 0 p w = (w, Inl EIO)"
| "lstat_retry (Suc n) p w =
     (case os_lstat p w of
        (w1, Inr nd) \<Rightarrow> (w1, Inr nd)
      | (w1, Inl e) \<Rightarrow> if e = ENOENT \<or> n = 0 then (w1, Inl e) else lstat_retry n p w1)"

definition check_link :: "string \<Rightarrow> string \<Rightarrow> fs \<Rightarrow> fs \<times> go_error option" where
  "check_link root cur w =
     (case lstat_retry 5 cur w of
        (w1, Inr nd) \<Rightarrow>
          if is_link (Some nd)
          then (case os_eval_symlinks cur w1 of
              (w2, Inl e) \<Rightarrow>
                (w2, Some (errorf_ww ErrInvalidPath
                       (''failed to evaluate symlink '' @ go_quote cur) ErrPathTraversal))
            | (w2, Inr s) \<Rightarrow>
                (w2, case path_rel root (path_clean s) of
                       None \<Rightarrow> Some (errorf_ww ErrInvalidPath ''symlink targets location outside root'' ErrPathTraversal)
                     | Some rel \<Rightarrow>
                         if rel_escapes rel
                         then Some (errorf_ww ErrInvalidPath ''symlink targets location outside root'' ErrPathTraversal)
                         else None))
          else (w1, None)
      | (w1, Inl e) \<Rightarrow>
          (w1, if e = ENOENT then None
               else Some (errorf_wv ErrInvalidPath
                      (''failed to stat path '' @ go_quote cur @ '': '' @ err_msg (os_err ''lstat'' cur e)))))"

text \<open>
  The loop from a path up to the root.  The fuel bounds its turns; \<open>verify_loop_fuel\<close> shows that one
  more than the number of components is enough for an absolute clean path.
\<close>

fun verify_loop :: "nat \<Rightarrow> string \<Rightarrow> string \<Rightarrow> fs \<Rightarrow> fs \<times> go_error option" where
  "verify_loop 0 root cur w = (w, Some (ErrPanic ''loop bound''))"
| "verify_loop (Suc n) root cur w =
     (case check_link root cur w of
        (w1, Some e) \<Rightarrow> (w1, Some e)
      | (w1, None) \<Rightarrow>
          (let parent = path_dir cur in
           if parent = cur \<or> length parent < length root then (w1, None)
           else verify_loop n root parent w1))"

definition verify_symlink_confinement :: "string \<Rightarrow> string \<Rightarrow> fs \<Rightarrow> fs \<times> go_error option" where
  "verify_symlink_confinement root target w = verify_loop (Suc (length target)) root target w"

definition sanitize :: "string \<Rightarrow> string \<Rightarrow> fs \<Rightarrow> fs \<times> string res" where
  "sanitize root user_path w =
     (if nul_char \<in> set user_path
      then (w, Err (errorf_ww ErrInvalidPath ''path contains null byte'' ErrPathTraversal))
      else (case decode_path user_path of
          Inl e \<Rightarrow> (w, Err e)
        | Inr p \<Rightarrow>
            (let normalized = slashed p in
             if CHR '':'' \<in> set normalized
             then (w, Err (errorf_ww ErrInvalidPath ''colon or alternate data stream forbidden'' ErrPathTraversal))
             else (case check_segments (split_on (CHR ''/'') normalized) of
                 Some e \<Rightarrow> (w, Err e)
               | None \<Rightarrow>
                   (let clean0 = trim_prefix (path_clean (''/'' @ normalized)) ''/'';
                        clean_rel = (if clean0 = ''.'' then '''' else clean0) in
                    if clean_rel = ''..'' \<or> has_prefix clean_rel ''../'' \<or> contains_str clean_rel ''/../''
                    then (w, Err (errorf_ww ErrInvalidPath ''path traverses outside root'' ErrPathTraversal))
                    else
                      (let full = path_clean (path_join [root, clean_rel]) in
                       if (case path_rel root full of None \<Rightarrow> True | Some rel \<Rightarrow> rel_escapes rel)
                       then (w, Err (errorf_ww ErrInvalidPath ''resolved path escapes root boundary'' ErrPathTraversal))
                       else (case verify_symlink_confinement root full w of
                           (w1, Some e) \<Rightarrow> (w1, Err e)
                         | (w1, None) \<Rightarrow> (w1, Ok full))))))))"

section \<open>Every refusal is an invalid path\<close>

lemma check_segments_err: "check_segments segs = Some e \<Longrightarrow> err_is e ErrInvalidPath"
  by (induction segs) (auto split: if_splits)

lemma decode_path_err: "decode_path p = Inl e \<Longrightarrow> err_is e ErrInvalidPath"
  by (auto simp: decode_path_def split: if_splits option.splits)

lemma check_link_err: "check_link root cur w = (w', Some e) \<Longrightarrow> err_is e ErrInvalidPath"
  by (auto simp: check_link_def split: if_splits option.splits sum.splits prod.splits)

lemma check_segments_None:
  "check_segments segs = None \<longleftrightarrow> (\<forall>s\<in>set segs. \<not> contains_str s ''..'' \<and> \<not> win_device s)"
proof (induction segs)
  case (Cons s segs)
  have dots: "contains_str s ''..''" if t: "trim_cut {CHR ''.''} s = ''''" and l: "2 \<le> length s"
  proof -
    have "\<forall>c\<in>set s. c = CHR ''.''"
      using t unfolding trim_cut_Nil by simp
    moreover obtain x s1 where s1: "s = x # s1" using l by (cases s) auto
    moreover obtain y r where "s1 = y # r" using l s1 by (cases s1) auto
    ultimately have "s = CHR ''.'' # CHR ''.'' # r" by simp
    then show ?thesis by (simp add: has_prefix_def)
  qed
  show ?case using Cons dots by (auto simp: contains_iff) 
qed simp

section \<open>Symbolic links are checked up to the root\<close>

lemma lstat_retry_result:
  assumes "lstat_retry n p w = (w', r)" "honest w"
  shows "ticked w w' \<and>
    (case r of
       Inr nd \<Rightarrow> \<exists>q. resolve w False p = Inr q \<and> node_at (nodes w) q = Some nd
     | Inl e \<Rightarrow> e = ENOENT \<longrightarrow> resolve w False p = Inl ENOENT \<or>
         (\<exists>q. resolve w False p = Inr q \<and> node_at (nodes w) q = None))"
  using assms
proof (induction n p w rule: lstat_retry.induct)
  case (1 p w)
  then show ?case by auto
next
  case (2 n p w)
  obtain w1 r1 where st: "os_lstat p w = (w1, r1)" by force
  have tk: "ticked w w1" using os_stat_gen_ticked [OF st] .
  show ?case
  proof (cases r1)
    case (Inr nd)
    then show ?thesis using st 2(2) tk os_stat_gen_ok [of False p w w1 nd] by auto
  next
    case (Inl e)
    show ?thesis
    proof (cases "e = ENOENT \<or> n = 0")
      case True
      then show ?thesis using st 2(2,3) tk Inl os_stat_gen_enoent [of False p w w1] by auto
    next
      case False
      then have "lstat_retry n p w1 = (w', r)" using st 2(2) Inl by simp
      then show ?thesis
        using 2(1) [OF st [symmetric] Inl False _ honest_ticked [OF 2(3) tk]] tk
          resolve_ticked [OF tk] ticked_fields [OF tk] ticked_trans [OF tk]
        by (auto split: sum.splits)
    qed
  qed
qed

text \<open>
  What the check establishes for one path: if its last component is a symbolic link, its target is
  an existing node under the root.
\<close>

definition link_ok :: "tree \<Rightarrow> string list \<Rightarrow> string list \<Rightarrow> bool" where
  "link_ok t r ds \<longleftrightarrow>
     (\<forall>m q. walk kernel_links t False [] ds = Inr (m, q) \<longrightarrow> is_link (node_at t q) \<longrightarrow>
       (\<exists>m' q'. walk eval_links t True [] ds = Inr (m', q') \<and> prefix r q'))"

lemma check_link_ok:
  assumes "check_link (abs_path r) (abs_path ds) w = (w', None)" "honest w" "proper r" "proper ds"
  shows "ticked w w' \<and> link_ok (nodes w) r ds"
proof -
  obtain w1 rs where ls: "lstat_retry 5 (abs_path ds) w = (w1, rs)" by force
  note lr = lstat_retry_result [OF ls assms(2)]
  have res: "resolve w False (abs_path ds) = map_sum id snd (walk kernel_links (nodes w) False [] ds)"
    using assms(4) by (simp add: resolve_def)
  show ?thesis
  proof (cases rs)
    case (Inl e)
    then have "w' = w1" "e = ENOENT" using assms(1) ls by (auto simp: check_link_def split: if_splits)
    then have "resolve w False (abs_path ds) = Inl ENOENT \<or>
        (\<exists>q. resolve w False (abs_path ds) = Inr q \<and> node_at (nodes w) q = None)"
      using lr Inl by auto
    then have "link_ok (nodes w) r ds"
      unfolding res link_ok_def by (cases "walk kernel_links (nodes w) False [] ds") auto
    then show ?thesis using lr \<open>w' = w1\<close> by simp
  next
    case (Inr nd)
    then obtain q where q: "resolve w False (abs_path ds) = Inr q" "node_at (nodes w) q = Some nd"
      using lr by auto
    show ?thesis
    proof (cases "is_link (Some nd)")
      case False
      then have "w' = w1" using assms(1) ls Inr by (auto simp: check_link_def)
      moreover have "link_ok (nodes w) r ds"
        using q False unfolding res link_ok_def
        by (cases "walk kernel_links (nodes w) False [] ds") auto
      ultimately show ?thesis using lr by simp
    next
      case True
      obtain w2 es where ev: "os_eval_symlinks (abs_path ds) w1 = (w2, es)" by force
      have w': "w' = w2" using assms(1) ls Inr True ev by (auto simp: check_link_def split: sum.splits)
      obtain s where s: "es = Inr s" using assms(1) ls Inr True ev
        by (auto simp: check_link_def split: sum.splits)
      obtain m q' where e: "walk eval_links (nodes w) True [] ds = Inr (m, q')" "s = abs_path q'"
        using os_eval_ok [OF ev [unfolded s]] assms(4) lr ticked_fields [of w w1] by auto
      have pq: "proper q'" by (rule walk_proper [OF e(1)]) (use assms(4) in \<open>auto dest: proper_no_slash\<close>)
      obtain rel where "path_rel (abs_path r) (path_clean s) = Some rel" "\<not> rel_escapes rel"
        using assms(1) ls Inr True ev s by (auto simp: check_link_def split: option.splits if_splits)
      then have "prefix r q'" using path_rel_escapes [OF assms(3) pq] e(2) pq by auto
      then have "link_ok (nodes w) r ds" using e(1) by (auto simp: link_ok_def)
      moreover have "ticked w w2" using lr os_eval_ticked [OF ev] ticked_trans by blast
      ultimately show ?thesis using w' by simp
    qed
  qed
qed

lemma length_abs_path_snoc: "proper_comp c \<Longrightarrow> length (abs_path xs) < length (abs_path (xs @ [c]))"
  by (cases "xs = []") (auto simp: abs_path_def join_with_append proper_comp_def)

lemma length_abs_path_append: "proper cs \<Longrightarrow> length (abs_path r) + length cs \<le> length (abs_path (r @ cs))"
proof (induction cs rule: rev_induct)
  case (snoc c cs)
  then show ?case using length_abs_path_snoc [of c "r @ cs"] by simp
qed simp

lemma abs_path_snoc_neq: "proper_comp c \<Longrightarrow> abs_path xs \<noteq> abs_path (xs @ [c])"
  using length_abs_path_snoc [of c xs] by auto

text \<open>One turn of the loop: below the root it moves to the parent, at the root it stops.\<close>

lemma verify_loop_snoc:
  assumes "proper r" "proper (cs @ [c])"
  shows "verify_loop (Suc n) (abs_path r) (abs_path (r @ cs @ [c])) w =
    (case check_link (abs_path r) (abs_path (r @ cs @ [c])) w of
       (w1, Some e) \<Rightarrow> (w1, Some e)
     | (w1, None) \<Rightarrow> verify_loop n (abs_path r) (abs_path (r @ cs)) w1)"
proof -
  have "path_dir (abs_path ((r @ cs) @ [c])) = abs_path (r @ cs)"
    by (rule path_dir_abs) (use assms in simp)
  moreover have "abs_path (r @ cs) \<noteq> abs_path ((r @ cs) @ [c])"
    by (rule abs_path_snoc_neq) (use assms in simp)
  moreover have "\<not> length (abs_path (r @ cs)) < length (abs_path r)"
    using length_abs_path_append [of cs r] assms(2) by simp
  ultimately show ?thesis by (simp split: option.splits)
qed

lemma verify_loop_root:
  assumes "proper r"
  shows "verify_loop (Suc n) (abs_path r) (abs_path r) w = check_link (abs_path r) (abs_path r) w"
proof (cases r rule: rev_cases)
  case Nil
  then show ?thesis by (simp split: prod.splits option.splits)
next
  case (snoc r' c)
  have "path_dir (abs_path r) = abs_path r'" using path_dir_abs [of r' c] assms snoc by simp
  moreover have "length (abs_path r') < length (abs_path r)"
    using length_abs_path_snoc [of c r'] assms snoc by simp
  ultimately show ?thesis by (simp split: prod.splits option.splits)
qed

lemma verify_loop_err:
  assumes "proper r" "proper cs" "length cs < n"
    and "verify_loop n (abs_path r) (abs_path (r @ cs)) w = (w', Some e)"
  shows "err_is e ErrInvalidPath"
  using assms(2-4)
proof (induction cs arbitrary: n w rule: rev_induct)
  case Nil
  then show ?case using verify_loop_root [OF assms(1)] by (cases n) (auto intro: check_link_err)
next
  case (snoc c cs)
  obtain m where n: "n = Suc m" "length cs < m" using snoc.prems by (cases n) auto
  show ?case
    using snoc.IH [of m] snoc.prems n verify_loop_snoc [OF assms(1) snoc.prems(1), of m w]
    by (auto split: prod.splits option.splits intro: check_link_err)
qed

lemma verify_loop_ok:
  assumes "proper r" "proper cs" "length cs < n" "honest w"
    and "verify_loop n (abs_path r) (abs_path (r @ cs)) w = (w', None)"
  shows "ticked w w' \<and> (\<forall>k \<le> length cs. link_ok (nodes w) r (r @ take k cs))"
  using assms(2-5)
proof (induction cs arbitrary: n w rule: rev_induct)
  case Nil
  then show ?case using verify_loop_root [OF assms(1)] check_link_ok [of r r w w'] assms(1)
    by (cases n) auto
next
  case (snoc c cs)
  obtain m where n: "n = Suc m" "length cs < m" using snoc.prems by (cases n) auto
  obtain w1 where w1: "check_link (abs_path r) (abs_path (r @ cs @ [c])) w = (w1, None)"
    "verify_loop m (abs_path r) (abs_path (r @ cs)) w1 = (w', None)"
    using snoc.prems n verify_loop_snoc [OF assms(1) snoc.prems(1), of m w]
    by (auto split: prod.splits option.splits)
  have c: "ticked w w1" "link_ok (nodes w) r (r @ cs @ [c])"
    using check_link_ok [OF w1(1) snoc.prems(3) assms(1)] assms(1) snoc.prems(1) by auto
  have "ticked w1 w' \<and> (\<forall>k \<le> length cs. link_ok (nodes w1) r (r @ take k cs))"
    using snoc.IH [OF _ n(2) honest_ticked [OF snoc.prems(3) c(1)] w1(2)] snoc.prems(1) by simp
  then show ?case using c ticked_fields [OF c(1)] ticked_trans [OF c(1)]
    by (auto simp: le_Suc_eq)
qed

section \<open>The form of a translated path\<close>

definition safe_comp :: "string \<Rightarrow> bool" where
  "safe_comp c \<longleftrightarrow> proper_comp c \<and> \<not> contains_str c ''..'' \<and> \<not> win_device c \<and>
     nul_char \<notin> set c \<and> CHR '':'' \<notin> set c \<and> CHR 0x5C \<notin> set c"

text \<open>The components of an accepted path, before the file system is looked at.\<close>

definition sanitized_comps :: "string \<Rightarrow> string list res" where
  "sanitized_comps p =
     (if nul_char \<in> set p then Err ErrInvalidPath
      else bind_res (decode_path p) (\<lambda>d.
        let normalized = slashed d in
        if CHR '':'' \<in> set normalized then Err ErrInvalidPath
        else if \<exists>s\<in>set (split_on (CHR ''/'') normalized). contains_str s ''..'' \<or> win_device s
        then Err ErrInvalidPath
        else Ok (clean_comps True (split_on (CHR ''/'') normalized))))"

lemma decode_path_ok:
  "decode_path p = Inr d \<Longrightarrow> nul_char \<notin> set p \<Longrightarrow> nul_char \<notin> set d"
  by (auto simp: decode_path_def split: if_splits option.splits)

lemma sanitized_comps_safe:
  assumes "sanitized_comps p = Inr cs"
  shows "list_all safe_comp cs"
proof -
  obtain d where d: "nul_char \<notin> set p" "decode_path p = Inr d" "CHR '':'' \<notin> set (slashed d)"
    "\<forall>s\<in>set (split_on (CHR ''/'') (slashed d)). \<not> contains_str s ''..'' \<and> \<not> win_device s"
    "cs = clean_comps True (split_on (CHR ''/'') (slashed d))"
    using assms by (auto simp: sanitized_comps_def Let_def result_simps split: if_splits)
  have pr: "proper cs" unfolding d(5) by (rule rooted_comps_proper)
  have nul: "nul_char \<notin> set (slashed d)"
    using decode_path_ok [OF d(2,1)] by (auto simp: replace_char_def)
  have bs: "CHR 0x5C \<notin> set (slashed d)" by (auto simp: replace_char_def)
  show ?thesis unfolding list_all_iff
  proof
    fix c assume c: "c \<in> set cs"
    then have sp: "c \<in> set (split_on (CHR ''/'') (slashed d))" using d(5) clean_comps_subset by blast
    have "proper_comp c" using pr c by (simp add: list_all_iff)
    moreover have "set c \<subseteq> set (slashed d)" using sp by (rule split_on_chars)
    ultimately show "safe_comp c" using d(3,4) nul bs sp unfolding safe_comp_def by blast
  qed
qed

text \<open>\<open>sanitize\<close> as the code writes it and its components agree.\<close>

lemma proper_no_traversal:
  assumes "proper cs"
  shows "\<not> contains_str (join_with ''/'' cs) ''/../''" and "join_with ''/'' cs \<noteq> ''.''"
    and "join_with ''/'' cs \<noteq> ''..''" and "\<not> has_prefix (join_with ''/'' cs) ''../''"
proof -
  show "\<not> contains_str (join_with ''/'' cs) ''/../''"
  proof
    assume "contains_str (join_with ''/'' cs) ''/../''"
    then obtain a b where ab: "join_with ''/'' cs = a @ ''/../'' @ b" by (auto simp: contains_iff)
    then have "cs \<noteq> []" by auto
    then have "cs = split_on (CHR ''/'') (a @ CHR ''/'' # (''..'' @ CHR ''/'' # b))"
      using assms ab by (metis append_Cons append_Nil proper_split)
    also have "\<dots> = split_on (CHR ''/'') a @ split_on (CHR ''/'') (''..'' @ CHR ''/'' # b)"
      by (rule split_on_append)
    finally have "''..'' \<in> set cs" by simp
    then show False using assms by (auto simp: list_all_iff proper_comp_def)
  qed
  show "join_with ''/'' cs \<noteq> ''.''"
  proof
    assume d: "join_with ''/'' cs = ''.''"
    then have "cs \<noteq> []" by auto
    then have "cs = [''.'']" using proper_split [OF assms] d by simp
    then show False using assms by (simp add: proper_comp_def)
  qed
  show "join_with ''/'' cs \<noteq> ''..''" "\<not> has_prefix (join_with ''/'' cs) ''../''"
    using join_first_not_dotdot [OF assms] by (auto simp: rel_escapes_def)
qed

lemma sanitize_accepts:
  assumes "sanitized_comps p = Inr cs" "proper r"
  shows "sanitize (abs_path r) p w =
    (case verify_symlink_confinement (abs_path r) (abs_path (r @ cs)) w of
       (w1, Some e) \<Rightarrow> (w1, Err e) | (w1, None) \<Rightarrow> (w1, Ok (abs_path (r @ cs))))"
proof -
  obtain d where d: "nul_char \<notin> set p" "decode_path p = Inr d" "CHR '':'' \<notin> set (slashed d)"
    "\<forall>s\<in>set (split_on (CHR ''/'') (slashed d)). \<not> contains_str s ''..'' \<and> \<not> win_device s"
    "cs = clean_comps True (split_on (CHR ''/'') (slashed d))"
    using assms by (auto simp: sanitized_comps_def Let_def result_simps split: if_splits)
  have pr: "proper cs" unfolding d(5) by (rule rooted_comps_proper)
  have cl: "path_clean (''/'' @ slashed d) = abs_path cs" using d(5) by (simp add: path_clean_slash)
  have ck: "check_segments (split_on (CHR ''/'') (slashed d)) = None"
    using d(4) by (simp add: check_segments_None)
  have jn: "path_clean (path_join [abs_path r, join_with ''/'' cs]) = abs_path (r @ cs)"
    using path_join_under [OF assms(2) pr] assms(2) pr by simp
  obtain rel where rel: "path_rel (abs_path r) (abs_path (r @ cs)) = Some rel" "\<not> rel_escapes rel"
    using path_rel_escapes [of r "r @ cs"] assms(2) pr by auto
  show ?thesis
    unfolding sanitize_def Let_def
    using d(1-3) ck cl jn rel proper_no_traversal [OF pr]
    by simp
qed

lemma sanitize_refuses:
  assumes "sanitized_comps p = Inl e"
  shows "\<exists>e'. sanitize root p w = (w, Err e') \<and> err_is e' ErrInvalidPath"
proof (cases "nul_char \<in> set p")
  case True
  then show ?thesis by (simp add: sanitize_def)
next
  case False
  show ?thesis
  proof (cases "decode_path p")
    case (Inl e1)
    then show ?thesis using False decode_path_err [OF Inl] by (simp add: sanitize_def)
  next
    case (Inr d)
    show ?thesis
    proof (cases "CHR '':'' \<in> set (slashed d)")
      case True
      then show ?thesis using False Inr by (simp add: sanitize_def)
    next
      case nc: False
      have "check_segments (split_on (CHR ''/'') (slashed d)) \<noteq> None"
        using assms False Inr nc
        by (auto simp: check_segments_None sanitized_comps_def Let_def split: if_splits)
      then obtain e2 where "check_segments (split_on (CHR ''/'') (slashed d)) = Some e2" by blast
      then show ?thesis using False Inr nc check_segments_err [of _ e2] by (simp add: sanitize_def)
    qed
  qed
qed

lemma sanitize_result:
  assumes "proper r" "sanitize (abs_path r) p w = (w', Inl e)"
  shows "err_is e ErrInvalidPath"
proof (cases "sanitized_comps p")
  case (Inl e1)
  then show ?thesis using sanitize_refuses [OF Inl, of "abs_path r" w] assms(2) by auto
next
  case (Inr cs)
  have pr: "proper cs" using sanitized_comps_safe [OF Inr] by (auto simp: list_all_iff safe_comp_def)
  have "verify_symlink_confinement (abs_path r) (abs_path (r @ cs)) w = (w', Some e)"
    using sanitize_accepts [OF Inr assms(1), of w] assms(2) by (auto split: prod.splits option.splits)
  then show ?thesis
    using verify_loop_err [OF assms(1) pr, of "Suc (length (abs_path (r @ cs)))" w w' e]
      length_abs_path_append [OF pr, of r]
    by (simp add: verify_symlink_confinement_def)
qed

lemma sanitize_ok:
  assumes "proper r" "sanitize (abs_path r) p w = (w', Inr full)"
  obtains cs where "sanitized_comps p = Inr cs" "full = abs_path (r @ cs)" "list_all safe_comp cs"
    "proper cs" "verify_symlink_confinement (abs_path r) (abs_path (r @ cs)) w = (w', None)"
proof (cases "sanitized_comps p")
  case (Inl e1)
  then show ?thesis using sanitize_refuses [OF Inl, of "abs_path r" w] assms(2) by auto
next
  case (Inr cs)
  have "list_all safe_comp cs" by (rule sanitized_comps_safe [OF Inr])
  moreover have "proper cs" using calculation by (auto simp: list_all_iff safe_comp_def)
  ultimately show ?thesis using that sanitize_accepts [OF Inr assms(1), of w] assms(2) Inr
    by (auto split: prod.splits option.splits)
qed

section \<open>Confinement\<close>

text \<open>One more component below a directory inside the root, when its link, if it is one, is safe.\<close>

lemma walk_step_confined:
  assumes "walk kernel_links t True [] ds = Inr (m, q)" "prefix r q" "proper ds" "proper_comp c"
    and "link_ok t r (ds @ [c])" "walk kernel_links t fol [] (ds @ [c]) = Inr z"
  shows "prefix r (snd z)"
proof -
  have "[c] \<noteq> []" by simp
  from walk_append [OF assms(6) this] obtain m0 q0 where
    w0: "walk kernel_links t True [] ds = Inr (m0, q0)"
    and w1: "\<And>fol' ys'. ys' \<noteq> [] \<Longrightarrow> walk kernel_links t fol' [] (ds @ ys') = walk m0 t fol' q0 ys'"
    by blast
  have mq: "m0 = m" "q0 = q" using w0 assms(1) by auto
  have st: "walk kernel_links t fol [] (ds @ [c]) = walk m t fol q [c]" using w1 [of "[c]" fol] mq by simp
  show ?thesis
  proof (cases "is_link (map_of t (q @ [c])) \<and> fol")
    case False
    then show ?thesis using st assms(2,4,6) 
      by (auto simp: proper_comp_def split: option.splits node.splits if_splits)
  next
    case True
    then obtain s mt where lk: "map_of t (q @ [c]) = Some (Link s mt)" by (metis is_link.elims(2))
    have "walk kernel_links t False [] (ds @ [c]) = Inr (m, q @ [c])"
      using w1 [of "[c]" False] mq lk assms(4) by (simp add: proper_comp_def)
    then obtain m' q' where e: "walk eval_links t True [] (ds @ [c]) = Inr (m', q')" "prefix r q'"
      using assms(5) lk unfolding link_ok_def by (fastforce simp: node_at_def)
    have "walk kernel_links t True [] (ds @ [c]) = Inr (fst z, snd z)" using True assms(6) by simp
    from walk_more_links [OF this, of 215] have "snd z = q'"
      using e(1) by (simp add: kernel_links_def eval_links_def)
    then show ?thesis using e(2) by simp
  qed
qed

lemma walk_confined:
  assumes "real_dir t r" "proper cs" "\<And>k. k \<le> length cs \<Longrightarrow> link_ok t r (r @ take k cs)"
    and "walk kernel_links t fol [] (r @ cs) = Inr z"
  shows "prefix r (snd z)"
  using assms(2-4)
proof (induction cs arbitrary: fol z rule: rev_induct)
  case Nil
  then show ?case using walk_real_dir [OF assms(1), of kernel_links fol "[]"] by auto
next
  case (snoc c cs)
  have "[c] \<noteq> []" by simp
  then obtain m q where w0: "walk kernel_links t True [] (r @ cs) = Inr (m, q)"
    using walk_append [of kernel_links t fol "[]" "r @ cs" "[c]" z] snoc.prems(3) by fastforce
  have lk: "link_ok t r (r @ take k cs)" if "k \<le> length cs" for k
    using snoc.prems(2) [of k] that by simp
  have "prefix r q" using snoc.IH [OF _ lk w0] snoc.prems(1) by simp
  moreover have "link_ok t r ((r @ cs) @ [c])" using snoc.prems(2) [of "Suc (length cs)"] by simp
  ultimately show ?case
    using walk_step_confined [OF w0, of r c fol z] snoc.prems(1,3) assms(1) by (simp add: real_dir_def)
qed

lemma confined:
  assumes "honest w" "real_dir (nodes w) r" "sanitize (abs_path r) p w = (w', Inr full)"
    and "resolve w fol full = Inr q"
  shows "prefix r q"
proof -
  have pr: "proper r" using assms(2) by (simp add: real_dir_def)
  from pr assms(3) obtain cs where cs: "full = abs_path (r @ cs)" "proper cs"
    and v: "verify_symlink_confinement (abs_path r) (abs_path (r @ cs)) w = (w', None)"
    by (rule sanitize_ok) blast
  have "\<forall>k \<le> length cs. link_ok (nodes w) r (r @ take k cs)"
    using verify_loop_ok [OF pr cs(2) _ assms(1), of "Suc (length (abs_path (r @ cs)))" w'] v
      length_abs_path_append [OF cs(2), of r]
    by (simp add: verify_symlink_confinement_def)
  moreover obtain m where "walk kernel_links (nodes w) fol [] (r @ cs) = Inr (m, q)"
    using assms(4) cs pr
    by (cases "walk kernel_links (nodes w) fol [] (r @ cs)") (auto simp: resolve_def)
  ultimately show ?thesis using walk_confined [OF assms(2) cs(2), of fol "(m, q)"] by simp
qed

section \<open>Paths without symbolic links\<close>

text \<open>
  When nothing fails and no link lies on the way, the sanitizer accepts exactly the paths that
  \<open>sanitized_comps\<close> accepts.
\<close>

lemma check_link_plain:
  assumes "no_faults w" "resolve w False cur = Inl ENOENT \<or> (\<exists>q. resolve w False cur = Inr q \<and> \<not> is_link (node_at (nodes w) q))"
  shows "\<exists>w'. check_link root cur w = (w', None) \<and> ticked w w'"
proof -
  let ?w1 = "w\<lparr>ticks := Suc (ticks w)\<rparr>"
  have r1: "resolve ?w1 False cur = resolve w False cur" by (simp add: resolve_ticked [OF ticked_tick])
  have "(\<exists>nd. os_lstat cur w = (?w1, Inr nd) \<and> \<not> is_link (Some nd)) \<or> os_lstat cur w = (?w1, Inl ENOENT)"
    using assms r1
    by (auto simp: os_stat_gen_def with_path_def sys_def no_faults_def Let_def split: option.splits)
  then show ?thesis
  proof
    assume "\<exists>nd. os_lstat cur w = (?w1, Inr nd) \<and> \<not> is_link (Some nd)"
    then obtain nd where "os_lstat cur w = (?w1, Inr nd)" "\<not> is_link (Some nd)" by blast
    then show ?thesis by (simp add: check_link_def eval_nat_numeral)
  next
    assume "os_lstat cur w = (?w1, Inl ENOENT)"
    then show ?thesis by (simp add: check_link_def eval_nat_numeral)
  qed
qed

lemma verify_loop_plain:
  assumes "proper r" "proper cs" "length cs < n" "no_faults w"
    and "\<And>k. k \<le> length cs \<Longrightarrow>
      resolve w False (abs_path (r @ take k cs)) = Inl ENOENT \<or>
      (\<exists>q. resolve w False (abs_path (r @ take k cs)) = Inr q \<and> \<not> is_link (node_at (nodes w) q))"
  shows "\<exists>w'. verify_loop n (abs_path r) (abs_path (r @ cs)) w = (w', None) \<and> ticked w w'"
  using assms(2-5)
proof (induction cs arbitrary: n w rule: rev_induct)
  case Nil
  then show ?case
    using check_link_plain [of w "abs_path r" "abs_path r"] verify_loop_root [OF assms(1)] by (cases n) auto
next
  case (snoc c cs)
  obtain m where n: "n = Suc m" "length cs < m" using snoc.prems by (cases n) auto
  obtain w1 where w1: "check_link (abs_path r) (abs_path (r @ cs @ [c])) w = (w1, None)" "ticked w w1"
    using check_link_plain [OF snoc.prems(3), of "abs_path (r @ cs @ [c])"] snoc.prems(4) [of "Suc (length cs)"]
    by auto
  note tf = ticked_fields [OF w1(2)] and rt = resolve_ticked [OF w1(2)]
  have "\<exists>w'. verify_loop m (abs_path r) (abs_path (r @ cs)) w1 = (w', None) \<and> ticked w1 w'"
  proof (rule snoc.IH)
    show "no_faults w1" using snoc.prems(3) tf by (simp add: no_faults_def)
    fix k assume "k \<le> length cs"
    then show "resolve w1 False (abs_path (r @ take k cs)) = Inl ENOENT \<or>
      (\<exists>q. resolve w1 False (abs_path (r @ take k cs)) = Inr q \<and> \<not> is_link (node_at (nodes w1) q))"
      using snoc.prems(4) [of k] tf by (simp add: rt)
  qed (use snoc.prems n in auto)
  then show ?case
    using w1 n verify_loop_snoc [OF assms(1) snoc.prems(1), of m w] ticked_trans by fastforce
qed

lemma sanitize_plain:
  assumes "sanitized_comps p = Inr cs" "proper r" "no_faults w"
    and "\<And>k. k \<le> length cs \<Longrightarrow>
      resolve w False (abs_path (r @ take k cs)) = Inl ENOENT \<or>
      (\<exists>q. resolve w False (abs_path (r @ take k cs)) = Inr q \<and> \<not> is_link (node_at (nodes w) q))"
  shows "\<exists>w'. sanitize (abs_path r) p w = (w', Ok (abs_path (r @ cs))) \<and> ticked w w'"
proof -
  have pr: "proper cs" using sanitized_comps_safe [OF assms(1)] by (auto simp: list_all_iff safe_comp_def)
  then obtain w' where "verify_symlink_confinement (abs_path r) (abs_path (r @ cs)) w = (w', None)" "ticked w w'"
    using verify_loop_plain [OF assms(2) pr _ assms(3,4), of "Suc (length (abs_path (r @ cs)))"]
      length_abs_path_append [OF pr, of r]
    by (auto simp: verify_symlink_confinement_def)
  then show ?thesis using sanitize_accepts [OF assms(1,2), of w] by simp
qed

text \<open>What decoding and splitting keep.\<close>

lemma hex_val_dot: "hex_val (CHR ''.'') = None" "hex_val (CHR '':'') = None"
  by code_simp+

text \<open>Decoding splits at a character that is no part of an escape.\<close>

lemma path_unescape_split:
  assumes "path_unescape (x @ c # y) = Some d" "hex_val c = None" "c \<noteq> CHR ''%''"
  shows "\<exists>u v. path_unescape x = Some u \<and> path_unescape y = Some v \<and> d = u @ c # v"
  using assms(1)
proof (induction x arbitrary: d rule: path_unescape.induct)
  case 1
  then show ?case using assms(3) by auto
next
  case (2 e s)
  show ?case
  proof (cases "e = CHR ''%''")
    case False
    then obtain d' where "path_unescape (s @ c # y) = Some d'" "d = e # d'" using 2(3) by auto
    then show ?thesis using 2(2) [OF False, of d'] False by auto
  next
    case True
    show ?thesis
    proof (cases s)
      case Nil
      then show ?thesis using 2(3) True assms(2) by (auto split: list.splits)
    next
      case (Cons a s1)
      show ?thesis
      proof (cases s1)
        case Nil
        then show ?thesis using 2(3) True assms(2) Cons by (auto split: option.splits)
      next
        case s1: (Cons b s2)
        obtain m n where mn: "hex_val a = Some m" "hex_val b = Some n"
          using 2(3) True Cons s1 by (auto split: option.splits)
        obtain d' where d': "path_unescape (s2 @ c # y) = Some d'" "d = char_of (16 * m + n) # d'"
          using 2(3) True Cons s1 mn by auto
        then show ?thesis using 2(1) [OF True Cons s1 refl mn, of d'] True Cons s1 mn by auto
      qed
    qed
  qed
qed

lemma decode_path_keeps:
  assumes "decode_path p = Inr d"
  shows "CHR '':'' \<in> set p \<Longrightarrow> CHR '':'' \<in> set d" "contains_str p ''..'' \<Longrightarrow> contains_str d ''..''"
proof -
  have d: "d = p \<or> path_unescape p = Some d"
    using assms by (auto simp: decode_path_def split: if_splits option.splits)
  show "CHR '':'' \<in> set d" if "CHR '':'' \<in> set p"
  proof -
    from that obtain x y where "p = x @ CHR '':'' # y" by (auto simp: in_set_conv_decomp)
    then show ?thesis using d path_unescape_split [of x "CHR '':''" y d] hex_val_dot(2) by auto
  qed
  show "contains_str d ''..''" if "contains_str p ''..''"
  proof -
    from that obtain x y where p: "p = x @ CHR ''.'' # CHR ''.'' # y" by (auto simp: contains_iff)
    show ?thesis
    proof (cases "d = p")
      case False
      then have u: "path_unescape (x @ CHR ''.'' # (CHR ''.'' # y)) = Some d" using d p by simp
      have pc: "CHR ''.'' \<noteq> CHR ''%''" by simp
      obtain u v where 1: "path_unescape (CHR ''.'' # y) = Some v" "d = u @ CHR ''.'' # v"
        using path_unescape_split [OF u hex_val_dot(1) pc] by blast
      then obtain v' where "v = CHR ''.'' # v'" by auto
      then have "d = u @ ''..'' @ v'" using 1 by simp
      then show ?thesis unfolding contains_iff by blast
    qed (use that in simp)
  qed
qed

lemma slashed_dots: "contains_str d ''..'' \<Longrightarrow> contains_str (slashed d) ''..''"
  by (fastforce simp: contains_iff replace_char_def)

lemma split_on_dots: "contains_str s ''..'' \<Longrightarrow> \<exists>w\<in>set (split_on (CHR ''/'') s). contains_str w ''..''"
proof (induction s)
  case (Cons c s)
  show ?case
  proof (cases "has_prefix (c # s) ''..''")
    case True
    then obtain y where "c # s = ''..'' @ y" by (auto simp: has_prefix_iff)
    then show ?thesis by (auto simp: has_prefix_def split: list.splits)
  next
    case False
    then obtain w where "w \<in> set (split_on (CHR ''/'') s)" "contains_str w ''..''" using Cons by auto
    then show ?thesis by (cases "split_on (CHR ''/'') s") auto
  qed
qed (simp add: has_prefix_def)

section \<open>Properties\<close>

text \<open>C1: Confinement.  When the root is a directory reached without links and the environment
  never pretends that a node is missing, every path the sanitizer accepts is resolved by the kernel
  to a node inside the root, whatever symbolic links the tree holds and whether the last link is
  followed or not.\<close>

theorem sanitize_confined:
  assumes "honest w" "real_dir (nodes w) r" "snd (sanitize (abs_path r) p w) = Inr full"
    and "resolve w fol full = Inr q"
  shows "prefix r q"
  using confined [OF assms(1,2) prod_eqI assms(4)] assms(3) by fastforce

lemma sanitize_confined_witness:
  "prefix [''srv''] [''srv'', ''a'', ''f'']"
  by (rule sanitize_confined [where p = "''in/f''", OF demo_fs_honest demo_fs_real_dir _ _])
    (code_simp, code_simp)

text \<open>C32: Shape of an accepted path.  It is the root followed by components that the sanitizer
  has examined: none is empty, a dot or double dot or contains one, a separator, a backslash, a
  colon, a null byte, or is a reserved device name.\<close>

theorem sanitize_form:
  assumes "proper r" "snd (sanitize (abs_path r) p w) = Inr full"
  shows "\<exists>cs. sanitized_comps p = Inr cs \<and> full = abs_path (r @ cs) \<and> list_all safe_comp cs"
proof -
  have "sanitize (abs_path r) p w = (fst (sanitize (abs_path r) p w), Inr full)"
    using assms(2) by (simp add: prod_eq_iff)
  from assms(1) this show ?thesis by (rule sanitize_ok) blast
qed

lemma sanitize_form_witness:
  "\<exists>cs. sanitized_comps ''in/./f'' = Inr cs \<and> ''/srv/in/f'' = abs_path ([''srv''] @ cs) \<and> list_all safe_comp cs"
  by (rule sanitize_form [where w = demo_fs]) (code_simp, code_simp)

text \<open>C33: Every refusal, of whatever cause (the text of the path, a failing system call, a link that
  leaves the root), is reported as an invalid path.\<close>

theorem sanitize_error:
  assumes "proper r" "snd (sanitize (abs_path r) p w) = Inl e"
  shows "err_is e ErrInvalidPath"
  using sanitize_result [OF assms(1), of p w _ e] assms(2) by (metis prod.collapse)

lemma sanitize_error_witness:
  "err_is (errorf_ww ErrInvalidPath ''symlink targets location outside root'' ErrPathTraversal) ErrInvalidPath"
  by (rule sanitize_error [where w = demo_fs and r = "[''srv'']" and p = "''out/f''"]) (code_simp, code_simp)

text \<open>A path that contains a null byte, a colon or two consecutive dots is refused in every world,
  before the file system is asked anything.\<close>

theorem sanitize_rejects:
  assumes "CHR 0x00 \<in> set p \<or> CHR '':'' \<in> set p \<or> contains_str p ''..''"
  shows "\<exists>e. sanitize root p w = (w, Err e) \<and> err_is e ErrInvalidPath"
proof (cases "sanitized_comps p")
  case (Inl e)
  then show ?thesis by (rule sanitize_refuses)
next
  case (Inr cs)
  then obtain d where d: "nul_char \<notin> set p" "decode_path p = Inr d" "CHR '':'' \<notin> set (slashed d)"
    "\<forall>s\<in>set (split_on (CHR ''/'') (slashed d)). \<not> contains_str s ''..''"
    by (auto simp: sanitized_comps_def Let_def result_simps split: if_splits)
  have "CHR '':'' \<in> set p \<Longrightarrow> CHR '':'' \<in> set d" "contains_str p ''..'' \<Longrightarrow> contains_str d ''..''"
    using decode_path_keeps [OF d(2)] by simp_all
  then have "contains_str d ''..''" using assms d(1,3) by (auto simp: replace_char_def)
  then have "contains_str (slashed d) ''..''" by (rule slashed_dots)
  then show ?thesis using split_on_dots d(4) by blast
qed

lemma sanitize_rejects_witness: "\<exists>e. sanitize ''/srv'' ''a/../../etc'' demo_fs = (demo_fs, Err e) \<and> err_is e ErrInvalidPath"
  by (rule sanitize_rejects) code_simp

end
