(* ===== verification/Local_Driver.thy ===== *)
theory Local_Driver
  imports Storage_Driver Path_Sanitizer
begin

text \<open>
  \<^verbatim>\<open>pkg/storage/local/local.go\<close>: the driver over a directory of the host file system.  Its
  state is the canonical root, so every operation takes the root and runs in the file system of
  \<^verbatim>\<open>Go_OS\<close>, where each system call may fail.  On a tree without symbolic links and without
  failures it satisfies the contract of \<open>object_store\<close> (interpretation \<open>local_fs\<close> at the end).
\<close>

section \<open>Operations\<close>

definition local_new :: "string \<Rightarrow> fs \<Rightarrow> fs \<times> string res" where
  "local_new root_dir w =
     (case new_path_sanitizer root_dir w of
        (w1, Inl e) \<Rightarrow> (w1, Err (errorf_w ''local driver init failed'' e))
      | (w1, Inr root) \<Rightarrow>
          (case os_mkdir_all root 488 w1 of
             (w2, Inl n) \<Rightarrow> (w2, Err (errorf_w (''failed to create root dir '' @ go_quote root) (os_err ''mkdir'' root n)))
           | (w2, Inr _) \<Rightarrow> (w2, Ok root)))"

text \<open>How \<^verbatim>\<open>Read\<close> and \<^verbatim>\<open>Stat\<close> name the error of a system call.\<close>

definition local_io_error :: "string \<Rightarrow> string \<Rightarrow> go_error \<Rightarrow> go_error" where
  "local_io_error oper p e =
     (if os_is_not_exist e then storage_error oper ''local'' p ErrNotFound
      else if os_is_permission e then storage_error oper ''local'' p ErrPermissionDenied
      else storage_error oper ''local'' p e)"

definition local_read :: "string \<Rightarrow> ctx \<Rightarrow> string \<Rightarrow> fs \<Rightarrow> fs \<times> reader res" where
  "local_read root cx p w =
     (case cx 0 of
        Some e \<Rightarrow> (w, Err e)
      | None \<Rightarrow>
          (case sanitize root p w of
             (w1, Inl e) \<Rightarrow> (w1, Err (storage_error ''read'' ''local'' p e))
           | (w1, Inr full) \<Rightarrow>
               (case os_open full w1 of
                  (w2, Inl n) \<Rightarrow> (w2, Err (local_io_error ''read'' p (os_err ''open'' full n)))
                | (w2, Inr (d, eo)) \<Rightarrow>
                    (w2, Ok \<lparr>rd_data = d, rd_err = map_option (os_err ''read'' full) eo\<rparr>))))"

text \<open>The deferred cleanup of a failed write.\<close>

definition abandon :: "bool \<Rightarrow> string list \<Rightarrow> string \<Rightarrow> fs \<Rightarrow> fs" where
  "abandon closed q tmp w =
     fst (os_remove tmp (if closed then w else fst (os_close q w)))"

text \<open>
  The rename with its retries: after a failed attempt the target is removed.  The result is the
  last error.
\<close>

fun rename_retry :: "nat \<Rightarrow> string \<Rightarrow> string \<Rightarrow> fs \<Rightarrow> fs \<times> errno option" where
  "rename_retry 0 tmp full w = (w, None)"
| "rename_retry (Suc n) tmp full w =
     (case os_rename tmp full w of
        (w1, Inr _) \<Rightarrow> (w1, None)
      | (w1, Inl e) \<Rightarrow>
          (let w2 = fst (os_remove full w1)
           in if n = 0 then (w2, Some e) else rename_retry n tmp full w2))"

definition temp_path :: "string \<Rightarrow> bytes \<Rightarrow> string" where
  "temp_path full rnd = full @ ''.tmp.'' @ hex_encode rnd"

text \<open>
  Steps 3 to 7: fill the temporary file and move it to its place.  \<open>r\<close> is the source after the
  limit for a known size.
\<close>

definition commit_temp :: "string \<Rightarrow> string \<Rightarrow> string \<Rightarrow> reader \<Rightarrow> int \<Rightarrow> fs \<Rightarrow> fs \<times> unit res" where
  "commit_temp p full tmp r sz w =
     (let fail = (\<lambda>e. Err (storage_error ''write'' ''local'' p e) :: unit res) in
      case os_create tmp 384 w of
        (w1, Inl n) \<Rightarrow> (w1, fail (errorf_w ''failed to create temp file'' (os_err ''open'' tmp n)))
      | (w1, Inr q) \<Rightarrow>
          (case os_copy q (rd_data r) w1 of
             (w2, Inl n) \<Rightarrow>
               (abandon False q tmp w2, fail (errorf_w ''streaming write failed'' (os_err ''write'' tmp n)))
           | (w2, Inr _) \<Rightarrow>
               (case rd_err r of
                  Some e \<Rightarrow> (abandon False q tmp w2, fail (errorf_w ''streaming write failed'' e))
                | None \<Rightarrow>
                    if 0 \<le> sz \<and> int (length (rd_data r)) < sz
                    then (abandon False q tmp w2,
                          fail (ErrText (''unexpected EOF: wrote '' @ int_text (int (length (rd_data r)))
                                         @ '' of '' @ int_text sz @ '' bytes'')))
                    else
                      (case os_sync q w2 of
                         (w3, Inl n) \<Rightarrow>
                           (abandon False q tmp w3, fail (errorf_w ''failed to sync temp file'' (os_err ''sync'' tmp n)))
                       | (w3, Inr _) \<Rightarrow>
                           (case os_close q w3 of
                              (w4, Inl n) \<Rightarrow>
                                (abandon True q tmp w4,
                                 fail (errorf_w ''failed to close temp file'' (os_err ''close'' tmp n)))
                            | (w4, Inr _) \<Rightarrow>
                                (case rename_retry 20 tmp full w4 of
                                   (w5, Some n) \<Rightarrow>
                                     (abandon True q tmp w5,
                                      fail (errorf_w ''atomic rename failed'' (os_err ''rename'' tmp n)))
                                 | (w5, None) \<Rightarrow> (w5, Ok ())))))))"

definition local_write_with_options ::
  "string \<Rightarrow> ctx \<Rightarrow> string \<Rightarrow> reader \<Rightarrow> int \<Rightarrow> write_option list \<Rightarrow> fs \<Rightarrow> fs \<times> unit res" where
  "local_write_with_options root cx p r sz opts w =
     (let fail = (\<lambda>e. Err (storage_error ''write'' ''local'' p e) :: unit res) in
      case cx 0 of
        Some e \<Rightarrow> (w, Err e)
      | None \<Rightarrow>
          (case sanitize root p w of
             (w1, Inl e) \<Rightarrow> (w1, fail e)
           | (w1, Inr full) \<Rightarrow>
               (let (w2, exists) =
                      (if wo_overwrite (apply_options opts) then (w1, False)
                       else (case os_stat full w1 of (v, Inl _) \<Rightarrow> (v, False) | (v, Inr _) \<Rightarrow> (v, True)))
                in if exists then (w2, fail ErrAlreadyExists)
                   else (case os_mkdir_all (path_dir full) 488 w2 of
                       (w3, Inl n) \<Rightarrow>
                         (w3, fail (errorf_w ''failed to create parent dir'' (os_err ''mkdir'' (path_dir full) n)))
                     | (w3, Inr _) \<Rightarrow>
                         (case os_rand 8 w3 of
                            (w4, Inl n) \<Rightarrow>
                              (w4, fail (errorf_w ''failed to generate random suffix'' (os_err ''rand'' '''' n)))
                          | (w4, Inr rnd) \<Rightarrow>
                              commit_temp p full (temp_path full rnd)
                                (if 0 \<le> sz then limit_reader sz r else r) sz w4)))))"

definition local_write :: "string \<Rightarrow> ctx \<Rightarrow> string \<Rightarrow> reader \<Rightarrow> int \<Rightarrow> fs \<Rightarrow> fs \<times> unit res" where
  "local_write root cx p r sz w = local_write_with_options root cx p r sz [] w"

text \<open>
  The callback of the directory walk.  Its state is the number of context checks made and the
  results so far.
\<close>

definition list_prefix :: "string \<Rightarrow> string" where
  "list_prefix p =
     (let c = trim_prefix (path_clean (''/'' @ p)) ''/'' in if c = ''.'' then '''' else c)"

definition list_visit :: "string \<Rightarrow> ctx \<Rightarrow> list_options \<Rightarrow>
    string \<Rightarrow> node \<Rightarrow> go_error option \<Rightarrow> fs \<times> nat \<times> object_info list
      \<Rightarrow> (fs \<times> nat \<times> object_info list) \<times> verdict" where
  "list_visit root cx lo path entry walk_err = (\<lambda>(w, i, acc).
     let pre = list_prefix (lo_prefix lo); isdir = is_dir (Some entry) in
     case walk_err of
       Some e \<Rightarrow> ((w, i, acc), Stop e)
     | None \<Rightarrow>
         (case cx i of
            Some e \<Rightarrow> ((w, Suc i, acc), Stop e)
          | None \<Rightarrow>
              (case path_rel root path of
                 None \<Rightarrow> ((w, Suc i, acc), Stop (ErrText ''Rel: can't make path relative''))
               | Some rel \<Rightarrow>
                   if rel = ''.'' then ((w, Suc i, acc), Go)
                   else if pre \<noteq> '''' \<and> \<not> has_prefix rel pre \<and> \<not> has_prefix pre rel
                     then ((w, Suc i, acc), if isdir then Skip else Go)
                   else (case os_lstat path w of
                       (w1, Inl n) \<Rightarrow> ((w1, Suc i, acc), Go)
                     | (w1, Inr info) \<Rightarrow>
                         if \<not> lo_recursive lo \<and> isdir \<and> rel \<noteq> pre then ((w1, Suc i, acc), Skip)
                         else if pre = '''' \<or> has_prefix rel pre
                           then ((w1, Suc i, acc @ [\<lparr>oi_key = rel, oi_path = rel, oi_size = node_size info,
                                                oi_modtime = node_mtime info, oi_isdir = isdir,
                                                oi_etag = '''', oi_ctype = '''', oi_meta = []\<rparr>]), Go)
                         else ((w1, Suc i, acc), Go)))))"

definition local_list_with_options :: "string \<Rightarrow> ctx \<Rightarrow> list_options \<Rightarrow> fs \<Rightarrow> fs \<times> list_result res" where
  "local_list_with_options root cx lo w =
     (case cx 0 of
        Some e \<Rightarrow> (w, Err e)
      | None \<Rightarrow>
          (case os_walk_dir (list_visit root cx lo) root (w, 1, []) of
             ((w1, i, acc), Some e) \<Rightarrow> (w1, Err (storage_error ''list'' ''local'' (lo_prefix lo) e))
           | ((w1, i, acc), None) \<Rightarrow>
               (w1, paginate (lo_token lo) (lo_max_keys lo) (sort_objects acc))))"

definition local_list :: "string \<Rightarrow> ctx \<Rightarrow> string \<Rightarrow> fs \<Rightarrow> fs \<times> object_info list res" where
  "local_list root cx p w =
     (case local_list_with_options root cx (list_all_under p) w of
        (w1, Inl e) \<Rightarrow> (w1, Err e)
      | (w1, Inr r) \<Rightarrow> (w1, Ok (lr_objects r)))"

definition local_delete :: "string \<Rightarrow> ctx \<Rightarrow> string \<Rightarrow> fs \<Rightarrow> fs \<times> unit res" where
  "local_delete root cx p w =
     (case cx 0 of
        Some e \<Rightarrow> (w, Err e)
      | None \<Rightarrow>
          (case sanitize root p w of
             (w1, Inl e) \<Rightarrow> (w1, Err (storage_error ''delete'' ''local'' p e))
           | (w1, Inr full) \<Rightarrow>
               (case os_remove full w1 of
                  (w2, Inl n) \<Rightarrow>
                    (w2, if os_is_not_exist (os_err ''remove'' full n) then Ok ()
                         else Err (storage_error ''delete'' ''local'' p (os_err ''remove'' full n)))
                | (w2, Inr _) \<Rightarrow> (w2, Ok ()))))"

definition local_stat :: "string \<Rightarrow> ctx \<Rightarrow> string \<Rightarrow> fs \<Rightarrow> fs \<times> object_info res" where
  "local_stat root cx p w =
     (case cx 0 of
        Some e \<Rightarrow> (w, Err e)
      | None \<Rightarrow>
          (case sanitize root p w of
             (w1, Inl e) \<Rightarrow> (w1, Err (storage_error ''stat'' ''local'' p e))
           | (w1, Inr full) \<Rightarrow>
               (case os_stat full w1 of
                  (w2, Inl n) \<Rightarrow> (w2, Err (local_io_error ''stat'' p (os_err ''stat'' full n)))
                | (w2, Inr fi) \<Rightarrow>
                    (case path_rel root full of
                       None \<Rightarrow> (w2, Err (storage_error ''stat'' ''local'' p (ErrText ''Rel: can't make path relative'')))
                     | Some rel \<Rightarrow>
                         (w2, Ok \<lparr>oi_key = rel, oi_path = rel, oi_size = node_size fi,
                                  oi_modtime = node_mtime fi, oi_isdir = is_dir (Some fi),
                                  oi_etag = '''', oi_ctype = '''', oi_meta = []\<rparr>)))))"

definition local_stream :: "string \<Rightarrow> ctx \<Rightarrow> string \<Rightarrow> fs \<Rightarrow> fs \<times> bytes \<times> go_error option" where
  "local_stream root cx p w = stream_from (local_read root cx p) w"

definition local_driver :: "string \<Rightarrow> nat \<Rightarrow> fs driver" where
  "local_driver root ident =
     \<lparr>dr_name = ''local'', dr_id = ident, dr_local_root = Some root, dr_advanced = True, dr_nil_lists = True,
      dr_read = local_read root, dr_write = local_write root, dr_list = local_list root,
      dr_delete = local_delete root, dr_stat = local_stat root, dr_stream = local_stream root,
      dr_write_opts = local_write_with_options root, dr_list_opts = local_list_with_options root\<rparr>"

section \<open>The abstract view\<close>

text \<open>
  Names the contract of the driver covers: accepted by the sanitizer as they are (so without
  \<^verbatim>\<open>%\<close>, which it decodes) and not of the form of the driver's own temporary files.
\<close>

definition temp_name :: "string \<Rightarrow> bool" where
  "temp_name c \<longleftrightarrow> 21 \<le> length c \<and> take 5 (drop (length c - 21) c) = ''.tmp.''"

definition plain_name :: "string \<Rightarrow> bool" where
  "plain_name c \<longleftrightarrow> safe_comp c \<and> CHR ''%'' \<notin> set c \<and> \<not> temp_name c"

definition local_key :: "string \<Rightarrow> string option" where
  "local_key p =
     (case sanitized_comps p of
        Inl e \<Rightarrow> None
      | Inr cs \<Rightarrow> if cs \<noteq> [] \<and> list_all plain_name cs then Some (join_with ''/'' cs) else None)"

definition local_view :: "string list \<Rightarrow> fs \<Rightarrow> string \<Rightarrow> bytes option" where
  "local_view r w k =
     (case map_of (nodes w) (r @ split_on (CHR ''/'') k) of Some (File d m pm) \<Rightarrow> Some d | _ \<Rightarrow> None)"

definition local_inv :: "string list \<Rightarrow> fs \<Rightarrow> bool" where
  "local_inv r w \<longleftrightarrow> plain_world w r \<and>
     (\<forall>cs. map_of (nodes w) (r @ cs) \<noteq> None \<longrightarrow> list_all plain_name cs) \<and>
     int (card (dom (map_of (nodes w)))) < 2 ^ 62"

definition way_to :: "string list \<Rightarrow> string list \<Rightarrow> string list set" where
  "way_to r cs = (\<lambda>i. r @ take i cs) ` {1..length cs}"

definition local_plain :: "string list \<Rightarrow> fs \<Rightarrow> string \<Rightarrow> bool" where
  "local_plain r w k \<longleftrightarrow>
     (let cs = split_on (CHR ''/'') k in
      clear_way (nodes w) r cs \<and> \<not> is_dir (map_of (nodes w) (r @ cs)) \<and>
      int (card (dom (map_of (nodes w)) \<union> way_to r cs)) < 2 ^ 62)"

lemma plain_proper: "list_all plain_name cs \<Longrightarrow> proper cs"
  by (auto simp: list_all_iff plain_name_def safe_comp_def)

lemma local_key_Some:
  "local_key p = Some k \<longleftrightarrow>
     (\<exists>cs. sanitized_comps p = Inr cs \<and> cs \<noteq> [] \<and> list_all plain_name cs \<and> k = join_with ''/'' cs)"
  by (auto simp: local_key_def split: sum.splits)

lemma key_comps: "list_all plain_name cs \<Longrightarrow> cs \<noteq> [] \<Longrightarrow> split_on (CHR ''/'') (join_with ''/'' cs) = cs"
  by (simp add: proper_split plain_proper)

text \<open>A plain key is its own normal form.\<close>

lemma plain_key_fixed:
  assumes "list_all plain_name cs" "cs \<noteq> []"
  shows "local_key (join_with ''/'' cs) = Some (join_with ''/'' cs)"
proof -
  let ?k = "join_with ''/'' cs"
  have safe: "safe_comp c" "CHR ''%'' \<notin> set c" if "c \<in> set cs" for c
    using assms(1) that by (auto simp: list_all_iff plain_name_def)
  have no: "b \<notin> set ?k" if "b \<noteq> CHR ''/''" "\<And>c. c \<in> set cs \<Longrightarrow> b \<notin> set c" for b
    using that set_join [of "''/''" cs] by auto
  have "nul_char \<notin> set ?k" "CHR ''%'' \<notin> set ?k" "CHR '':'' \<notin> set ?k" "CHR 0x5C \<notin> set ?k"
    by (rule no; use safe in \<open>auto simp: safe_comp_def\<close>)+
  moreover have "slashed ?k = ?k" by (rule replace_char_id) fact
  moreover have "\<forall>s\<in>set cs. \<not> contains_str s ''..'' \<and> \<not> win_device s"
    using safe by (auto simp: safe_comp_def)
  ultimately have "sanitized_comps ?k = Inr cs"
    using assms key_comps [OF assms] clean_comps_id [OF plain_proper [OF assms(1)]]
    by (simp add: sanitized_comps_def decode_path_def)
  then show ?thesis using assms by (simp add: local_key_Some)
qed

lemma local_invD:
  assumes "local_inv r w"
  shows "plain_world w r" "\<And>cs n. map_of (nodes w) (r @ cs) = Some n \<Longrightarrow> list_all plain_name cs"
    "int (card (dom (map_of (nodes w)))) < 2 ^ 62"
  using assms by (auto simp: local_inv_def)

lemma local_inv_ticked: "ticked w w' \<Longrightarrow> local_inv r w \<Longrightarrow> local_inv r w'"
  by (auto simp: local_inv_def ticked_fields plain_world_ticked)

lemma local_view_ticked: "ticked w w' \<Longrightarrow> local_view r w' = local_view r w"
  by (rule ext) (simp add: local_view_def ticked_fields)

text \<open>The sanitizer on a path of the contract.\<close>

lemma local_sanitize:
  assumes "local_inv r w" "sanitized_comps p = Inr cs" "clear_way (nodes w) r cs"
  shows "\<exists>w'. sanitize (abs_path r) p w = (w', Ok (abs_path (r @ cs))) \<and> ticked w w'"
proof (rule sanitize_plain [OF assms(2)])
  note p = plain_worldD [OF local_invD(1) [OF assms(1)]]
  show "proper r" "no_faults w" by fact+
  have "proper cs" using sanitized_comps_safe [OF assms(2)] by (auto simp: list_all_iff safe_comp_def)
  fix k assume "k \<le> length cs"
  have "proper (take k cs)" using \<open>proper cs\<close> by (auto simp: list_all_iff dest: in_set_takeD)
  from resolve_clear [OF local_invD(1) [OF assms(1)] this clear_way_take [OF assms(3)], of False]
  show "resolve w False (abs_path (r @ take k cs)) = Inl ENOENT \<or>
      (\<exists>q. resolve w False (abs_path (r @ take k cs)) = Inr q \<and> \<not> is_link (node_at (nodes w) q))"
    using link_free_node_at [OF p(2)] by auto
qed

lemma local_stored:
  assumes "local_inv r w" "local_view r w k = Some d"
  shows "list_all plain_name (split_on (CHR ''/'') k)"
    and "\<exists>m pm. map_of (nodes w) (r @ split_on (CHR ''/'') k) = Some (File d m pm)"
proof -
  show s: "\<exists>m pm. map_of (nodes w) (r @ split_on (CHR ''/'') k) = Some (File d m pm)"
    using assms(2) by (auto simp: local_view_def split: option.splits node.splits)
  then show "list_all plain_name (split_on (CHR ''/'') k)" using local_invD(2) [OF assms(1)] by blast
qed

lemma local_stored_key: "local_inv r w \<Longrightarrow> local_view r w k = Some d \<Longrightarrow> local_key k = Some k"
  using plain_key_fixed [OF local_stored(1)] by fastforce

lemma way_in_dom:
  assumes "wf_tree t" "map_of t (r @ cs) = Some n"
  shows "way_to r cs \<subseteq> dom (map_of t)"
proof
  fix x assume "x \<in> way_to r cs"
  then obtain i where i: "1 \<le> i" "i \<le> length cs" "x = r @ take i cs" by (auto simp: way_to_def)
  show "x \<in> dom (map_of t)"
  proof (cases "i = length cs")
    case True
    then show ?thesis using assms(2) i by auto
  next
    case False
    then have "clear_way t r cs \<and> is_dir (node_at t (take (length r + i) (r @ cs)))"
      using clear_way_stored [OF assms] wf_tree_take [OF assms, of "length r + i"] i by simp
    then have "is_dir (map_of t x)" using i False by (auto simp: node_at_def split: if_splits)
    then show ?thesis by (cases "map_of t x") auto
  qed
qed

lemma local_stored_plain:
  assumes "local_inv r w" "local_view r w k = Some d"
  shows "local_plain r w k"
proof -
  let ?cs = "split_on (CHR ''/'') k"
  obtain m pm where n: "map_of (nodes w) (r @ ?cs) = Some (File d m pm)"
    using local_stored(2) [OF assms] by blast
  note wf = plain_worldD(1) [OF local_invD(1) [OF assms(1)]]
  have "dom (map_of (nodes w)) \<union> way_to r ?cs = dom (map_of (nodes w))"
    using way_in_dom [OF wf n] by blast
  then show ?thesis using n clear_way_stored [OF wf n] local_invD(3) [OF assms(1)]
    by (simp add: local_plain_def Let_def)
qed

section \<open>Reading, metadata and deletion\<close>

text \<open>What a path of the contract means for the tree.\<close>

lemma local_path:
  assumes "local_inv r w" "local_key p = Some k" "local_plain r w k"
  obtains cs w1 where "sanitize (abs_path r) p w = (w1, Ok (abs_path (r @ cs)))" "ticked w w1"
    "local_inv r w1" "clear_way (nodes w) r cs" "\<not> is_dir (map_of (nodes w) (r @ cs))" "cs \<noteq> []"
    "list_all plain_name cs" "split_on (CHR ''/'') k = cs" "k = join_with ''/'' cs"
proof -
  from assms(2) obtain cs where cs: "sanitized_comps p = Inr cs" "cs \<noteq> []" "list_all plain_name cs"
    "k = join_with ''/'' cs" by (auto simp: local_key_Some)
  then have k: "split_on (CHR ''/'') k = cs" by (simp add: key_comps)
  then have pl: "clear_way (nodes w) r cs" "\<not> is_dir (map_of (nodes w) (r @ cs))"
    using assms(3) by (simp_all add: local_plain_def Let_def)
  from local_sanitize [OF assms(1) cs(1) pl(1)] that cs k pl local_inv_ticked [OF _ assms(1)]
  show ?thesis by blast
qed

lemma local_key_stored:
  assumes "local_inv r w" "local_view r w k = Some d" "list_all plain_name cs" "k = join_with ''/'' cs" "cs \<noteq> []"
  obtains m pm where "map_of (nodes w) (r @ cs) = Some (File d m pm)"
  using local_stored(2) [OF assms(1,2)] key_comps [OF assms(3,5)] assms(4) by auto

lemma ticked_tick_after: "ticked w w1 \<Longrightarrow> ticked w (tick w1)"
  by (erule ticked_trans) simp

lemma local_read_hit:
  assumes "local_inv r w" "local_key p = Some k" "local_view r w k = Some d"
  shows "\<exists>w'. local_read (abs_path r) background p w = (w', Ok (bytes_reader d)) \<and> ticked w w'"
proof -
  from assms(1,2) local_stored_plain [OF assms(1,3)] obtain cs w1 where
    s: "sanitize (abs_path r) p w = (w1, Ok (abs_path (r @ cs)))" "ticked w w1" "local_inv r w1"
      "clear_way (nodes w) r cs" "\<not> is_dir (map_of (nodes w) (r @ cs))" "cs \<noteq> []"
    and pl: "list_all plain_name cs" and k: "split_on (CHR ''/'') k = cs" "k = join_with ''/'' cs"
    by (rule local_path)
  obtain m pm where n: "map_of (nodes w) (r @ cs) = Some (File d m pm)"
    by (rule local_key_stored [OF assms(1,3) pl k(2) s(6)])
  then have "os_open (abs_path (r @ cs)) w1 = (tick w1, Inr (d, None))"
    using os_open_plain [OF local_invD(1) [OF s(3)] plain_proper [OF pl]] s ticked_fields [OF s(2)] by simp
  then show ?thesis using s ticked_tick_after by (simp add: local_read_def bytes_reader_def)
qed

lemma local_view_None:
  "\<not> is_dir (map_of (nodes w) (r @ cs)) \<Longrightarrow> split_on (CHR ''/'') k = cs \<Longrightarrow> plain_world w r \<Longrightarrow>
     local_view r w k = None \<longleftrightarrow> map_of (nodes w) (r @ cs) = None"
  using link_free_node [OF plain_worldD(2), of w r "r @ cs"]
  by (auto simp: local_view_def split: option.splits node.splits)

lemma local_read_miss:
  assumes "local_inv r w" "local_key p = Some k" "local_view r w k = None" "local_plain r w k"
  shows "\<exists>w' e. local_read (abs_path r) background p w = (w', Err e) \<and> err_is e ErrNotFound \<and> ticked w w'"
proof -
  from assms(1,2,4) obtain cs w1 where
    s: "sanitize (abs_path r) p w = (w1, Ok (abs_path (r @ cs)))" "ticked w w1" "local_inv r w1"
      "clear_way (nodes w) r cs" "\<not> is_dir (map_of (nodes w) (r @ cs))" "cs \<noteq> []"
    and pl: "list_all plain_name cs" and k: "split_on (CHR ''/'') k = cs" "k = join_with ''/'' cs"
    by (rule local_path)
  have n: "map_of (nodes w) (r @ cs) = None"
    using local_view_None [OF s(5) k(1) local_invD(1) [OF assms(1)]] assms(3) by simp
  then have "os_open (abs_path (r @ cs)) w1 = (tick w1, Inl ENOENT)"
    using os_open_plain [OF local_invD(1) [OF s(3)] plain_proper [OF pl]] s ticked_fields [OF s(2)] by simp
  then show ?thesis using s ticked_tick_after by (simp add: local_read_def local_io_error_def os_err_def)
qed

lemma local_stat_hit:
  assumes "local_inv r w" "local_key p = Some k" "local_view r w k = Some d"
  shows "\<exists>w' oi. local_stat (abs_path r) background p w = (w', Ok oi) \<and> oi_path oi = k
    \<and> oi_size oi = int (length d) \<and> \<not> oi_isdir oi \<and> ticked w w'"
proof -
  from assms(1,2) local_stored_plain [OF assms(1,3)] obtain cs w1 where
    s: "sanitize (abs_path r) p w = (w1, Ok (abs_path (r @ cs)))" "ticked w w1" "local_inv r w1"
      "clear_way (nodes w) r cs" "\<not> is_dir (map_of (nodes w) (r @ cs))" "cs \<noteq> []"
    and pl: "list_all plain_name cs" and k: "split_on (CHR ''/'') k = cs" "k = join_with ''/'' cs"
    by (rule local_path)
  obtain m pm where n: "map_of (nodes w) (r @ cs) = Some (File d m pm)"
    by (rule local_key_stored [OF assms(1,3) pl k(2) s(6)])
  then have "os_stat (abs_path (r @ cs)) w1 = (tick w1, Inr (File d m pm))"
    using os_stat_plain [OF local_invD(1) [OF s(3)] plain_proper [OF pl]] s ticked_fields [OF s(2)] by simp
  moreover have "path_rel (abs_path r) (abs_path (r @ cs)) = Some k"
    using path_rel_under [OF plain_worldD(5) [OF local_invD(1) [OF assms(1)]] plain_proper [OF pl] s(6)] k(2)
    by simp
  ultimately show ?thesis using s ticked_tick_after by (simp add: local_stat_def)
qed

lemma local_stat_miss:
  assumes "local_inv r w" "local_key p = Some k" "local_view r w k = None" "local_plain r w k"
  shows "\<exists>w' e. local_stat (abs_path r) background p w = (w', Err e) \<and> err_is e ErrNotFound \<and> ticked w w'"
proof -
  from assms(1,2,4) obtain cs w1 where
    s: "sanitize (abs_path r) p w = (w1, Ok (abs_path (r @ cs)))" "ticked w w1" "local_inv r w1"
      "clear_way (nodes w) r cs" "\<not> is_dir (map_of (nodes w) (r @ cs))" "cs \<noteq> []"
    and pl: "list_all plain_name cs" and k: "split_on (CHR ''/'') k = cs" "k = join_with ''/'' cs"
    by (rule local_path)
  have n: "map_of (nodes w) (r @ cs) = None"
    using local_view_None [OF s(5) k(1) local_invD(1) [OF assms(1)]] assms(3) by simp
  then have "os_stat (abs_path (r @ cs)) w1 = (tick w1, Inl ENOENT)"
    using os_stat_plain [OF local_invD(1) [OF s(3)] plain_proper [OF pl]] s ticked_fields [OF s(2)] by simp
  then show ?thesis using s ticked_tick_after by (simp add: local_stat_def local_io_error_def os_err_def)
qed

lemma local_view_key:
  assumes "list_all plain_name cs" "cs \<noteq> []" "k = join_with ''/'' cs"
  shows "r @ split_on (CHR ''/'') j = r @ cs \<longleftrightarrow> j = k"
  using key_comps [OF assms(1,2)] assms(3) by (metis join_split same_append_eq)

lemma dom_card_mono: "finite B \<Longrightarrow> A \<subseteq> B \<Longrightarrow> int (card B) < n \<Longrightarrow> int (card A) < n"
  using card_mono [of B A] by linarith

lemma finite_way [simp]: "finite (way_to r cs)"
  by (simp add: way_to_def)

lemma clear_way_mono:
  assumes "clear_way t r cs"
    and "\<And>k. 0 < k \<Longrightarrow> k < length cs \<Longrightarrow>
      map_of t' (r @ take k cs) = map_of t (r @ take k cs) \<or> map_of t' (r @ take k cs) = None
        \<or> is_dir (map_of t' (r @ take k cs))"
  shows "clear_way t' r cs"
  using assms unfolding clear_way_def by metis

lemma local_delete_ok:
  assumes "local_inv r w" "local_key p = Some k" "local_plain r w k"
  shows "\<exists>w'. local_delete (abs_path r) background p w = (w', Ok ()) \<and> local_inv r w'
    \<and> local_view r w' = (local_view r w)(k := None) \<and> local_plain r w' k"
proof -
  from assms obtain cs w1 where
    s: "sanitize (abs_path r) p w = (w1, Ok (abs_path (r @ cs)))" "ticked w w1" "local_inv r w1"
      "clear_way (nodes w) r cs" "\<not> is_dir (map_of (nodes w) (r @ cs))" "cs \<noteq> []"
    and pl: "list_all plain_name cs" and k: "split_on (CHR ''/'') k = cs" "k = join_with ''/'' cs"
    by (rule local_path)
  note pw = local_invD(1) [OF s(3)] and n1 = ticked_fields [OF s(2)]
  have rm: "os_remove (abs_path (r @ cs)) w1 =
      (if map_of (nodes w) (r @ cs) = None then (tick w1, Inl ENOENT) else (del_node (r @ cs) (tick w1), Inr ()))"
    using os_remove_plain [OF pw plain_proper [OF pl]] s n1 by simp
  show ?thesis
  proof (cases "map_of (nodes w) (r @ cs)")
    case None
    have tk: "ticked w (tick w1)" using s(2) by (rule ticked_tick_after)
    have "(local_view r w)(k := None) = local_view r w" using None k(1) by (auto simp: local_view_def)
    moreover have "local_plain r (tick w1) k" using assms(3) n1 by (simp add: local_plain_def)
    moreover have "local_delete (abs_path r) background p w = (tick w1, Ok ())"
      using None rm s by (simp add: local_delete_def os_err_def)
    ultimately show ?thesis using local_view_ticked [OF tk] local_inv_ticked [OF tk assms(1)] by simp
  next
    case (Some nd)
    let ?t = "AList.delete (r @ cs) (nodes w)" and ?w2 = "del_node (r @ cs) (tick w1)"
    have nt: "nodes ?w2 = ?t" using n1 by (simp add: del_node_def)
    have "plain_world ?w2 r"
      using plain_worldD [OF pw] wf_tree_del [of "nodes w" "r @ cs"] link_free_del [of "nodes w" "r @ cs"]
        real_dir_del [of "nodes w" r "r @ cs"] s(5) n1
      by (simp add: plain_world_def del_node_def)
    moreover have "\<forall>ds. map_of ?t (r @ ds) \<noteq> None \<longrightarrow> list_all plain_name ds"
      using local_invD(2) [OF assms(1)] by auto
    moreover have sub: "dom (map_of ?t) \<subseteq> dom (map_of (nodes w))" by (auto split: if_splits)
    moreover have "int (card (dom (map_of ?t))) < 2 ^ 62"
      by (rule dom_card_mono [OF finite_dom_map_of sub local_invD(3) [OF assms(1)]])
    ultimately have "local_inv r ?w2" unfolding local_inv_def nt by (intro conjI)
    moreover have "local_view r ?w2 = (local_view r w)(k := None)"
    proof
      fix j show "local_view r ?w2 j = ((local_view r w)(k := None)) j"
        using local_view_key [OF pl s(6) k(2), of r j] unfolding local_view_def nt by simp
    qed
    moreover have "local_plain r ?w2 k"
    proof -
      have "clear_way ?t r cs" by (rule clear_way_mono [OF s(4)]) simp
      moreover have "dom (map_of ?t) \<union> way_to r cs \<subseteq> dom (map_of (nodes w)) \<union> way_to r cs"
        using sub by blast
      then have "int (card (dom (map_of ?t) \<union> way_to r cs)) < 2 ^ 62"
        by (rule dom_card_mono [rotated])
          (use assms(3) k(1) in \<open>simp_all add: local_plain_def Let_def finite_dom_map_of\<close>)
      ultimately show ?thesis using k(1) by (simp add: local_plain_def Let_def nt)
    qed
    moreover have "local_delete (abs_path r) background p w = (?w2, Ok ())"
      using Some rm s by (simp add: local_delete_def)
    ultimately show ?thesis by blast
  qed
qed

section \<open>Writing\<close>

lemma hex_digit_no_slash: "n < 16 \<Longrightarrow> hex_digit n \<noteq> CHR ''/''"
proof
  assume n: "n < 16" and h: "hex_digit n = CHR ''/''"
  have "(of_char (hex_digit n) :: nat) = (if n < 10 then 48 + n else 87 + n) mod 256"
    by (simp only: hex_digit_def of_char_of)
  moreover have "(of_char (CHR ''/'') :: nat) = 47" by simp
  ultimately show False using n h by (simp split: if_splits)
qed

lemma hex_encode_no_slash: "CHR ''/'' \<notin> set (hex_encode b)"
proof
  assume "CHR ''/'' \<in> set (hex_encode b)"
  then obtain x :: byte where "CHR ''/'' = hex_digit (unat x div 16) \<or> CHR ''/'' = hex_digit (unat x mod 16)"
    by (auto simp: hex_encode_def)
  moreover have "unat x div 16 < 16" using unsigned_less [where ?'a = nat, of x] by simp
  moreover have "unat x mod 16 < 16" by simp
  ultimately show False using hex_digit_no_slash by metis
qed

lemma temp_comp:
  assumes "proper_comp c" "length rnd = 8"
  defines "tc \<equiv> c @ ''.tmp.'' @ hex_encode rnd"
  shows "proper_comp tc" "temp_name tc" "tc \<noteq> c" "temp_path (abs_path (xs @ [c])) rnd = abs_path (xs @ [tc])"
proof -
  show "proper_comp tc"
    using assms(1) hex_encode_no_slash [of rnd] by (auto simp: tc_def proper_comp_def append_eq_Cons_conv)
  show "temp_name tc" using assms(2) by (simp add: tc_def temp_name_def)
  show "tc \<noteq> c" by (simp add: tc_def)
  show "temp_path (abs_path (xs @ [c])) rnd = abs_path (xs @ [tc])"
    by (simp add: temp_path_def tc_def abs_path_snoc_append)
qed

text \<open>Filling a fresh temporary file and moving it to its place.\<close>

lemma commit_temp_plain:
  assumes "plain_world w r" "proper cs" "proper_comp a" "proper_comp b" "a \<noteq> b"
    and "is_dir (node_at (nodes w) (r @ cs))" "map_of (nodes w) (r @ cs @ [a]) = None"
    and "\<not> is_dir (map_of (nodes w) (r @ cs @ [b]))"
  shows "\<exists>w' m. commit_temp p (abs_path (r @ cs @ [b])) (abs_path (r @ cs @ [a])) (bytes_reader d) (int (length d)) w
      = (w', Ok ()) \<and> plain_world w' r
      \<and> map_of (nodes w') = (map_of (nodes w))(r @ cs @ [b] \<mapsto> File d m 384)"
proof -
  note p = plain_worldD [OF assms(1)]
  let ?qa = "r @ cs @ [a]" and ?qb = "r @ cs @ [b]"
  define w1 where "w1 = put_node ?qa (File [] (now w (Suc (ticks w))) 384) (tick w)"
  have cr: "os_create (abs_path ?qa) 384 w = (w1, Inr ?qa)"
    unfolding w1_def by (rule os_create_plain [OF assms(1-3,6,7)])
  have nf1: "no_faults w1" using p(3) by (simp add: w1_def put_node_def)
  have "map_of (nodes w1) ?qa = Some (File [] (now w (Suc (ticks w))) 384)" by (simp add: w1_def put_node_def)
  from os_copy_plain [OF nf1 _ this, of d, unfolded append_Nil] obtain n m' where
    cp: "os_copy ?qa d w1 = (w1\<lparr>ticks := n, nodes := (if d = [] then nodes w1 else
      AList.update ?qa (File d m' 384) (nodes w1))\<rparr>, Inr ())" by auto
  define w2 where "w2 = w1\<lparr>ticks := n, nodes := (if d = [] then nodes w1 else
      AList.update ?qa (File d m' 384) (nodes w1))\<rparr>"
  have pa: "proper ?qa" "proper ?qb" using p(5) assms(2-4) by auto
  have par: "is_dir (node_at (nodes w) (butlast ?qa))" "is_dir (node_at (nodes w) (butlast ?qb))"
    using assms(6) by (simp_all add: butlast_append)
  obtain m where m2: "map_of (nodes w2) = (map_of (nodes w))(?qa \<mapsto> File d m 384)"
    by (cases "d = []") (auto simp: w2_def w1_def put_node_def fun_eq_iff)
  have w1t: "wf_tree (nodes w1)" "link_free (nodes w1)" "real_dir (nodes w1) r"
    using wf_tree_put [OF p(1) _ pa(1) par(1)] link_free_put [OF p(2)] real_dir_put [OF p(4)] assms(7)
    by (simp_all add: w1_def put_node_def)
  have "is_dir (node_at (nodes w1) (butlast ?qa))"
    using par(1) by (auto simp: w1_def put_node_def node_at_def butlast_append)
  then have pw2: "plain_world w2 r"
    using w1t wf_tree_put [OF p(1) _ pa(1) par(1)] link_free_put [OF p(2)] real_dir_put [OF p(4)] p(3) assms(7)
    by (auto simp: plain_world_def w2_def w1_def put_node_def)
  define w4 where "w4 = tick (tick w2)"
  have sy: "os_sync ?qa w2 = (tick w2, Inr ())" "os_close ?qa (tick w2) = (w4, Inr ())"
    using plain_worldD(3) [OF pw2] by (simp_all add: os_sync_def os_close_def sys_plain w4_def)
  have pw4: "plain_world w4 r" using pw2 by (simp add: w4_def)
  have m4: "map_of (nodes w4) = (map_of (nodes w))(?qa \<mapsto> File d m 384)" using m2 by (simp add: w4_def)
  have d4: "is_dir (node_at (nodes w4) (r @ cs))" using assms(6,7) m4 by (auto simp: node_at_def)
  have f4: "map_of (nodes w4) ?qa = Some (File d m 384)" "\<not> is_dir (map_of (nodes w4) ?qb)"
    using m4 assms(5,8) by auto
  define w5 where "w5 = put_node ?qb (File d m 384) (del_node ?qa (tick w4))"
  have rn: "os_rename (abs_path ?qa) (abs_path ?qb) w4 = (w5, Inr ())"
    unfolding w5_def by (rule os_rename_plain [OF pw4 assms(2-4) d4 f4 assms(5)])
  note p4 = plain_worldD [OF pw4]
  have "\<not> is_dir (map_of (nodes w4) ?qa)" using f4 by simp
  note del = wf_tree_del [OF p4(1) this] link_free_del [OF p4(2), of ?qa] real_dir_del [OF p4(4) this]
  have "is_dir (node_at (AList.delete ?qa (nodes w4)) (butlast ?qb))"
    using d4 by (auto simp: node_at_def butlast_append)
  then have "plain_world w5 r"
    using wf_tree_put [OF del(1) _ pa(2)] link_free_put [OF del(2)] real_dir_put [OF del(3)] p4(3) f4(2)
    by (simp add: plain_world_def w5_def put_node_def del_node_def)
  moreover have "map_of (nodes w5) = (map_of (nodes w))(?qb \<mapsto> File d m 384)"
  proof
    fix x show "map_of (nodes w5) x = ((map_of (nodes w))(?qb \<mapsto> File d m 384)) x"
      using assms(7) m4 by (simp add: w5_def put_node_def del_node_def)
  qed
  moreover have "commit_temp p (abs_path ?qb) (abs_path ?qa) (bytes_reader d) (int (length d)) w = (w5, Ok ())"
    using cr cp sy rn by (simp add: commit_temp_def Let_def w2_def [symmetric] eval_nat_numeral)
  ultimately show ?thesis by blast
qed

lemma limit_reader_full [simp]: "limit_reader (int (length d)) (bytes_reader d) = bytes_reader d"
  by (simp add: limit_reader_def)

lemma way_to_with_dirs:
  assumes "x \<in> dom (with_dirs t nd r (butlast cs)) \<or> x = r @ cs" "cs \<noteq> []"
  shows "x \<in> dom (map_of t) \<union> way_to r cs"
proof -
  have "r @ take k (butlast cs) \<in> way_to r cs" if "0 < k" "k \<le> length (butlast cs)" for k
  proof -
    have "take k (butlast cs) = take k cs" using that by (simp add: take_butlast)
    then show ?thesis using that by (auto simp: way_to_def)
  qed
  moreover have "r @ cs \<in> way_to r cs"
    using assms(2) by (auto simp: way_to_def Suc_le_eq intro!: image_eqI [of _ _ "length cs"])
  ultimately show ?thesis using assms(1) by (auto simp: with_dirs_def split: if_splits)
qed

lemma prefix_plain:
  assumes "list_all plain_name cs" "k \<le> length (butlast cs)" "r @ ds = r @ take k (butlast cs)"
  shows "list_all plain_name ds"
proof -
  have "set ds \<subseteq> set cs" using assms(3) by (auto dest!: in_set_takeD in_set_butlastD)
  then show ?thesis using assms(1) by (auto simp: list_all_iff)
qed

text \<open>The state after a write: the directories on the way, and the file.\<close>

lemma local_write_world:
  assumes "local_inv r w" "local_key p = Some k" "local_plain r w k"
  defines "cs \<equiv> split_on (CHR ''/'') k"
  shows "\<exists>w' m nd. local_write (abs_path r) background p (bytes_reader d) (int (length d)) w = (w', Ok ())
    \<and> plain_world w' r \<and> is_dir (Some nd)
    \<and> map_of (nodes w') = (with_dirs (nodes w) nd r (butlast cs))(r @ cs \<mapsto> File d m 384)"
proof -
  obtain w1 where
    s: "sanitize (abs_path r) p w = (w1, Ok (abs_path (r @ cs)))" "ticked w w1" "local_inv r w1"
      "clear_way (nodes w) r cs" "\<not> is_dir (map_of (nodes w) (r @ cs))" "cs \<noteq> []"
    and pl: "list_all plain_name cs" and k: "k = join_with ''/'' cs"
    by (rule local_path [OF assms(1-3)]) (simp add: cs_def)
  note pw1 = local_invD(1) [OF s(3)] and n1 = ticked_fields [OF s(2)]
  have nodes1: "nodes w1 = nodes w" using n1 by simp
  obtain cs0 c where cc: "cs = cs0 @ [c]" using s(6) by (metis append_butlast_last_id)
  have pc: "proper cs0" "proper_comp c" using plain_proper [OF pl] cc by auto
  have pr: "proper r" by (rule plain_worldD(5) [OF pw1])
  have dirp: "path_dir (abs_path (r @ cs)) = abs_path (r @ cs0)"
    using path_dir_abs [of "r @ cs0" c] pr pc cc by simp
  have cw: "clear_way (nodes w1) r (cs0 @ [c])" using s(4) n1 cc by simp
  from os_mkdir_all_plain [OF pw1 pc(1) cw, of 488] obtain t' where
    mk: "os_mkdir_all (abs_path (r @ cs0)) 488 w1 = ((tick w1)\<lparr>nodes := t'\<rparr>, Inr ())"
    and t': "wf_tree t'" "link_free t'" "is_dir (node_at t' (r @ cs0))" "real_dir t' r"
      "map_of t' = with_dirs (nodes w) (Dir 488 (now w1 (Suc (ticks w1)))) r cs0"
    unfolding nodes1 by blast
  define w3 where "w3 = (tick w1)\<lparr>nodes := t'\<rparr>"
  have nf3: "no_faults w3" using plain_worldD(3) [OF pw1] by (simp add: w3_def)
  define rnd where "rnd = map (entropy w3 (Suc (ticks w3))) [0..<8]"
  have rd: "os_rand 8 w3 = (tick w3, Inr rnd)" using nf3 by (simp add: os_rand_def sys_plain rnd_def)
  let ?tc = "c @ ''.tmp.'' @ hex_encode rnd"
  have "length rnd = 8" by (simp add: rnd_def)
  note tc = temp_comp [OF pc(2) this]
  have none: "map_of t' (r @ cs0 @ [?tc]) = None"
  proof (cases "map_of (nodes w) (r @ cs0 @ [?tc])")
    case None
    have "r @ cs0 @ [?tc] \<noteq> r @ take k cs0" for k by (metis append_same_eq length_append_singleton length_take min.cobounded2 not_less_eq_eq same_append_eq le_refl min.cobounded1)
    then show ?thesis using None t'(5) by (simp add: with_dirs_def)
  next
    case (Some n)
    then have "plain_name ?tc" using local_invD(2) [OF assms(1), of "cs0 @ [?tc]"] by auto
    then show ?thesis using tc(2) by (simp add: plain_name_def)
  qed
  have nod: "\<not> is_dir (map_of t' (r @ cs0 @ [c]))"
  proof -
    have "r @ cs0 @ [c] \<noteq> r @ take k cs0" for k by (metis append_same_eq length_append_singleton length_take min.cobounded2 not_less_eq_eq same_append_eq le_refl min.cobounded1)
    then show ?thesis using s(5) cc t'(5) by (simp add: with_dirs_def)
  qed
  have pw3: "plain_world (tick w3) r" using t' nf3 by (simp add: plain_world_def w3_def)
  have n3: "nodes (tick w3) = t'" by (simp add: w3_def)
  from commit_temp_plain [OF pw3 pc(1) tc(1) pc(2) tc(3), unfolded n3, OF t'(3) none nod, of p d]
  obtain w' m where w': "commit_temp p (abs_path (r @ cs0 @ [c])) (abs_path (r @ cs0 @ [?tc])) (bytes_reader d)
      (int (length d)) (tick w3) = (w', Ok ())" "plain_world w' r"
    "map_of (nodes w') = (map_of t')(r @ cs0 @ [c] \<mapsto> File d m 384)" by blast
  have "local_write (abs_path r) background p (bytes_reader d) (int (length d)) w = (w', Ok ())"
    using s(1) dirp mk rd tc(4) [of "r @ cs0"] w'(1) cc
    by (simp add: local_write_def local_write_with_options_def Let_def w3_def)
  moreover have "is_dir (Some (Dir 488 (now w1 (Suc (ticks w1)))))" by simp
  moreover have "map_of (nodes w') = (with_dirs (nodes w) (Dir 488 (now w1 (Suc (ticks w1)))) r (butlast cs))
      (r @ cs \<mapsto> File d m 384)" using w'(3) t'(5) cc by simp
  ultimately show ?thesis using w'(2) by blast
qed

lemma local_write_ok:
  assumes "local_inv r w" "local_key p = Some k" "local_plain r w k"
  shows "\<exists>w'. local_write (abs_path r) background p (bytes_reader d) (int (length d)) w = (w', Ok ())
    \<and> local_inv r w' \<and> local_view r w' = (local_view r w)(k \<mapsto> d) \<and> local_plain r w' k"
proof -
  let ?cs = "split_on (CHR ''/'') k"
  from local_write_world [OF assms, of d] obtain w' m nd where
    wr: "local_write (abs_path r) background p (bytes_reader d) (int (length d)) w = (w', Ok ())"
    and pw: "plain_world w' r" and nd: "is_dir (Some nd)"
    and mo: "map_of (nodes w') = (with_dirs (nodes w) nd r (butlast ?cs))(r @ ?cs \<mapsto> File d m 384)"
    by blast
  obtain cs where pl: "list_all plain_name cs" "cs \<noteq> []" "?cs = cs" "k = join_with ''/'' cs"
    using local_path [OF assms] by metis
  have "clear_way (nodes w) r cs"
    using assms(3) pl(3) by (simp_all add: local_plain_def Let_def)
  have dom: "dom (map_of (nodes w')) \<subseteq> dom (map_of (nodes w)) \<union> way_to r cs"
    using way_to_with_dirs [OF _ pl(2), of _ "nodes w" nd r] unfolding mo pl(3) by auto
  have bound: "int (card (dom (map_of (nodes w)) \<union> way_to r cs)) < 2 ^ 62"
    using assms(3) pl(3) by (simp add: local_plain_def Let_def)
  have stored: "map_of (nodes w') (r @ cs) = Some (File d m 384)" unfolding mo pl(3) by simp
  have "list_all plain_name ds" if "map_of (nodes w') (r @ ds) \<noteq> None" for ds
  proof (cases "ds = cs")
    case False
    then have "with_dirs (nodes w) nd r (butlast cs) (r @ ds) \<noteq> None" using that unfolding mo pl(3) by simp
    then show ?thesis
      using prefix_plain [OF pl(1), of _ r ds] local_invD(2) [OF assms(1), of ds]
      unfolding with_dirs_def by (auto split: if_splits)
  qed (use pl(1) in simp)
  moreover have "int (card (dom (map_of (nodes w')))) < 2 ^ 62"
    by (rule dom_card_mono [OF _ dom bound]) (simp add: finite_dom_map_of)
  ultimately have inv: "local_inv r w'" unfolding local_inv_def using pw by blast
  have "local_view r w' j = ((local_view r w)(k \<mapsto> d)) j" for j
  proof (cases "j = k")
    case True
    then show ?thesis using stored pl(3) by (simp add: local_view_def)
  next
    case False
    let ?q = "r @ split_on (CHR ''/'') j"
    have "?q \<noteq> r @ cs" using local_view_key [OF pl(1,2,4), of r j] False by blast
    then have e: "map_of (nodes w') ?q = with_dirs (nodes w) nd r (butlast cs) ?q" unfolding mo pl(3) by simp
    have "is_dir (Some nd) \<Longrightarrow> (case Some nd of Some (File d m pm) \<Rightarrow> Some d | _ \<Rightarrow> None) = None"
      by (cases nd) auto
    then have "local_view r w' j = local_view r w j"
      using nd unfolding local_view_def e with_dirs_def by (auto split: option.split)
    then show ?thesis using False by simp
  qed
  then have view: "local_view r w' = (local_view r w)(k \<mapsto> d)" by (rule ext)
  have "local_view r w' k = Some d" by (simp add: view)
  from wr inv view local_stored_plain [OF inv this] show ?thesis by blast
qed

section \<open>Listing\<close>

text \<open>The nodes below a directory in the order of the walk.\<close>

fun subtree :: "nat \<Rightarrow> tree \<Rightarrow> string list \<Rightarrow> node \<Rightarrow> (string list \<times> node) list" where
  "subtree 0 t q nd = []"
| "subtree (Suc n) t q nd =
     (q, nd) # (if is_dir (Some nd) then concat (map (\<lambda>(c, m). subtree n t (q @ [c]) m) (children t q)) else [])"

lemma children_set:
  assumes "wf_tree t"
  shows "(c, m) \<in> set (children t q) \<longleftrightarrow> map_of t (q @ [c]) = Some m"
proof -
  have d: "distinct (map fst t)" using assms by (simp add: wf_tree_def)
  have "(c, m) \<in> set (children t q) \<longleftrightarrow> (\<exists>p. (p, m) \<in> set t \<and> p \<noteq> [] \<and> butlast p = q \<and> last p = c)"
    by (auto simp: children_def image_iff)
  also have "\<dots> \<longleftrightarrow> (q @ [c], m) \<in> set t" by (metis append_butlast_last_id butlast_snoc last_snoc snoc_eq_iff_butlast)
  finally show ?thesis using d by simp
qed

lemma children_distinct:
  assumes "wf_tree t"
  shows "distinct (map fst (children t q))"
proof -
  let ?f = "filter (\<lambda>(p, n). p \<noteq> [] \<and> butlast p = q) t"
  have d: "distinct (map fst ?f)" using assms by (simp add: wf_tree_def distinct_map_filter)
  have "inj_on last (fst ` set ?f)"
    by (rule inj_onI) (auto, metis append_butlast_last_id)
  then have "distinct (map last (map fst ?f))" using d by (simp add: distinct_map del: map_map)
  moreover have "map last (map fst ?f) = map fst (map (\<lambda>(p, n). (last p, n)) ?f)" by auto
  ultimately have "distinct (map fst (map (\<lambda>(p, n). (last p, n)) ?f))" by metis
  moreover have "distinct (map fst (sort_key fst ys)) = distinct (map fst ys)" for ys :: "(string \<times> node) list"
    by (simp add: distinct_map)
  ultimately show ?thesis by (simp only: children_def)
qed

lemma node_below:
  assumes "wf_tree t" "node_at t (q @ c # cs) = Some m"
  shows "\<exists>nd. map_of t (q @ [c]) = Some nd \<and> (cs = [] \<or> is_dir (Some nd))"
proof -
  have m: "map_of t (q @ c # cs) = Some m" using assms(2) by (simp add: node_at_def)
  show ?thesis
  proof (cases "cs = []")
    case False
    then have "is_dir (map_of t (q @ [c]))"
      using wf_tree_take [OF assms(1) m, of "Suc (length q)"] by (simp add: node_at_def)
    then show ?thesis by (cases "map_of t (q @ [c])") auto
  qed (use m in simp)
qed

lemma subtree_set:
  assumes "wf_tree t" "node_at t q = Some nd" "\<And>cs. node_at t (q @ cs) \<noteq> None \<Longrightarrow> length cs < n"
  shows "(p, m) \<in> set (subtree n t q nd) \<longleftrightarrow> (\<exists>cs. p = q @ cs \<and> node_at t p = Some m)"
  using assms(2,3)
proof (induction n arbitrary: q nd)
  case 0
  then show ?case using "0.prems"(2) [of "[]"] by simp
next
  case (Suc n)
  have below: "(p, m) \<in> set (subtree n t (q @ [c]) x) \<longleftrightarrow> (\<exists>cs. p = (q @ [c]) @ cs \<and> node_at t p = Some m)"
    if "(c, x) \<in> set (children t q)" for c x
  proof (rule Suc.IH)
    show "node_at t (q @ [c]) = Some x" using that children_set [OF assms(1)] by (simp add: node_at_def)
    show "length cs < n" if "node_at t ((q @ [c]) @ cs) \<noteq> None" for cs
      using Suc.prems(2) [of "c # cs"] that by simp
  qed
  show ?case
  proof
    assume "(p, m) \<in> set (subtree (Suc n) t q nd)"
    then consider "p = q" "m = nd" | c x where "(c, x) \<in> set (children t q)" "(p, m) \<in> set (subtree n t (q @ [c]) x)"
      by (auto split: if_splits)
    then show "\<exists>cs. p = q @ cs \<and> node_at t p = Some m"
    proof cases
      case 1
      then show ?thesis using Suc.prems(1) by auto
    next
      case 2
      then show ?thesis using below by auto
    qed
  next
    assume "\<exists>cs. p = q @ cs \<and> node_at t p = Some m"
    then obtain cs where cs: "p = q @ cs" "node_at t p = Some m" by blast
    show "(p, m) \<in> set (subtree (Suc n) t q nd)"
    proof (cases cs)
      case Nil
      then show ?thesis using cs Suc.prems(1) by simp
    next
      case (Cons c cs')
      then obtain x where x: "map_of t (q @ [c]) = Some x" using node_below [OF assms(1)] cs by metis
      then have ch: "(c, x) \<in> set (children t q)" using children_set [OF assms(1)] by simp
      have "is_dir (Some nd)" using wf_tree_parent(3) [OF assms(1) x] Suc.prems(1) by simp
      moreover have "(p, m) \<in> set (subtree n t (q @ [c]) x)" using below [OF ch] cs Cons by auto
      ultimately show ?thesis using ch by auto
    qed
  qed
qed

lemma subtree_prefix: "(p, m) \<in> set (subtree n t q nd) \<Longrightarrow> prefix q p"
proof (induction n arbitrary: q nd)
  case (Suc n)
  then show ?case by (fastforce split: if_splits dest: append_prefixD)
qed simp

lemma subtree_distinct:
  assumes "wf_tree t"
  shows "distinct (map fst (subtree n t q nd))"
proof (induction n arbitrary: q nd)
  case (Suc n)
  have *: "distinct (map fst (concat (map (\<lambda>(c, m). subtree n t (q @ [c]) m) ents)))"
    if "distinct (map fst ents)" for ents
    using that
  proof (induction ents)
    case (Cons e ents)
    obtain c m where e: "e = (c, m)" by force
    have "p \<notin> set (map fst (concat (map (\<lambda>(c, m). subtree n t (q @ [c]) m) ents)))"
      if "p \<in> set (map fst (subtree n t (q @ [c]) m))" for p
    proof
      assume "p \<in> set (map fst (concat (map (\<lambda>(c, m). subtree n t (q @ [c]) m) ents)))"
      then obtain c' m' where c': "(c', m') \<in> set ents" "p \<in> set (map fst (subtree n t (q @ [c']) m'))" by fastforce
      then have "prefix (q @ [c]) p" "prefix (q @ [c']) p" using that subtree_prefix by fastforce+
      then have "c = c'" by (auto simp: prefix_def)
      then show False using Cons.prems e c'(1) by force
    qed
    then show ?case using Cons e Suc.IH by (auto simp del: set_map set_concat)
  qed simp
  have "q \<notin> set (map fst (concat (map (\<lambda>(c, m). subtree n t (q @ [c]) m) (children t q))))"
  proof
    assume "q \<in> set (map fst (concat (map (\<lambda>(c, m). subtree n t (q @ [c]) m) (children t q))))"
    then obtain c m where "q \<in> set (map fst (subtree n t (q @ [c]) m))" by fastforce
    then have "prefix (q @ [c]) q" using subtree_prefix by fastforce
    then show False by (simp add: prefix_def)
  qed
  then show ?case using * [OF children_distinct [OF assms]] by (auto simp del: set_map set_concat)
qed simp

lemma tree_depth:
  assumes "wf_tree t" "node_at t p \<noteq> None"
  shows "length p \<le> length t"
proof (cases "p = []")
  case False
  then obtain n where "map_of t ([] @ p) = Some n" using assms(2) by (auto simp: node_at_def)
  from way_in_dom [OF assms(1) this] have "way_to [] p \<subseteq> fst ` set t" by (simp add: dom_map_of_conv_image_fst)
  moreover have "card (way_to [] p) = length p"
  proof -
    have "inj_on (\<lambda>i. [] @ take i p) {1..length p}"
      by (rule inj_onI) (metis append_Nil atLeastAtMost_iff length_take min.absorb2)
    then show ?thesis unfolding way_to_def by (simp add: card_image)
  qed
  ultimately have "length p \<le> card (fst ` set t)" by (metis List.finite_set card_mono finite_imageI)
  also have "\<dots> \<le> length t" by (metis card_length length_map list.set_map)
  finally show ?thesis .
qed simp

text \<open>The object of a node, and which nodes a listing reports.\<close>

definition node_object :: "string list \<Rightarrow> string list \<times> node \<Rightarrow> object_info" where
  "node_object r = (\<lambda>(p, nd).
     \<lparr>oi_key = join_with ''/'' (drop (length r) p), oi_path = join_with ''/'' (drop (length r) p),
      oi_size = node_size nd, oi_modtime = node_mtime nd, oi_isdir = is_dir (Some nd),
      oi_etag = '''', oi_ctype = '''', oi_meta = []\<rparr>)"

definition listed :: "string list \<Rightarrow> string \<Rightarrow> string list \<times> node \<Rightarrow> bool" where
  "listed r P x \<longleftrightarrow> fst x \<noteq> r \<and> (P = '''' \<or> has_prefix (join_with ''/'' (drop (length r) (fst x))) P)"

definition off_way :: "string list \<Rightarrow> string \<Rightarrow> string list \<Rightarrow> bool" where
  "off_way r P cs \<longleftrightarrow> cs \<noteq> [] \<and> P \<noteq> '''' \<and> \<not> has_prefix (join_with ''/'' cs) P \<and> \<not> has_prefix P (join_with ''/'' cs)"

lemma list_visit_node:
  assumes "plain_world w r" "proper cs" "node_at (nodes w) (r @ cs) = Some nd" "lo_recursive lo"
  defines "P \<equiv> list_prefix (lo_prefix lo)"
  shows "\<exists>w'. list_visit (abs_path r) background lo (abs_path (r @ cs)) nd None (w, i, acc)
      = ((w', Suc i, acc @ map (node_object r) (filter (listed r P) [(r @ cs, nd)])),
         if off_way r P cs \<and> is_dir (Some nd) then Skip else Go) \<and> ticked w w'"
proof (cases "cs = []")
  case True
  then have "list_visit (abs_path r) background lo (abs_path (r @ cs)) nd None (w, i, acc) = ((w, Suc i, acc), Go)"
    using path_rel_self [OF plain_worldD(5) [OF assms(1)]] by (simp add: list_visit_def)
  then show ?thesis using True by (intro exI [of _ w]) (simp add: listed_def off_way_def)
next
  case False
  note rel = path_rel_under [OF plain_worldD(5) [OF assms(1)] assms(2) False]
  have nd: "join_with ''/'' cs \<noteq> ''.''" by (rule proper_no_traversal(2) [OF assms(2)])
  show ?thesis
  proof (cases "off_way r P cs")
    case True
    then have "list_visit (abs_path r) background lo (abs_path (r @ cs)) nd None (w, i, acc)
        = ((w, Suc i, acc), if is_dir (Some nd) then Skip else Go)"
      using rel nd by (simp add: list_visit_def off_way_def P_def Let_def)
    then show ?thesis using True by (intro exI [of _ w]) (simp add: listed_def off_way_def)
  next
    case on: False
    then have "list_visit (abs_path r) background lo (abs_path (r @ cs)) nd None (w, i, acc)
        = ((tick w, Suc i, acc @ map (node_object r) (filter (listed r P) [(r @ cs, nd)])), Go)"
      using rel nd os_stat_node [OF assms(1-3), of False] assms(4) False
      by (auto simp: list_visit_def off_way_def P_def Let_def listed_def node_object_def)
    then show ?thesis using on by (intro exI [of _ "tick w"]) simp
  qed
qed

text \<open>A directory that is skipped holds nothing the listing would report.\<close>

lemma off_way_empty:
  assumes "off_way r P cs" "prefix (r @ cs) p"
  shows "\<not> listed r P (p, m)"
proof -
  obtain ds where p: "p = r @ cs @ ds" using assms(2) by (auto simp: prefix_def)
  have "prefix (join_with ''/'' cs) (join_with ''/'' (cs @ ds))"
    using assms(1) by (cases "ds = []") (auto simp: join_with_append off_way_def)
  moreover have "prefix P (join_with ''/'' cs) \<or> prefix (join_with ''/'' cs) P"
    if "prefix (join_with ''/'' cs) z" "prefix P z" for z
    using prefix_same_cases [OF that(2,1)] .
  ultimately show ?thesis using assms(1) p by (auto simp: listed_def off_way_def has_prefix_iff prefix_def)
qed

lemma walk_list_subtree:
  assumes "\<And>c m w i acc. (c, m) \<in> set ents \<Longrightarrow> plain_world w r \<Longrightarrow> nodes w = t \<Longrightarrow>
      \<exists>w' i'. walk_dir n fn (abs_path (q @ [c])) m (w, i, acc)
        = ((w', i', acc @ map ob (filter pf (subtree n t (q @ [c]) m))), Go) \<and> ticked w w'"
    and "plain_world w r" "nodes w = t" "\<And>c m. (c, m) \<in> set ents \<Longrightarrow> proper_comp c" "proper q"
  shows "\<exists>w' i'. walk_list n fn (abs_path q) ents (w, i, acc)
        = ((w', i', acc @ map ob (filter pf (concat (map (\<lambda>(c, m). subtree n t (q @ [c]) m) ents)))), Go)
        \<and> ticked w w'"
  using assms(1-4)
proof (induction ents arbitrary: w i acc)
  case Nil
  then show ?case by (intro exI [of _ w]) simp
next
  case (Cons e ents)
  obtain c m where e: "e = (c, m)" by force
  have "path_join [abs_path q, c] = abs_path (q @ [c])"
    using path_join_under [OF assms(5), of "[c]"] Cons.prems(4) [of c m] e by simp
  moreover obtain w1 i1 where w1: "walk_dir n fn (abs_path (q @ [c])) m (w, i, acc)
        = ((w1, i1, acc @ map ob (filter pf (subtree n t (q @ [c]) m))), Go)" "ticked w w1"
    using Cons.prems(1) [of c m w i acc] Cons.prems(2,3) e by auto
  moreover have "\<exists>w' i'. walk_list n fn (abs_path q) ents (w1, i1, acc @ map ob (filter pf (subtree n t (q @ [c]) m)))
        = ((w', i', (acc @ map ob (filter pf (subtree n t (q @ [c]) m)))
             @ map ob (filter pf (concat (map (\<lambda>(c, m). subtree n t (q @ [c]) m) ents)))), Go)
        \<and> ticked w1 w'"
  proof (rule Cons.IH)
    show "plain_world w1 r" "nodes w1 = t"
      using plain_world_ticked [OF w1(2)] ticked_fields [OF w1(2)] Cons.prems(2,3) by auto
    show "proper_comp c" if "(c, m) \<in> set ents" for c m using Cons.prems(4) that by auto
  qed (use Cons.prems(1) in auto)
  ultimately show ?case using e ticked_trans by fastforce
qed

lemma walk_dir_subtree:
  assumes "plain_world w r" "nodes w = t" "proper cs" "node_at t (r @ cs) = Some nd" "lo_recursive lo"
    and "\<And>ds. node_at t ((r @ cs) @ ds) \<noteq> None \<Longrightarrow> length ds < n"
  defines "P \<equiv> list_prefix (lo_prefix lo)"
  shows "\<exists>w' i'. walk_dir n (list_visit (abs_path r) background lo) (abs_path (r @ cs)) nd (w, i, acc)
    = ((w', i', acc @ map (node_object r) (filter (listed r P) (subtree n t (r @ cs) nd))), Go) \<and> ticked w w'"
  using assms(1-4,6)
proof (induction n arbitrary: w cs nd i acc)
  case 0
  then show ?case using "0.prems"(5) [of "[]"] by simp
next
  case (Suc n)
  note wf = plain_worldD(1) [OF Suc.prems(1)]
  let ?fn = "list_visit (abs_path r) background lo"
  let ?acc1 = "acc @ map (node_object r) (filter (listed r P) [(r @ cs, nd)])"
  obtain w1 where v: "?fn (abs_path (r @ cs)) nd None (w, i, acc)
      = ((w1, Suc i, ?acc1), if off_way r P cs \<and> is_dir (Some nd) then Skip else Go)" "ticked w w1"
    using list_visit_node [OF Suc.prems(1,3) _ assms(5), of nd i acc] Suc.prems(2,4) unfolding P_def by blast
  note tf = ticked_fields [OF v(2)] and pw1 = plain_world_ticked [OF v(2) Suc.prems(1)]
  show ?case
  proof (cases "is_dir (Some nd)")
    case False
    then show ?thesis using v by (intro exI [of _ w1] exI [of _ "Suc i"]) (simp del: background_simp)
  next
    case d: True
    show ?thesis
    proof (cases "off_way r P cs")
      case True
      have "filter (listed r P) (subtree (Suc n) t (r @ cs) nd) = []"
      proof (rule filter_False, rule ballI)
        fix x assume "x \<in> set (subtree (Suc n) t (r @ cs) nd)"
        then show "\<not> listed r P x"
          using subtree_prefix [of "fst x" "snd x"] off_way_empty [OF True, of "fst x" "snd x"]
          by (simp del: subtree.simps)
      qed
      moreover have "walk_dir (Suc n) ?fn (abs_path (r @ cs)) nd (w, i, acc) = ((w1, Suc i, acc), Go)"
        using v(1) d True off_way_empty [OF True, of "r @ cs" nd] by simp
      ultimately show ?thesis using v(2)
        by (intro exI [of _ w1] exI [of _ "Suc i"]) (simp del: walk_dir.simps subtree.simps background_simp)
    next
      case on: False
      obtain pm mt where nd: "nd = Dir pm mt" using d by (cases nd) auto
      have rd: "os_read_dir (abs_path (r @ cs)) w1 = (tick w1, Inr (children t (r @ cs)))"
        using os_read_dir_node [OF pw1 Suc.prems(3)] Suc.prems(2,4) tf nd by simp
      have ch: "map_of t ((r @ cs) @ [c]) = Some m \<and> proper_comp c"
        if "(c, m) \<in> set (children t (r @ cs))" for c m
      proof -
        have m: "map_of t ((r @ cs) @ [c]) = Some m" using that children_set [of t c m "r @ cs"] wf Suc.prems(2) by simp
        then show ?thesis using wf_tree_parent(2) [of t "(r @ cs) @ [c]" m] wf Suc.prems(2) by simp
      qed
      have pq: "proper (r @ cs)" using plain_worldD(5) [OF Suc.prems(1)] Suc.prems(3) by simp
      have "\<exists>w' i'. walk_list n ?fn (abs_path (r @ cs)) (children t (r @ cs)) (tick w1, Suc i, ?acc1)
        = ((w', i', ?acc1 @ map (node_object r) (filter (listed r P)
             (concat (map (\<lambda>(c, m). subtree n t ((r @ cs) @ [c]) m) (children t (r @ cs)))))), Go)
        \<and> ticked (tick w1) w'"
      proof (rule walk_list_subtree [where r = r])
        fix c m w0 i0 acc0
        assume e: "(c, m) \<in> set (children t (r @ cs))" and w0: "plain_world w0 r" "nodes w0 = t"
        have "\<exists>w' i'. walk_dir n ?fn (abs_path (r @ (cs @ [c]))) m (w0, i0, acc0)
          = ((w', i', acc0 @ map (node_object r) (filter (listed r P) (subtree n t (r @ (cs @ [c])) m))), Go) \<and> ticked w0 w'"
        proof (rule Suc.IH [OF w0])
          show "proper (cs @ [c])" using Suc.prems(3) ch [OF e] by simp
          show "node_at t (r @ cs @ [c]) = Some m" using ch [OF e] by (simp add: node_at_def)
          show "length ds < n" if "node_at t ((r @ cs @ [c]) @ ds) \<noteq> None" for ds
            using Suc.prems(5) [of "c # ds"] that by simp
        qed
        then show "\<exists>w' i'. walk_dir n ?fn (abs_path ((r @ cs) @ [c])) m (w0, i0, acc0)
          = ((w', i', acc0 @ map (node_object r) (filter (listed r P) (subtree n t ((r @ cs) @ [c]) m))), Go) \<and> ticked w0 w'"
          by simp
      qed (use pw1 tf Suc.prems(2) ch pq in auto)
      then obtain w' i' where wl: "walk_list n ?fn (abs_path (r @ cs)) (children t (r @ cs)) (tick w1, Suc i, ?acc1)
        = ((w', i', ?acc1 @ map (node_object r) (filter (listed r P)
             (concat (map (\<lambda>(c, m). subtree n t ((r @ cs) @ [c]) m) (children t (r @ cs)))))), Go)"
        "ticked (tick w1) w'" by blast
      have "ticked w w'" using v(2) wl(2) ticked_tick ticked_trans by blast
      then show ?thesis using v(1) d on rd wl(1)
        by (intro exI [of _ w'] exI [of _ i']) (simp del: background_simp)
    qed
  qed
qed

text \<open>The listing of a prefix: the objects of the nodes below the root, sorted.\<close>

definition local_objects :: "string list \<Rightarrow> string \<Rightarrow> tree \<Rightarrow> object_info list" where
  "local_objects r P t =
     (case node_at t r of
        None \<Rightarrow> []
      | Some nd \<Rightarrow> map (node_object r) (filter (listed r P) (subtree (Suc (Suc (length t))) t r nd)))"

lemma local_objects_set:
  assumes "wf_tree t" "node_at t r \<noteq> None"
  shows "set (local_objects r P t) =
    {node_object r (r @ cs, m) |cs m. cs \<noteq> [] \<and> map_of t (r @ cs) = Some m \<and> has_prefix (join_with ''/'' cs) P}"
proof -
  obtain nd where nd: "node_at t r = Some nd" using assms(2) by blast
  have dp: "length cs < Suc (Suc (length t))" if "node_at t (r @ cs) \<noteq> None" for cs
    using tree_depth [OF assms(1) that] by simp
  have "set (local_objects r P t) = node_object r ` {x. listed r P x \<and> (\<exists>cs. fst x = r @ cs \<and> node_at t (fst x) = Some (snd x))}"
    using subtree_set [OF assms(1) nd dp] nd by (auto simp: local_objects_def simp del: subtree.simps)
  also have "{x. listed r P x \<and> (\<exists>cs. fst x = r @ cs \<and> node_at t (fst x) = Some (snd x))}
    = {(r @ cs, m) |cs m. cs \<noteq> [] \<and> map_of t (r @ cs) = Some m \<and> has_prefix (join_with ''/'' cs) P}"
    by (auto simp: listed_def node_at_def)
  also have "node_object r ` \<dots> =
    {node_object r (r @ cs, m) |cs m. cs \<noteq> [] \<and> map_of t (r @ cs) = Some m \<and> has_prefix (join_with ''/'' cs) P}"
    by blast
  finally show ?thesis .
qed

lemma local_objects_distinct:
  assumes "wf_tree t"
  shows "distinct (map oi_key (local_objects r P t))" "distinct (map oi_path (local_objects r P t))"
    "length (local_objects r P t) \<le> card (dom (map_of t))"
proof -
  show "distinct (map oi_key (local_objects r P t))"
  proof (cases "node_at t r")
    case None
    then show ?thesis by (simp add: local_objects_def)
  next
    case (Some nd)
    let ?xs = "filter (listed r P) (subtree (Suc (Suc (length t))) t r nd)"
    have dp: "length cs < Suc (Suc (length t))" if "node_at t (r @ cs) \<noteq> None" for cs
      using tree_depth [OF assms that] by simp
    have inj: "inj_on (\<lambda>p. join_with ''/'' (drop (length r) p)) (fst ` set ?xs)"
    proof (rule inj_onI)
      fix p q assume "p \<in> fst ` set ?xs" "q \<in> fst ` set ?xs"
        and e: "join_with ''/'' (drop (length r) p) = join_with ''/'' (drop (length r) q)"
      then obtain x y where x: "x \<in> set ?xs" "p = fst x" and y: "y \<in> set ?xs" "q = fst y" by blast
      obtain cs where cs: "p = r @ cs" "node_at t p = Some (snd x)" "cs \<noteq> []"
        using x subtree_set [OF assms Some dp, of p "snd x"] by (auto simp: listed_def simp del: subtree.simps)
      obtain ds where ds: "q = r @ ds" "node_at t q = Some (snd y)" "ds \<noteq> []"
        using y subtree_set [OF assms Some dp, of q "snd y"] by (auto simp: listed_def simp del: subtree.simps)
      have "proper p" "proper q"
        using wf_tree_parent(2) [OF assms, of p "snd x"] wf_tree_parent(2) [OF assms, of q "snd y"] cs ds
        by (simp_all add: node_at_def)
      then have "proper cs" "proper ds" using cs ds by auto
      then have "cs = ds" using e cs ds by (metis append_eq_conv_conj proper_split)
      then show "p = q" using cs ds by simp
    qed
    have "distinct (map fst ?xs)" using subtree_distinct [OF assms] by (simp add: distinct_map_filter del: subtree.simps)
    then have "distinct (map (\<lambda>p. join_with ''/'' (drop (length r) p)) (map fst ?xs))"
      using inj by (simp only: distinct_map set_map)
    moreover have "map oi_key (local_objects r P t) = map (\<lambda>p. join_with ''/'' (drop (length r) p)) (map fst ?xs)"
      using Some by (auto simp: local_objects_def node_object_def simp del: subtree.simps)
    ultimately show ?thesis by simp
  qed
  moreover have "map oi_path (local_objects r P t) = map oi_key (local_objects r P t)"
    by (auto simp: local_objects_def node_object_def simp del: subtree.simps split: option.split)
  ultimately show "distinct (map oi_path (local_objects r P t))" by (simp only:)
  show "length (local_objects r P t) \<le> card (dom (map_of t))"
  proof (cases "node_at t r")
    case None
    then show ?thesis by (simp add: local_objects_def)
  next
    case (Some nd)
    let ?xs = "filter (listed r P) (subtree (Suc (Suc (length t))) t r nd)"
    have dp: "length cs < Suc (Suc (length t))" if "node_at t (r @ cs) \<noteq> None" for cs
      using tree_depth [OF assms that] by simp
    have "fst ` set ?xs \<subseteq> dom (map_of t)"
      using subtree_set [OF assms Some dp]
      by (auto simp: listed_def node_at_def simp del: subtree.simps split: if_splits)
    then have "card (fst ` set ?xs) \<le> card (dom (map_of t))"
      by (rule card_mono [rotated]) (simp add: finite_dom_map_of)
    moreover have "card (fst ` set ?xs) = length ?xs"
      using subtree_distinct [OF assms] distinct_card [of "map fst ?xs"]
      by (simp add: distinct_map_filter del: subtree.simps)
    ultimately show ?thesis using Some by (simp add: local_objects_def del: subtree.simps)
  qed
qed

lemma local_list_plain:
  assumes "local_inv r w"
  shows "\<exists>w'. local_list (abs_path r) background p w
      = (w', Ok (sort_objects (local_objects r (list_prefix p) (nodes w)))) \<and> ticked w w'"
proof -
  note pw = local_invD(1) [OF assms]
  note wf = plain_worldD(1) [OF pw]
  have rd: "is_dir (node_at (nodes w) (r @ []))" using plain_worldD(4) [OF pw] by (auto simp: real_dir_def)
  then obtain nd where nd: "node_at (nodes w) (r @ []) = Some nd" by (cases "node_at (nodes w) (r @ [])") auto
  let ?lo = "list_all_under p" and ?t = "nodes w"
  let ?xs = "filter (listed r (list_prefix p)) (subtree (Suc (Suc (length ?t))) ?t r nd)"
  have "os_lstat (abs_path r) w = (tick w, Inr nd)"
    using os_stat_node [OF pw _ nd, of False] by simp
  moreover have "\<exists>w' i'. walk_dir (Suc (Suc (length ?t))) (list_visit (abs_path r) background ?lo) (abs_path (r @ [])) nd (tick w, 1, [])
    = ((w', i', [] @ map (node_object r) (filter (listed r (list_prefix (lo_prefix ?lo)))
        (subtree (Suc (Suc (length ?t))) ?t (r @ []) nd))), Go) \<and> ticked (tick w) w'"
  proof (rule walk_dir_subtree)
    show "length ds < Suc (Suc (length ?t))" if "node_at ?t ((r @ []) @ ds) \<noteq> None" for ds
      using tree_depth [OF wf that] by simp
  qed (use pw nd in \<open>simp_all add: list_all_under_def\<close>)
  then obtain w' i' where wd: "walk_dir (Suc (Suc (length ?t))) (list_visit (abs_path r) background ?lo) (abs_path r) nd (tick w, 1, [])
    = ((w', i', map (node_object r) ?xs), Go)" "ticked (tick w) w'"
    by (auto simp: list_all_under_def simp del: walk_dir.simps subtree.simps background_simp)
  have obs: "map (node_object r) ?xs = local_objects r (list_prefix p) ?t"
    using nd by (simp add: local_objects_def del: subtree.simps)
  have ks: "key_sorted (sort_objects (local_objects r (list_prefix p) ?t))"
    by (rule sort_objects_key_sorted [OF local_objects_distinct(1) [OF wf]])
  have "int (length (sort_objects (local_objects r (list_prefix p) ?t))) < 2 ^ 62"
  proof -
    have "length (sort_objects (local_objects r (list_prefix p) ?t)) \<le> card (dom (map_of ?t))"
      using local_objects_distinct(3) [OF wf] by (simp add: sort_objects_def)
    then show ?thesis using local_invD(3) [OF assms] by linarith
  qed
  note pg = paginate_everything [OF ks _ this, of 0 "''''", simplified]
  have "os_walk_dir (list_visit (abs_path r) background ?lo) (abs_path r) (w, 1, [])
      = ((w', i', local_objects r (list_prefix p) ?t), None)"
    using calculation wd(1) obs by (simp add: os_walk_dir_def del: walk_dir.simps background_simp)
  then have "local_list (abs_path r) background p w = (w', Ok (sort_objects (local_objects r (list_prefix p) ?t)))"
    using pg by (simp add: local_list_def local_list_with_options_def list_all_under_def)
  moreover have "ticked w w'" using wd(2) ticked_trans [OF ticked_tick] by blast
  ultimately show ?thesis by blast
qed

lemma local_objects_files:
  assumes "local_inv r w"
  shows "{(oi_path ob, oi_size ob) |ob. ob \<in> set (local_objects r P (nodes w)) \<and> \<not> oi_isdir ob}
    = {(k, int (length d)) |k d. local_view r w k = Some d \<and> has_prefix k P}" (is "?L = ?R")
proof -
  note pw = local_invD(1) [OF assms]
  note wf = plain_worldD(1) [OF pw]
  have nr: "node_at (nodes w) r \<noteq> None"
  proof -
    have "is_dir (node_at (nodes w) r)" using plain_worldD(4) [OF pw] by (auto simp: real_dir_def)
    then show ?thesis by (cases "node_at (nodes w) r") simp_all
  qed
  note st = local_objects_set [OF wf nr, of P]
  show ?thesis
  proof
    show "?L \<subseteq> ?R"
    proof
      fix x assume "x \<in> ?L"
      then obtain cs m where x: "cs \<noteq> []" "map_of (nodes w) (r @ cs) = Some m" "has_prefix (join_with ''/'' cs) P"
        "x = (join_with ''/'' cs, node_size m)" "\<not> is_dir (Some m)"
        unfolding st by (auto simp: node_object_def)
      have "\<not> is_link (Some m)" using link_free_node [OF plain_worldD(2) [OF pw], of "r @ cs"] x(2) by simp
      then obtain d mt pm where m: "m = File d mt pm" using x(5) by (cases m) auto
      have "split_on (CHR ''/'') (join_with ''/'' cs) = cs"
        using key_comps [OF local_invD(2) [OF assms x(2)] x(1)] .
      then have "local_view r w (join_with ''/'' cs) = Some d" using x(2) m by (simp add: local_view_def)
      then show "x \<in> ?R" using x m by auto
    qed
    show "?R \<subseteq> ?L"
    proof
      fix x assume "x \<in> ?R"
      then obtain k d where x: "x = (k, int (length d))" "local_view r w k = Some d" "has_prefix k P" by blast
      let ?cs = "split_on (CHR ''/'') k"
      obtain m pm where f: "map_of (nodes w) (r @ ?cs) = Some (File d m pm)"
        using local_stored(2) [OF assms x(2)] by blast
      let ?ob = "node_object r (r @ ?cs, File d m pm)"
      have "?ob \<in> set (local_objects r P (nodes w))" unfolding st
        by (intro CollectI exI [of _ ?cs] exI [of _ "File d m pm"]) (simp add: f x(3))
      moreover have "x = (oi_path ?ob, oi_size ?ob)" "\<not> oi_isdir ?ob"
        using x(1) by (simp_all add: node_object_def)
      ultimately show "x \<in> ?L" by blast
    qed
  qed
qed

section \<open>The driver keeps its contract\<close>

lemma local_object_store:
  "object_store (local_driver (abs_path r) ident) (local_inv r) local_key list_prefix (local_view r) (local_plain r) (\<lambda>d. True)"
proof
  fix w k d assume "local_inv r w" "local_view r w k = Some d"
  then show "local_key k = Some k" "local_plain r w k"
    by (rule local_stored_key, rule local_stored_plain)
next
  fix w p k d assume h: "local_inv r w" "local_key p = Some k" "local_view r w k = Some d"
  from local_read_hit [OF h] local_inv_ticked [OF _ h(1)] local_view_ticked
  show "\<exists>w'. dr_read (local_driver (abs_path r) ident) background p w = (w', Ok (bytes_reader d))
      \<and> local_inv r w' \<and> local_view r w' = local_view r w"
    by (fastforce simp: local_driver_def)
  from local_stat_hit [OF h] local_inv_ticked [OF _ h(1)] local_view_ticked
  show "\<exists>w' oi. dr_stat (local_driver (abs_path r) ident) background p w = (w', Ok oi) \<and> oi_path oi = k
      \<and> oi_size oi = int (length d) \<and> \<not> oi_isdir oi \<and> local_inv r w' \<and> local_view r w' = local_view r w"
    by (fastforce simp: local_driver_def)
next
  fix w p k assume h: "local_inv r w" "local_key p = Some k" "local_view r w k = None" "local_plain r w k"
  from local_read_miss [OF h] local_inv_ticked [OF _ h(1)] local_view_ticked
  show "\<exists>w' e. dr_read (local_driver (abs_path r) ident) background p w = (w', Err e)
      \<and> err_is e ErrNotFound \<and> local_inv r w' \<and> local_view r w' = local_view r w"
    by (fastforce simp: local_driver_def)
  from local_stat_miss [OF h] local_inv_ticked [OF _ h(1)] local_view_ticked
  show "\<exists>w' e. dr_stat (local_driver (abs_path r) ident) background p w = (w', Err e)
      \<and> err_is e ErrNotFound \<and> local_inv r w' \<and> local_view r w' = local_view r w"
    by (fastforce simp: local_driver_def)
next
  fix w p k d assume "local_inv r w" "local_key p = Some k" "local_plain r w k"
  from local_write_ok [OF this, of d]
  show "\<exists>w'. dr_write (local_driver (abs_path r) ident) background p (bytes_reader d) (int (length d)) w
      = (w', Ok ()) \<and> local_inv r w' \<and> local_view r w' = (local_view r w)(k \<mapsto> d) \<and> local_plain r w' k"
    by (simp add: local_driver_def)
next
  fix w p k assume "local_inv r w" "local_key p = Some k" "local_plain r w k"
  from local_delete_ok [OF this]
  show "\<exists>w'. dr_delete (local_driver (abs_path r) ident) background p w
      = (w', Ok ()) \<and> local_inv r w' \<and> local_view r w' = (local_view r w)(k := None) \<and> local_plain r w' k"
    by (simp add: local_driver_def)
next
  fix w p assume inv: "local_inv r w"
  obtain w' where l: "local_list (abs_path r) background p w
      = (w', Ok (sort_objects (local_objects r (list_prefix p) (nodes w))))" "ticked w w'"
    using local_list_plain [OF inv] by blast
  note d = local_objects_distinct(2) [OF plain_worldD(1) [OF local_invD(1) [OF inv]], of r "list_prefix p"]
  have "distinct (map oi_path (sort_objects (local_objects r (list_prefix p) (nodes w))))"
    using d by (simp add: distinct_map sort_objects_def)
  then show "\<exists>w' obs. dr_list (local_driver (abs_path r) ident) background p w = (w', Ok obs)
      \<and> local_inv r w' \<and> local_view r w' = local_view r w \<and> distinct (map oi_path obs)
      \<and> {(oi_path ob, oi_size ob) |ob. ob \<in> set obs \<and> \<not> oi_isdir ob}
        = {(k, int (length d)) |k d. local_view r w k = Some d \<and> has_prefix k (list_prefix p)}"
    using l local_inv_ticked [OF l(2) inv] local_view_ticked [OF l(2)] local_objects_files [OF inv]
    by (simp add: local_driver_def)
qed

interpretation local_fs: object_store "local_driver (abs_path r) ident" "local_inv r" local_key list_prefix
    "local_view r" "local_plain r" "\<lambda>d. True" for r ident
  by (rule local_object_store)

section \<open>Properties\<close>

text \<open>The contract holds in the world of the witnesses.\<close>

lemma plain_fs_inv: "local_inv [''srv''] plain_fs"
proof -
  have m: "map_of (nodes plain_fs) = [[''srv''] \<mapsto> Dir 488 0, [''srv'', ''a''] \<mapsto> Dir 488 0,
      [''srv'', ''a'', ''f''] \<mapsto> File [1, 2] 0 384]"
    by (auto simp: plain_fs_def fun_eq_iff)
  have "plain_world plain_fs [''srv'']"
    by (simp add: plain_world_def wf_tree_def link_free_def no_faults_def real_dir_def plain_fs_def demo_fs_def
        node_at_def proper_comp_def le_Suc_eq)
  moreover have "list_all plain_name cs" if "map_of (nodes plain_fs) ([''srv''] @ cs) \<noteq> None" for cs
  proof -
    have "cs = [] \<or> cs = [''a''] \<or> cs = [''a'', ''f'']" using that unfolding m by (auto split: if_splits)
    moreover have "plain_name ''a''" "plain_name ''f''" by code_simp+
    ultimately show ?thesis by auto
  qed
  moreover have "int (card (dom (map_of (nodes plain_fs)))) < 2 ^ 62"
    by (simp add: dom_map_of_conv_image_fst plain_fs_def)
  ultimately show ?thesis unfolding local_inv_def by blast
qed

lemma plain_fs_plain:
  "local_plain [''srv''] plain_fs ''a/f''" "local_plain [''srv''] plain_fs ''b/g''"
  by (simp_all add: local_plain_def clear_way_def plain_fs_def dom_map_of_conv_image_fst way_to_def
      atLeastAtMostSuc_conv Let_def take_Cons' less_Suc_eq card_insert_if)

text \<open>C7: Read after write on the local store.  On a tree without links and without failures, under
  a name no directory or file is in the way of, a write of the announced size succeeds, the object
  can be read back under every path with the same normal form, and nothing else in the store
  changed.\<close>

theorem local_read_after_write:
  assumes "local_inv r w" "local_key p = Some k" "local_plain r w k" "local_key q = Some k"
  shows "\<exists>w1 w2. local_write (abs_path r) background p (bytes_reader d) (int (length d)) w = (w1, Ok ())
    \<and> local_read (abs_path r) background q w1 = (w2, Ok (bytes_reader d))
    \<and> local_inv r w2 \<and> local_view r w2 = (local_view r w)(k \<mapsto> d)"
  using local_fs.read_after_write [OF assms] by (simp add: local_driver_def)

lemma local_read_after_write_witness:
  "\<exists>w1 w2. local_write (abs_path [''srv'']) background ''b//g'' (bytes_reader [9]) (int (length [9::byte])) plain_fs = (w1, Ok ())
    \<and> local_read (abs_path [''srv'']) background ''./b/g'' w1 = (w2, Ok (bytes_reader [9]))
    \<and> local_inv [''srv''] w2 \<and> local_view [''srv''] w2 = (local_view [''srv''] plain_fs)(''b/g'' \<mapsto> [9])"
  by (rule local_read_after_write [OF plain_fs_inv _ plain_fs_plain(2)]) code_simp+

text \<open>C17: The listing of the local store is exact: it is sorted by key without repetition, and its
  files are the stored objects whose key starts with the cleaned prefix, each with its size.\<close>

theorem local_list_exact:
  assumes "local_inv r w"
  shows "\<exists>w' obs. local_list (abs_path r) background p w = (w', Ok obs) \<and> ticked w w' \<and> key_sorted obs
    \<and> {(oi_path ob, oi_size ob) |ob. ob \<in> set obs \<and> \<not> oi_isdir ob}
      = {(k, int (length d)) |k d. local_view r w k = Some d \<and> has_prefix k (list_prefix p)}"
proof -
  note wf = plain_worldD(1) [OF local_invD(1) [OF assms]]
  show ?thesis
    using local_list_plain [OF assms, of p] local_objects_files [OF assms]
      sort_objects_key_sorted [OF local_objects_distinct(1) [OF wf]] by fastforce
qed

lemma local_list_exact_witness:
  "\<exists>w' obs. local_list (abs_path [''srv'']) background ''a'' plain_fs = (w', Ok obs) \<and> ticked plain_fs w' \<and> key_sorted obs
    \<and> {(oi_path ob, oi_size ob) |ob. ob \<in> set obs \<and> \<not> oi_isdir ob}
      = {(k, int (length d)) |k d. local_view [''srv''] plain_fs k = Some d \<and> has_prefix k (list_prefix ''a'')}"
  by (rule local_list_exact [OF plain_fs_inv])

text \<open>C34: Deleting is idempotent: a delete succeeds whether or not the object is there, leaves every
  other object, and a second delete succeeds too and changes nothing.\<close>

theorem local_delete_idempotent:
  assumes "local_inv r w" "local_key p = Some k" "local_plain r w k"
  shows "\<exists>w1 w2. local_delete (abs_path r) background p w = (w1, Ok ()) \<and> local_view r w1 = (local_view r w)(k := None)
    \<and> local_delete (abs_path r) background p w1 = (w2, Ok ()) \<and> local_view r w2 = local_view r w1"
proof -
  obtain w1 where 1: "local_delete (abs_path r) background p w = (w1, Ok ())" "local_inv r w1"
    "local_view r w1 = (local_view r w)(k := None)" "local_plain r w1 k"
    using local_delete_ok [OF assms] by blast
  obtain w2 where 2: "local_delete (abs_path r) background p w1 = (w2, Ok ())"
    "local_view r w2 = (local_view r w1)(k := None)"
    using local_delete_ok [OF 1(2) assms(2) 1(4)] by blast
  have "local_view r w2 = local_view r w1" unfolding 2(2) 1(3) by simp
  then show ?thesis using 1(1,3) 2(1) by blast
qed

lemma local_delete_idempotent_witness:
  "\<exists>w1 w2. local_delete (abs_path [''srv'']) background ''a/f'' plain_fs = (w1, Ok ())
    \<and> local_view [''srv''] w1 = (local_view [''srv''] plain_fs)(''a/f'' := None)
    \<and> local_delete (abs_path [''srv'']) background ''a/f'' w1 = (w2, Ok ()) \<and> local_view [''srv''] w2 = local_view [''srv''] w1"
  by (rule local_delete_idempotent [OF plain_fs_inv _ plain_fs_plain(1)]) code_simp

end
