(* ===== verification/Local_Faults.thy ===== *)
theory Local_Faults
  imports Local_Driver
begin

text \<open>
  Writes of the local driver when any system call may fail at any time, on a tree without symbolic
  links: no reader ever sees a partly written object and no other file changes.
\<close>

section \<open>Calls that may fail\<close>

definition calm :: "fs \<Rightarrow> fs" where
  "calm w = w\<lparr>faults := \<lambda>_. None\<rparr>"

definition stormy :: "fs \<Rightarrow> fs \<Rightarrow> fs" where
  "stormy w u = u\<lparr>faults := faults w\<rparr>"

lemma calm_simps [simp]:
  "nodes (calm w) = nodes w" "ticks (calm w) = ticks w" "now (calm w) = now w" "cwd (calm w) = cwd w"
  "entropy (calm w) = entropy w" "no_faults (calm w)" "nodes (stormy w u) = nodes u" "faults (stormy w u) = faults w"
  "resolve (calm w) = resolve w"
  by (simp_all add: calm_def stormy_def no_faults_def resolve_def path_start_def fun_eq_iff)

lemma stormy_tick_calm [simp]:
  "stormy w ((calm w)\<lparr>ticks := n\<rparr>) = w\<lparr>ticks := n\<rparr>"
  "stormy w ((calm w)\<lparr>ticks := n, nodes := t\<rparr>) = w\<lparr>ticks := n, nodes := t\<rparr>"
  "stormy w (put_node q nd u) = put_node q nd (stormy w u)"
  "stormy w (del_node q u) = del_node q (stormy w u)"
  by (cases w; simp add: stormy_def calm_def put_node_def del_node_def)+

text \<open>Either the call fails and only time passes, or it does what it does when nothing fails.\<close>

lemma sys_cases:
  assumes "\<And>u f. act (u\<lparr>faults := f\<rparr>) = map_prod (\<lambda>x. x\<lparr>faults := f\<rparr>) id (act u)"
  shows "(\<exists>e. sys act w = (tick w, Inl e)) \<or> sys act w = map_prod (stormy w) id (sys act (calm w))"
proof (cases "faults w (ticks w)")
  case None
  have "sys act w = act (tick w)" using None by (simp add: sys_def)
  also have "tick w = (tick (calm w))\<lparr>faults := faults w\<rparr>" by (cases w) (simp add: calm_def)
  also have "act \<dots> = map_prod (stormy w) id (act (tick (calm w)))"
    unfolding assms by (simp add: stormy_def [abs_def])
  also have "act (tick (calm w)) = sys act (calm w)" by (simp add: sys_plain)
  finally show ?thesis by blast
next
  case (Some e)
  then show ?thesis by (simp add: sys_def)
qed

lemma resolve_faults [simp]: "resolve (w\<lparr>faults := f\<rparr>) = resolve w"
  by (simp add: resolve_def path_start_def fun_eq_iff)

lemma node_faults [simp]:
  "put_node q n (w\<lparr>faults := f\<rparr>) = (put_node q n w)\<lparr>faults := f\<rparr>"
  "del_node q (w\<lparr>faults := f\<rparr>) = (del_node q w)\<lparr>faults := f\<rparr>"
  by (simp_all add: put_node_def del_node_def)

lemma os_create_cases:
  "(\<exists>e. os_create p m w = (tick w, Inl e)) \<or> os_create p m w = map_prod (stormy w) id (os_create p m (calm w))"
  unfolding os_create_def with_path_def
  by (rule sys_cases) (auto split: sum.split option.split node.split)

lemma os_write_cases:
  "(\<exists>e. os_write q d w = (tick w, Inl e)) \<or> os_write q d w = map_prod (stormy w) id (os_write q d (calm w))"
  unfolding os_write_def by (rule sys_cases) (auto split: option.split node.split)

lemma os_remove_cases:
  "(\<exists>e. os_remove p w = (tick w, Inl e)) \<or> os_remove p w = map_prod (stormy w) id (os_remove p (calm w))"
  unfolding os_remove_def with_path_def
  by (rule sys_cases) (auto split: sum.split option.split node.split)

lemma os_rename_cases:
  "(\<exists>e. os_rename a b w = (tick w, Inl e)) \<or> os_rename a b w = map_prod (stormy w) id (os_rename a b (calm w))"
  unfolding os_rename_def by (rule sys_cases) (auto split: sum.split option.split)

lemma os_mkdir_all_cases:
  "(\<exists>e. os_mkdir_all p m w = (tick w, Inl e)) \<or> os_mkdir_all p m w = map_prod (stormy w) id (os_mkdir_all p m (calm w))"
  unfolding os_mkdir_all_def by (rule sys_cases) (auto simp: path_start_def split: sum.split)

lemma os_rand_ticked: "os_rand n w = (w', x) \<Longrightarrow> w' = tick w"
  by (auto simp: os_rand_def sys_def Let_def split: option.splits)

lemma os_sync_close_ticked: "os_sync q w = (w', x) \<Longrightarrow> w' = tick w" "os_close q w = (w', x) \<Longrightarrow> w' = tick w"
  by (auto simp: os_sync_def os_close_def sys_def Let_def split: option.splits)

section \<open>The tree during a write\<close>

definition calm_tree :: "fs \<Rightarrow> string list \<Rightarrow> bool" where
  "calm_tree w r \<longleftrightarrow> wf_tree (nodes w) \<and> link_free (nodes w) \<and> real_dir (nodes w) r"

lemma plain_calm [simp]: "plain_world (calm w) r = calm_tree w r"
  by (simp add: plain_world_def calm_tree_def)

lemma calm_tree_ticks [simp]: "calm_tree (w\<lparr>ticks := n\<rparr>) r = calm_tree w r"
  by (simp add: calm_tree_def)

lemma calm_tree_put:
  assumes "calm_tree w r" "q \<noteq> []" "proper q" "is_dir (node_at (nodes w) (butlast q))"
    and "\<not> is_dir (map_of (nodes w) q)" "\<not> is_link (Some n)"
  shows "calm_tree (put_node q n w) r"
  using assms wf_tree_put [of "nodes w" q n] link_free_put [of "nodes w" n q] real_dir_put [of "nodes w" r n q]
  by (simp add: calm_tree_def put_node_def)

lemma calm_tree_del:
  "calm_tree w r \<Longrightarrow> \<not> is_dir (map_of (nodes w) q) \<Longrightarrow> calm_tree (del_node q w) r"
  using wf_tree_del [of "nodes w" q] link_free_del [of "nodes w" q] real_dir_del [of "nodes w" r q]
  by (simp add: calm_tree_def del_node_def)

text \<open>
  The situation around one write: the directory \<open>dir\<close> below the root, the temporary name \<open>a\<close>, the
  name \<open>b\<close>; \<open>same_elsewhere\<close> says that two worlds have the same nodes except at these two names.
\<close>

definition write_site :: "fs \<Rightarrow> string list \<Rightarrow> string list \<Rightarrow> string \<Rightarrow> string \<Rightarrow> bool" where
  "write_site w r cs a b \<longleftrightarrow> calm_tree w r \<and> proper r \<and> proper cs \<and> proper_comp a \<and> proper_comp b \<and> a \<noteq> b \<and>
     is_dir (node_at (nodes w) (r @ cs)) \<and> \<not> is_dir (map_of (nodes w) (r @ cs @ [a])) \<and>
     \<not> is_dir (map_of (nodes w) (r @ cs @ [b]))"

definition same_elsewhere :: "string list list \<Rightarrow> fs \<Rightarrow> fs \<Rightarrow> bool" where
  "same_elsewhere qs w w' \<longleftrightarrow> (\<forall>x. x \<notin> set qs \<longrightarrow> map_of (nodes w') x = map_of (nodes w) x)"

lemma same_elsewhere_refl [simp]: "same_elsewhere qs w w"
  by (simp add: same_elsewhere_def)

lemma nodes_put_del [simp]:
  "nodes (put_node q nd w) = AList.update q nd (nodes w)" "nodes (del_node q w) = AList.delete q (nodes w)"
  by (simp_all add: put_node_def del_node_def)

lemma same_elsewhere_trans:
  "same_elsewhere qs w w1 \<Longrightarrow> same_elsewhere qs w1 w2 \<Longrightarrow> same_elsewhere qs w w2"
  by (simp add: same_elsewhere_def)

lemma same_elsewhere_simps [simp]:
  "same_elsewhere qs w (w1\<lparr>ticks := n\<rparr>) = same_elsewhere qs w w1"
  "q \<in> set qs \<Longrightarrow> same_elsewhere qs w (put_node q nd w1) = same_elsewhere qs w w1"
  "q \<in> set qs \<Longrightarrow> same_elsewhere qs w (del_node q w1) = same_elsewhere qs w w1"
  by (auto simp: same_elsewhere_def put_node_def del_node_def)

lemma write_site_step:
  assumes "write_site w r cs a b"
  shows "write_site (w\<lparr>ticks := n\<rparr>) r cs a b"
    and "c \<in> {a, b} \<Longrightarrow> write_site (put_node (r @ cs @ [c]) (File d m pm) w) r cs a b"
    and "c \<in> {a, b} \<Longrightarrow> write_site (del_node (r @ cs @ [c]) w) r cs a b"
proof -
  note ws = assms [unfolded write_site_def]
  show "write_site (w\<lparr>ticks := n\<rparr>) r cs a b" using ws by (simp add: write_site_def)
  have c: "proper (r @ cs @ [c])" "is_dir (node_at (nodes w) (butlast (r @ cs @ [c])))"
    "\<not> is_dir (map_of (nodes w) (r @ cs @ [c]))" "r @ cs @ [c] \<noteq> []" if "c \<in> {a, b}"
    using that ws by (auto simp: butlast_append)
  show "write_site (put_node (r @ cs @ [c]) (File d m pm) w) r cs a b" if h: "c \<in> {a, b}"
  proof -
    have "calm_tree (put_node (r @ cs @ [c]) (File d m pm) w) r"
      by (rule calm_tree_put) (use c [OF h] ws in simp_all)
    then show ?thesis using ws h by (auto simp: write_site_def put_node_def node_at_def)
  qed
  show "write_site (del_node (r @ cs @ [c]) w) r cs a b" if h: "c \<in> {a, b}"
  proof -
    have "calm_tree (del_node (r @ cs @ [c]) w) r"
      by (rule calm_tree_del) (use c [OF h] ws in simp_all)
    then show ?thesis using ws h by (auto simp: write_site_def del_node_def node_at_def)
  qed
qed

text \<open>Removing one of the two names: it is gone, or nothing happened.\<close>

lemma remove_site:
  assumes "write_site w r cs a b" "c \<in> {a, b}" "os_remove (abs_path (r @ cs @ [c])) w = (w', x)"
  shows "w' = tick w \<or> w' = del_node (r @ cs @ [c]) (tick w)"
proof -
  note ws = assms(1) [unfolded write_site_def]
  have pw: "plain_world (calm w) r" using ws by simp
  have pc: "proper (cs @ [c])" using ws assms(2) by auto
  have d: "is_dir (map_of (nodes w) (r @ take k (cs @ [c])))" if k: "0 < k" "k < length (cs @ [c])" for k
  proof (cases "k = length cs")
    case True
    then show ?thesis using ws k by (auto simp: node_at_def)
  next
    case False
    then have ne: "r @ cs \<noteq> []" "k < length cs" using k by auto
    obtain nd where "map_of (nodes w) (r @ cs) = Some nd"
      using ws ne by (auto simp: node_at_def elim: is_dir.elims)
    from wf_tree_take [OF plain_worldD(1) [OF pw, simplified] this, of "length r + k"] show ?thesis
      using ne k by (auto simp: node_at_def)
  qed
  then have cw: "clear_way (nodes (calm w)) r (cs @ [c])" unfolding clear_way_def by simp
  have nd: "\<not> is_dir (map_of (nodes (calm w)) (r @ cs @ [c]))" using ws assms(2) by auto
  have ne: "r @ cs @ [c] \<noteq> []" by simp
  from os_remove_plain [OF pw pc cw ne nd] os_remove_cases [of "abs_path (r @ cs @ [c])" w] assms(3)
  show ?thesis by (auto split: if_splits)
qed

lemma rename_site:
  assumes "write_site w r cs a b" "map_of (nodes w) (r @ cs @ [a]) = Some (File d m pm)"
    and "os_rename (abs_path (r @ cs @ [a])) (abs_path (r @ cs @ [b])) w = (w', x)"
  shows "(w' = tick w \<and> (\<exists>e. x = Inl e)) \<or>
    (w' = put_node (r @ cs @ [b]) (File d m pm) (del_node (r @ cs @ [a]) (tick w)) \<and> x = Inr ())"
proof -
  note ws = assms(1) [unfolded write_site_def]
  have "os_rename (abs_path (r @ cs @ [a])) (abs_path (r @ cs @ [b])) (calm w) =
      (put_node (r @ cs @ [b]) (File d m pm) (del_node (r @ cs @ [a]) (tick (calm w))), Inr ())"
    by (rule os_rename_plain) (use ws assms(2) in simp_all)
  with os_rename_cases [of "abs_path (r @ cs @ [a])" "abs_path (r @ cs @ [b])" w] assms(3)
  show ?thesis by auto
qed

text \<open>After a failed attempt the target is kept or removed.\<close>

lemma failed_attempt_site:
  assumes "write_site w r cs a b" "map_of (nodes w) (r @ cs @ [a]) = Some (File d m pm)"
    and "os_remove (abs_path (r @ cs @ [b])) (tick w) = (w2, z)"
  shows "write_site w2 r cs a b" "map_of (nodes w2) (r @ cs @ [a]) = Some (File d m pm)"
    "map_of (nodes w2) (r @ cs @ [b]) \<in> {map_of (nodes w) (r @ cs @ [b]), None}"
    "same_elsewhere [r @ cs @ [a], r @ cs @ [b]] w w2"
proof -
  have w2: "w2 = tick (tick w) \<or> w2 = del_node (r @ cs @ [b]) (tick (tick w))"
    using remove_site [OF write_site_step(1) [OF assms(1)] _ assms(3)] by simp
  show "write_site w2 r cs a b"
    using w2 write_site_step(1) [OF assms(1)] write_site_step(3) [OF write_site_step(1) [OF assms(1)], of b]
    by auto
  have "a \<noteq> b" using assms(1) by (simp add: write_site_def)
  then show "map_of (nodes w2) (r @ cs @ [a]) = Some (File d m pm)"
    using w2 assms(2) by (auto simp: del_node_def)
  show "map_of (nodes w2) (r @ cs @ [b]) \<in> {map_of (nodes w) (r @ cs @ [b]), None}"
    "same_elsewhere [r @ cs @ [a], r @ cs @ [b]] w w2"
    using w2 by (auto simp: del_node_def same_elsewhere_def)
qed

text \<open>The retried rename: success moves the file, failure keeps the old object or removes it.\<close>

lemma rename_retry_site:
  assumes "write_site w r cs a b" "map_of (nodes w) (r @ cs @ [a]) = Some (File d m pm)"
    and "rename_retry (Suc n) (abs_path (r @ cs @ [a])) (abs_path (r @ cs @ [b])) w = (w', x)"
  shows "same_elsewhere [r @ cs @ [a], r @ cs @ [b]] w w' \<and> write_site w' r cs a b \<and>
    (case x of None \<Rightarrow> map_of (nodes w') (r @ cs @ [b]) = Some (File d m pm)
     | Some e \<Rightarrow> map_of (nodes w') (r @ cs @ [b]) \<in> {map_of (nodes w) (r @ cs @ [b]), None})"
  using assms
proof (induction n arbitrary: w)
  case 0
  obtain w1 y where rn: "os_rename (abs_path (r @ cs @ [a])) (abs_path (r @ cs @ [b])) w = (w1, y)" by force
  obtain w2 z where rm: "os_remove (abs_path (r @ cs @ [b])) (tick w) = (w2, z)" by force
  from rename_site [OF "0.prems"(1,2) rn] show ?case
  proof
    assume h: "w1 = tick w \<and> (\<exists>e. y = Inl e)"
    then show ?thesis using "0.prems"(3) rn rm failed_attempt_site [OF "0.prems"(1,2) rm] by auto
  next
    assume h: "w1 = put_node (r @ cs @ [b]) (File d m pm) (del_node (r @ cs @ [a]) (tick w)) \<and> y = Inr ()"
    have "write_site w1 r cs a b"
      unfolding conjunct1 [OF h] by (intro write_site_step "0.prems") auto
    then show ?thesis using "0.prems"(3) rn h by auto
  qed
next
  case (Suc n)
  obtain w1 y where rn: "os_rename (abs_path (r @ cs @ [a])) (abs_path (r @ cs @ [b])) w = (w1, y)" by force
  obtain w2 z where rm: "os_remove (abs_path (r @ cs @ [b])) (tick w) = (w2, z)" by force
  note fa = failed_attempt_site [OF Suc.prems(1,2) rm]
  from rename_site [OF Suc.prems(1,2) rn] show ?case
  proof
    assume h: "w1 = tick w \<and> (\<exists>e. y = Inl e)"
    have "rename_retry (Suc n) (abs_path (r @ cs @ [a])) (abs_path (r @ cs @ [b])) w2 = (w', x)"
      using Suc.prems(3) rn h rm by auto
    from Suc.IH [OF fa(1,2) this] fa(3,4) show ?thesis
      using same_elsewhere_trans [of _ w w2 w'] by (auto split: option.splits)
  next
    assume h: "w1 = put_node (r @ cs @ [b]) (File d m pm) (del_node (r @ cs @ [a]) (tick w)) \<and> y = Inr ()"
    have "write_site w1 r cs a b"
      unfolding conjunct1 [OF h] by (intro write_site_step Suc.prems) auto
    then show ?thesis using Suc.prems(3) rn h by auto
  qed
qed

text \<open>Copying into the temporary file, whole or in part.\<close>

lemma os_copy_site:
  assumes "write_site w r cs a b" "map_of (nodes w) (r @ cs @ [a]) = Some (File d0 m pm)"
    and "os_copy (r @ cs @ [a]) d w = (w', x)"
  shows "write_site w' r cs a b \<and> same_elsewhere [r @ cs @ [a]] w w' \<and>
    (\<exists>d1 m1. map_of (nodes w') (r @ cs @ [a]) = Some (File d1 m1 pm) \<and> (x = Inr () \<longrightarrow> d1 = d0 @ d))"
  using assms
proof (induction "r @ cs @ [a]" d w arbitrary: d0 m rule: os_copy.induct)
  case (1 d w)
  let ?q = "r @ cs @ [a]"
  show ?case
  proof (cases "d = []")
    case True
    then show ?thesis using "1.prems" by (auto simp: os_copy.simps [of ?q d])
  next
    case False
    obtain w1 y where wr: "os_write ?q (take 65536 d) w = (w1, y)" by force
    have "os_write ?q (take 65536 d) (calm w) =
        (put_node ?q (File (d0 @ take 65536 d) (now w (Suc (ticks w))) pm) (tick (calm w)), Inr ())"
      using "1.prems"(2) by (simp add: os_write_def sys_plain node_at_def)
    with os_write_cases [of ?q "take 65536 d" w] wr
    consider e where "w1 = tick w" "y = Inl e"
      | "w1 = put_node ?q (File (d0 @ take 65536 d) (now w (Suc (ticks w))) pm) (tick w)" "y = Inr ()"
      by auto
    then show ?thesis
    proof cases
      case 1
      then show ?thesis using "1.prems" wr False write_site_step(1)
        by (auto simp: os_copy.simps [of ?q d])
    next
      case 2
      have ws: "write_site w1 r cs a b" unfolding 2(1) by (intro write_site_step "1.prems") auto
      have f: "map_of (nodes w1) ?q = Some (File (d0 @ take 65536 d) (now w (Suc (ticks w))) pm)"
        using 2(1) by simp
      have "os_copy ?q (drop 65536 d) w1 = (w', x)" using "1.prems"(3) wr 2 False by (simp add: os_copy.simps [of ?q d])
      from "1.hyps" [OF False wr [symmetric] 2(2) ws f this]
      have "write_site w' r cs a b \<and> same_elsewhere [?q] w1 w' \<and>
        (\<exists>d1 m1. map_of (nodes w') ?q = Some (File d1 m1 pm) \<and> (x = Inr () \<longrightarrow> d1 = (d0 @ take 65536 d) @ drop 65536 d))" .
      moreover have "same_elsewhere [?q] w w1" using 2(1) by simp
      ultimately show ?thesis using same_elsewhere_trans by auto
    qed
  qed
qed

lemma abandon_site:
  assumes "write_site w r cs a b" "w' = abandon closed q (abs_path (r @ cs @ [a])) w"
  shows "same_elsewhere [r @ cs @ [a]] w w'"
proof -
  obtain u where u: "write_site u r cs a b" "same_elsewhere [r @ cs @ [a]] w u"
    "w' = fst (os_remove (abs_path (r @ cs @ [a])) u)"
  proof (cases closed)
    case True
    then show thesis using that assms by (simp add: abandon_def)
  next
    case False
    obtain w1 y where c: "os_close q w = (w1, y)" by force
    then have "w1 = tick w" by (rule os_sync_close_ticked)
    then show thesis using that [of w1] assms False c write_site_step(1) [OF assms(1)] by (simp add: abandon_def)
  qed
  obtain w2 z where rm: "os_remove (abs_path (r @ cs @ [a])) u = (w2, z)" by force
  from remove_site [OF u(1) _ rm] u(2,3) rm show ?thesis by (auto simp: same_elsewhere_def)
qed

text \<open>What a write may have done to the tree: \<open>old\<close> is what was stored under the name before.\<close>

definition write_effect :: "string list list \<Rightarrow> string list \<Rightarrow> reader \<Rightarrow> int \<Rightarrow> fs \<Rightarrow> fs \<Rightarrow> unit res \<Rightarrow> bool" where
  "write_effect qs q rd sz w w' res \<longleftrightarrow> same_elsewhere qs w w' \<and>
     (case res of
        Inr _ \<Rightarrow> rd_err rd = None \<and> sz \<le> int (length (rd_data rd)) \<and>
          (\<exists>m. map_of (nodes w') q = Some (File (rd_data rd) m 384))
      | Inl e \<Rightarrow> map_of (nodes w') q \<in> {map_of (nodes w) q, None})"

lemma write_effect_trans:
  "same_elsewhere [qa] w w1 \<Longrightarrow> qa \<noteq> q \<Longrightarrow> qa \<in> set qs \<Longrightarrow> write_effect qs q rd sz w1 w' res
    \<Longrightarrow> write_effect qs q rd sz w w' res"
  by (auto simp: write_effect_def same_elsewhere_def split: sum.splits)

lemma write_effect_failed:
  "same_elsewhere [qa] w w' \<Longrightarrow> qa \<noteq> q \<Longrightarrow> qa \<in> set qs \<Longrightarrow> write_effect qs q rd sz w w' (Inl e)"
  by (auto simp: write_effect_def same_elsewhere_def)

lemma commit_temp_site:
  assumes "write_site w r cs a b" "map_of (nodes w) (r @ cs @ [a]) = None"
    and "commit_temp p (abs_path (r @ cs @ [b])) (abs_path (r @ cs @ [a])) rd sz w = (w', res)"
  shows "write_effect [r @ cs @ [a], r @ cs @ [b]] (r @ cs @ [b]) rd sz w w' res"
proof -
  let ?qa = "r @ cs @ [a]" and ?qb = "r @ cs @ [b]"
  note ws = assms(1) [unfolded write_site_def]
  have ab: "?qa \<noteq> ?qb" using ws by simp
  have failed: "write_effect [?qa, ?qb] ?qb rd sz w u (Inl e)" if "same_elsewhere [?qa] w u" for u e
    by (rule write_effect_failed [OF that ab]) simp
  have aband: "same_elsewhere [?qa] w (abandon cl ?qa (abs_path ?qa) u)"
    if "same_elsewhere [?qa] w u" "write_site u r cs a b" for cl u
    using abandon_site [OF that(2) refl] same_elsewhere_trans [OF that(1)] by blast
  obtain w1 y1 where cr: "os_create (abs_path ?qa) 384 w = (w1, y1)" by force
  have "os_create (abs_path ?qa) 384 (calm w) =
      (put_node ?qa (File [] (now w (Suc (ticks w))) 384) (tick (calm w)), Inr ?qa)"
    using os_create_plain [of "calm w" r cs a 384] ws assms(2) by simp
  with os_create_cases [of "abs_path ?qa" 384 w] cr
  consider e where "w1 = tick w" "y1 = Inl e"
    | "w1 = put_node ?qa (File [] (now w (Suc (ticks w))) 384) (tick w)" "y1 = Inr ?qa" by auto
  then show ?thesis
  proof cases
    case 1
    then show ?thesis using assms(3) cr failed by (auto simp: commit_temp_def Let_def)
  next
    case 2
    have ws1: "write_site w1 r cs a b" unfolding 2(1) by (intro write_site_step assms(1)) auto
    have f1: "map_of (nodes w1) ?qa = Some (File [] (now w (Suc (ticks w))) 384)" using 2(1) by simp
    have s1: "same_elsewhere [?qa] w w1" using 2(1) by simp
    obtain w2 y2 where cp: "os_copy ?qa (rd_data rd) w1 = (w2, y2)" by force
    obtain d1 m1 where ws2: "write_site w2 r cs a b" and s2': "same_elsewhere [?qa] w1 w2"
      and f2: "map_of (nodes w2) ?qa = Some (File d1 m1 384)" "y2 = Inr () \<longrightarrow> d1 = rd_data rd"
      using os_copy_site [OF ws1 f1 cp] by auto
    have s2: "same_elsewhere [?qa] w w2" by (rule same_elsewhere_trans [OF s1 s2'])
    obtain w3 y3 where sy: "os_sync ?qa w2 = (w3, y3)" by force
    obtain w4 y4 where cl: "os_close ?qa w3 = (w4, y4)" by force
    have w34: "w3 = tick w2" "w4 = tick w3" using os_sync_close_ticked sy cl by blast+
    have ws34: "write_site w3 r cs a b" "write_site w4 r cs a b" unfolding w34 by (intro write_site_step ws2)+
    have s34: "same_elsewhere [?qa] w w3" "same_elsewhere [?qa] w w4" using s2 by (simp_all add: w34)
    obtain w5 y5 where rn: "rename_retry 20 (abs_path ?qa) (abs_path ?qb) w4 = (w5, y5)" by force
    show ?thesis
    proof (cases "y2 = Inr () \<and> rd_err rd = None \<and> \<not> (0 \<le> sz \<and> int (length (rd_data rd)) < sz)
        \<and> y3 = Inr () \<and> y4 = Inr ()")
      case False
      then have "\<exists>u c e. (u = w2 \<or> u = w3 \<or> u = w4) \<and> res = Inl e \<and> w' = abandon c ?qa (abs_path ?qa) u"
        using assms(3) cr 2 cp sy cl by (auto simp: commit_temp_def Let_def split: sum.splits option.splits if_splits)
      then show ?thesis using failed aband s2 s34 ws2 ws34 by auto
    next
      case True
      then have f4: "map_of (nodes w4) ?qa = Some (File (rd_data rd) m1 384)" using f2 by (simp add: w34)
      have rn': "rename_retry (Suc 19) (abs_path ?qa) (abs_path ?qb) w4 = (w5, y5)" using rn by simp
      note rr = rename_retry_site [OF ws34(2) f4 rn']
      show ?thesis
      proof (cases y5)
        case None
        then have "w' = w5" "res = Inr ()" using assms(3) cr 2 cp sy cl True rn
          by (auto simp: commit_temp_def Let_def)
        moreover have "write_effect [?qa, ?qb] ?qb rd sz w4 w5 (Inr ())"
          using rr None True by (auto simp: write_effect_def)
        ultimately show ?thesis using write_effect_trans [OF s34(2) ab] by simp
      next
        case (Some n)
        obtain e where w': "w' = abandon True ?qa (abs_path ?qa) w5" "res = Inl e"
          using assms(3) cr 2 cp sy cl True rn Some by (auto simp: commit_temp_def Let_def)
        have "same_elsewhere [?qa] w5 w'" unfolding w'(1)
          using abandon_site [of w5 r cs a b _ True ?qa] rr by simp
        then have "map_of (nodes w') ?qb = map_of (nodes w5) ?qb" "same_elsewhere [?qa, ?qb] w5 w'"
          using ab by (auto simp: same_elsewhere_def)
        then have "write_effect [?qa, ?qb] ?qb rd sz w4 w' (Inl e)"
          using rr Some same_elsewhere_trans by (auto simp: write_effect_def)
        then show ?thesis using write_effect_trans [OF s34(2) ab] w'(2) by simp
      qed
    qed
  qed
qed

section \<open>A whole write\<close>

lemma lstat_retry_ticked: "lstat_retry n p w = (w', x) \<Longrightarrow> ticked w w'"
proof (induction n p w rule: lstat_retry.induct)
  case (2 n p w)
  obtain w1 y where st: "os_lstat p w = (w1, y)" by force
  have "ticked w w1" using os_stat_gen_ticked [OF st] .
  then show ?case using 2 st ticked_trans by (fastforce split: sum.splits if_splits)
qed simp

lemma check_link_ticked: "check_link root cur w = (w', x) \<Longrightarrow> ticked w w'"
proof -
  assume h: "check_link root cur w = (w', x)"
  obtain w1 y where lr: "lstat_retry 5 cur w = (w1, y)" by force
  obtain w2 z where ev: "os_eval_symlinks cur w1 = (w2, z)" by force
  have "ticked w w1" "ticked w w2"
    using lstat_retry_ticked [OF lr] os_eval_ticked [OF ev] ticked_trans by blast+
  then show ?thesis using h lr ev by (auto simp: check_link_def split: sum.splits if_splits)
qed

lemma verify_loop_ticked: "verify_loop n root cur w = (w', x) \<Longrightarrow> ticked w w'"
proof (induction n root cur w rule: verify_loop.induct)
  case (2 n root cur w)
  obtain w1 y where cl: "check_link root cur w = (w1, y)" by force
  have "ticked w w1" by (rule check_link_ticked [OF cl])
  then show ?case using 2 cl ticked_trans by (auto simp: Let_def split: option.splits if_splits)
qed simp

lemma sanitize_ticked: "sanitize root p w = (w', x) \<Longrightarrow> ticked w w'"
proof -
  assume h: "sanitize root p w = (w', x)"
  show ?thesis
    using h verify_loop_ticked unfolding sanitize_def verify_symlink_confinement_def Let_def
    by (auto simp del: verify_loop.simps split: if_splits sum.splits option.splits prod.splits)
qed

lemma os_rand_length: "os_rand n w = (w', Inr b) \<Longrightarrow> length b = n"
  by (auto simp: os_rand_def sys_def Let_def split: option.splits)

lemma calm_tree_ticked: "ticked w w' \<Longrightarrow> calm_tree w r \<Longrightarrow> calm_tree w' r"
  by (auto simp: calm_tree_def ticked_def)

lemma take_butlast_neq: "r @ cs0 @ [c] \<noteq> r @ take k cs0"
proof
  assume "r @ cs0 @ [c] = r @ take k cs0"
  then have "length (cs0 @ [c]) = length (take k cs0)" by simp
  then show False by simp
qed

text \<open>After the directories were made, the name and its temporary sibling form a write site.\<close>

lemma mkdir_site:
  assumes "calm_tree w r" "proper r" "proper (cs0 @ [c])" "clear_way (nodes w) r (cs0 @ [c])"
    and "\<not> is_dir (map_of (nodes w) (r @ cs0 @ [c]))" "os_mkdir_all (abs_path (r @ cs0)) 488 w = (w1, Inr u)"
    and "proper_comp a" "a \<noteq> c" "map_of (nodes w) (r @ cs0 @ [a]) = None"
  shows "write_site w1 r cs0 a c" "map_of (nodes w1) (r @ cs0 @ [a]) = None"
    "map_of (nodes w1) (r @ cs0 @ [c]) = map_of (nodes w) (r @ cs0 @ [c])"
    "\<And>x nd. map_of (nodes w) x = Some nd \<Longrightarrow> map_of (nodes w1) x = Some nd"
proof -
  have pw: "plain_world (calm w) r" and pc: "proper cs0" using assms(1,3) by simp_all
  have cw: "clear_way (nodes (calm w)) r (cs0 @ [c])" using assms(4) by simp
  from os_mkdir_all_plain [OF pw pc cw, of 488] obtain t' where
    mk: "os_mkdir_all (abs_path (r @ cs0)) 488 (calm w) = ((tick (calm w))\<lparr>nodes := t'\<rparr>, Inr ())"
    and t': "wf_tree t'" "link_free t'" "is_dir (node_at t' (r @ cs0))" "real_dir t' r"
      "map_of t' = with_dirs (nodes w) (Dir 488 (now w (Suc (ticks w)))) r cs0" by auto
  have w1: "nodes w1 = t'"
    using os_mkdir_all_cases [of "abs_path (r @ cs0)" 488 w] assms(6) mk by auto
  have same: "map_of t' (r @ cs0 @ [x]) = map_of (nodes w) (r @ cs0 @ [x])" for x
    using take_butlast_neq [of r cs0 x] unfolding t'(5) with_dirs_def by metis
  show "write_site w1 r cs0 a c"
    using t' assms same w1 by (simp add: write_site_def calm_tree_def)
  show "map_of (nodes w1) (r @ cs0 @ [a]) = None"
    "map_of (nodes w1) (r @ cs0 @ [c]) = map_of (nodes w) (r @ cs0 @ [c])"
    using same assms(9) w1 by simp_all
  show "map_of (nodes w1) x = Some nd" if "map_of (nodes w) x = Some nd" for x nd
    using that by (simp add: w1 t'(5) with_dirs_def)
qed

lemma local_write_effect:
  assumes "calm_tree w r" "proper r" "\<And>ds c. map_of (nodes w) (r @ ds @ [c]) \<noteq> None \<Longrightarrow> \<not> temp_name c"
    and "sanitized_comps p = Inr cs" "cs \<noteq> []" "clear_way (nodes w) r cs" "\<not> is_dir (map_of (nodes w) (r @ cs))"
    and "local_write_with_options (abs_path r) cx p rd sz opts w = (w', res)"
  defines "src \<equiv> if 0 \<le> sz then limit_reader sz rd else rd"
  shows "(\<forall>x nd. map_of (nodes w) x = Some nd \<longrightarrow> x \<noteq> r @ cs \<longrightarrow> map_of (nodes w') x = Some nd) \<and>
    (case res of
       Inr _ \<Rightarrow> rd_err src = None \<and> sz \<le> int (length (rd_data src)) \<and>
         (\<exists>m. map_of (nodes w') (r @ cs) = Some (File (rd_data src) m 384))
     | Inl e \<Rightarrow> map_of (nodes w') (r @ cs) \<in> {map_of (nodes w) (r @ cs), None})"
    (is "?kept \<and> ?eff")
proof -
  have pr: "proper cs" using sanitized_comps_safe [OF assms(4)] by (auto simp: list_all_iff safe_comp_def)
  obtain cs0 c where cc: "cs = cs0 @ [c]" using assms(5) by (metis append_butlast_last_id)
  have pc: "proper cs0" "proper_comp c" using pr cc by auto
  have dirp: "path_dir (abs_path (r @ cs)) = abs_path (r @ cs0)"
    using path_dir_abs [of "r @ cs0" c] assms(2) pc cc by simp
  have idle: ?thesis if "ticked w w'" "res = Inl e" for e
    using that ticked_fields [OF that(1)] by simp
  show ?thesis
  proof (cases "cx 0")
    case (Some e)
    then show ?thesis using assms(8) by (intro idle [of e]) (auto simp: local_write_with_options_def)
  next
    case None
    obtain w1 y1 where sa: "sanitize (abs_path r) p w = (w1, y1)" by force
    have t1: "ticked w w1" by (rule sanitize_ticked [OF sa])
    show ?thesis
    proof (cases y1)
      case (Inl e)
      then show ?thesis using assms(8) None sa t1
        by (intro idle [of "storage_error ''write'' ''local'' p e"]) (auto simp: local_write_with_options_def)
    next
      case (Inr full)
      then have full: "full = abs_path (r @ cs)" using sanitize_ok [OF assms(2) sa [unfolded Inr]] assms(4) by auto
      obtain w2 ex where ex: "(if wo_overwrite (apply_options opts) then (w1, False)
          else (case os_stat full w1 of (v, Inl _) \<Rightarrow> (v, False) | (v, Inr _) \<Rightarrow> (v, True))) = (w2, ex)" by force
      have t2: "ticked w w2"
        using ex t1 os_stat_gen_ticked ticked_trans by (auto split: if_splits prod.splits sum.splits)
      show ?thesis
      proof (cases ex)
        case True
        then show ?thesis using assms(8) None sa Inr ex t2
          by (intro idle [of "storage_error ''write'' ''local'' p ErrAlreadyExists"])
            (auto simp: local_write_with_options_def Let_def)
      next
        case False
        obtain w3 y3 where mk: "os_mkdir_all (abs_path (r @ cs0)) 488 w2 = (w3, y3)" by force
        obtain w4 y4 where rn: "os_rand 8 w3 = (w4, y4)" by force
        have w4: "w4 = tick w3" by (rule os_rand_ticked [OF rn])
        show ?thesis
        proof (cases y3)
          case (Inl n)
          have "w3 = tick w2"
            using os_mkdir_all_cases [of "abs_path (r @ cs0)" 488 w2] mk Inl
            by (auto simp: os_mkdir_all_def sys_plain path_start_def split: sum.splits)
          then have "ticked w w3" using t2 ticked_tick_after by blast
          then show ?thesis using assms(8) None sa \<open>y1 = Inr full\<close> ex False mk Inl full dirp
            by (auto intro!: idle simp: local_write_with_options_def Let_def)
        next
          case y3: (Inr u)
          note f2 = ticked_fields [OF t2]
          have site: "write_site w3 r cs0 a c" "map_of (nodes w3) (r @ cs0 @ [a]) = None"
            "map_of (nodes w3) (r @ cs) = map_of (nodes w) (r @ cs)"
            "\<And>x nd. map_of (nodes w) x = Some nd \<Longrightarrow> map_of (nodes w3) x = Some nd"
            if "proper_comp a" "a \<noteq> c" "temp_name a" for a
          proof -
            have "map_of (nodes w) (r @ cs0 @ [a]) = None" using assms(3) [of cs0 a] that(3) by blast
            then have n2: "map_of (nodes w2) (r @ cs0 @ [a]) = None" using f2 by simp
            have p2: "proper (cs0 @ [c])" "clear_way (nodes w2) r (cs0 @ [c])"
              "\<not> is_dir (map_of (nodes w2) (r @ cs0 @ [c]))"
              using pr cc assms(6,7) f2 by simp_all
            note ms = mkdir_site [OF calm_tree_ticked [OF t2 assms(1)] assms(2) p2 mk [unfolded y3] that(1,2) n2]
            show "write_site w3 r cs0 a c" "map_of (nodes w3) (r @ cs0 @ [a]) = None" by (fact ms)+
            show "map_of (nodes w3) (r @ cs) = map_of (nodes w) (r @ cs)" using ms(3) f2 cc by simp
            show "map_of (nodes w3) x = Some nd" if "map_of (nodes w) x = Some nd" for x nd
              using ms(4) [of x nd] f2 that by simp
          qed
          show ?thesis
          proof (cases y4)
            case (Inl n)
            have dummy: "proper_comp ''.tmp.0000000000000000''" "temp_name (c @ ''.tmp.0000000000000000'')"
              by (simp_all add: proper_comp_def temp_name_def)
            have "proper_comp (c @ ''.tmp.0000000000000000'')" "c @ ''.tmp.0000000000000000'' \<noteq> c"
              using pc(2) by (auto simp: proper_comp_def append_eq_Cons_conv)
            note st = site [OF this dummy(2)]
            have "w' = w4" "\<exists>e. res = Inl e" using assms(8) None sa \<open>y1 = Inr full\<close> ex False mk y3 full dirp rn Inl
              by (auto simp: local_write_with_options_def Let_def)
            then show ?thesis using st(3,4) by (auto simp: w4)
          next
            case y4: (Inr rnd)
            let ?a = "c @ ''.tmp.'' @ hex_encode rnd"
            note tc = temp_comp [OF pc(2) os_rand_length [OF rn [unfolded y4]]]
            note st = site [OF tc(1,3,2)]
            have cm: "commit_temp p (abs_path (r @ cs0 @ [c])) (abs_path (r @ cs0 @ [?a])) src sz w4 = (w', res)"
            proof -
              have f: "path_dir full = abs_path (r @ cs0)" "temp_path full rnd = abs_path (r @ cs0 @ [?a])"
                using full dirp tc(4) [of "r @ cs0"] cc by simp_all
              have "commit_temp p full (temp_path full rnd) src sz w4 = (w', res)"
                using assms(8) False unfolding local_write_with_options_def Let_def None sa \<open>y1 = Inr full\<close>
                  option.case prod.case sum.case ex f(1) mk y3 rn y4 src_def by simp
              then show ?thesis using f full cc by simp
            qed
            have eff: "write_effect [r @ cs0 @ [?a], r @ cs0 @ [c]] (r @ cs0 @ [c]) src sz w4 w' res"
              by (rule commit_temp_site [OF _ _ cm]) (use st(1,2) write_site_step(1) in \<open>simp_all add: w4\<close>)
            have "map_of (nodes w') x = Some nd" if x: "map_of (nodes w) x = Some nd" "x \<noteq> r @ cs" for x nd
            proof -
              have w3: "map_of (nodes w3) x = Some nd" by (rule st(4) [OF x(1)])
              then have "x \<noteq> r @ cs0 @ [?a]" using st(2) by (metis option.distinct(1))
              then show ?thesis using eff w3 x(2) cc by (simp add: write_effect_def same_elsewhere_def w4)
            qed
            moreover have ?eff using eff st(3) cc by (auto simp: write_effect_def w4 split: sum.splits)
            ultimately show ?thesis by blast
          qed
        qed
      qed
    qed
  qed
qed

section \<open>Properties\<close>

text \<open>C2: No torn writes.  Whatever system calls fail during a write, on a tree without links: when
  the write reports success the object is the whole source, of at least the announced size, and when
  it reports an error the object is what it was before or is gone; never a part of the new data.
  Every other node of the tree is untouched.\<close>

theorem local_write_atomic:
  assumes "calm_tree w r" "proper r" "\<And>ds c. map_of (nodes w) (r @ ds @ [c]) \<noteq> None \<Longrightarrow> \<not> temp_name c"
    and "sanitized_comps p = Inr cs" "cs \<noteq> []" "clear_way (nodes w) r cs" "\<not> is_dir (map_of (nodes w) (r @ cs))"
    and "src = (if 0 \<le> sz then limit_reader sz rd else rd)"
    and "w' = fst (local_write_with_options (abs_path r) cx p rd sz opts w)"
  shows "(\<forall>x nd. map_of (nodes w) x = Some nd \<longrightarrow> x \<noteq> r @ cs \<longrightarrow> map_of (nodes w') x = Some nd) \<and>
    (case snd (local_write_with_options (abs_path r) cx p rd sz opts w) of
       Inr _ \<Rightarrow> rd_err src = None \<and> sz \<le> int (length (rd_data src)) \<and>
         (\<exists>m. map_of (nodes w') (r @ cs) = Some (File (rd_data src) m 384))
     | Inl e \<Rightarrow> map_of (nodes w') (r @ cs) \<in> {map_of (nodes w) (r @ cs), None})"
  unfolding assms(8,9) by (rule local_write_effect [OF assms(1-7) prod.collapse [symmetric]])

lemma local_write_atomic_witness:
  "map_of (nodes (fst (local_write_with_options (abs_path [''srv'']) background ''a/f'' (bytes_reader [7, 8]) 2 [] flaky_fs)))
     ([''srv''] @ [''a'', ''f'']) \<in> {Some (File [1, 2] 0 384), None}"
proof -
  have f: "nodes flaky_fs = nodes plain_fs" by (simp add: flaky_fs_def)
  note inv = plain_fs_inv and pw = local_invD(1) [OF plain_fs_inv]
  have "calm_tree flaky_fs [''srv'']" using pw by (simp add: calm_tree_def plain_world_def f)
  moreover have "\<not> temp_name c" if h: "map_of (nodes flaky_fs) ([''srv''] @ ds @ [c]) \<noteq> None" for ds c
  proof -
    have "list_all plain_name (ds @ [c])" using local_invD(2) [OF inv, of "ds @ [c]"] h f by auto
    then show ?thesis by (simp add: plain_name_def)
  qed
  moreover have "sanitized_comps ''a/f'' = Inr [''a'', ''f'']" by code_simp
  moreover have "clear_way (nodes flaky_fs) [''srv''] [''a'', ''f'']" "\<not> is_dir (map_of (nodes flaky_fs) ([''srv''] @ [''a'', ''f'']))"
    using plain_fs_plain(1) by (simp_all add: local_plain_def f Let_def)
  moreover have "\<exists>e. snd (local_write_with_options (abs_path [''srv'']) background ''a/f'' (bytes_reader [7, 8]) 2 [] flaky_fs) = Inl e"
    by (rule exI [where x = "StorageError ''write'' ''local'' ''a/f''
        (ErrWrap ''atomic rename failed: rename /srv/a/f.tmp.0001020304050607: permission denied''
          [ErrPathOS ''rename'' ''/srv/a/f.tmp.0001020304050607'' EACCES])"]) code_simp
  ultimately show ?thesis
    using local_write_atomic [of flaky_fs "[''srv'']" "''a/f''" "[''a'', ''f'']" _ 2 "bytes_reader [7, 8]" _ background "[]", OF _ _ _ _ _ _ _ refl refl]
    by (auto simp: proper_comp_def flaky_fs_def plain_fs_def)
qed

text \<open>The replacement is not atomic with respect to failures: when every rename fails and the
  removals between them succeed, the write reports an error and the object it was to replace is
  gone.\<close>

theorem failed_replace_loses_object:
  "map_of (nodes flaky_fs) [''srv'', ''a'', ''f''] = Some (File [1, 2] 0 384)
   \<and> (case local_write (abs_path [''srv'']) background ''a/f'' (bytes_reader [7, 8]) 2 flaky_fs of
        (w', Inr _) \<Rightarrow> False
      | (w', Inl e) \<Rightarrow> map_of (nodes w') [''srv'', ''a'', ''f''] = None)"
  by code_simp

text \<open>A write to the empty path replaces the root of an empty store by a file: the rename onto
  the directory fails, the directory is removed, the next rename succeeds.\<close>

theorem write_to_root_replaces_it:
  "node_at (nodes empty_fs) [''srv''] = Some (Dir 488 0)
   \<and> (case local_write (abs_path [''srv'']) background '''' (bytes_reader [7]) 1 empty_fs of
        (w', Inl e) \<Rightarrow> False
      | (w', Inr _) \<Rightarrow> \<not> is_dir (node_at (nodes w') [''srv'']))"
  by code_simp

end
