(* ===== verification/Mock_Driver.thy ===== *)
theory Mock_Driver
  imports Storage_Driver
begin

text \<open>
  \<^verbatim>\<open>pkg/storage/mock.go\<close>: the in-memory driver.  Its two maps are association lists;
  \<open>mk_now\<close> is what \<^verbatim>\<open>time.Now\<close> reads.  The driver satisfies the contract of
  \<open>object_store\<close> (interpretation \<open>mock\<close> at the end).
\<close>

section \<open>State and operations\<close>

record mock =
  mk_name :: string
  mk_objects :: "(string \<times> bytes) list"
  mk_info :: "(string \<times> object_info) list"
  mk_now :: int

definition new_mock :: "string list \<Rightarrow> mock" where
  "new_mock names =
     \<lparr>mk_name = (case names of [] \<Rightarrow> ''mock'' | n # _ \<Rightarrow> if n \<noteq> '''' then n else ''mock''),
      mk_objects = [], mk_info = [], mk_now = 0\<rparr>"

definition normalize_key :: "string \<Rightarrow> string" where
  "normalize_key k = trim_prefix (path_clean (''/'' @ slashed k)) ''/''"

definition mock_read :: "ctx \<Rightarrow> string \<Rightarrow> mock \<Rightarrow> mock \<times> reader res" where
  "mock_read cx key m =
     (case cx 0 of
        Some e \<Rightarrow> (m, Err e)
      | None \<Rightarrow>
          (case map_of (mk_objects m) (normalize_key key) of
             None \<Rightarrow> (m, Err (storage_error ''read'' (mk_name m) key ErrNotFound))
           | Some d \<Rightarrow> (m, Ok (bytes_reader d))))"

definition mock_write_with_options ::
  "ctx \<Rightarrow> string \<Rightarrow> reader \<Rightarrow> int \<Rightarrow> write_option list \<Rightarrow> mock \<Rightarrow> mock \<times> unit res" where
  "mock_write_with_options cx key r sz opts m =
     (case cx 0 of
        Some e \<Rightarrow> (m, Err e)
      | None \<Rightarrow>
          (let k = normalize_key key; options = apply_options opts in
           if k = '''' then (m, Err (storage_error ''write'' (mk_name m) key ErrInvalidPath))
           else if \<not> wo_overwrite options \<and> map_of (mk_objects m) k \<noteq> None
             then (m, Err (storage_error ''write'' (mk_name m) key ErrAlreadyExists))
           else (case stream_copy r of
               (_, _, Some e) \<Rightarrow> (m, Err (storage_error ''write'' (mk_name m) key e))
             | (d, _, None) \<Rightarrow>
                 (let oi = \<lparr>oi_key = k, oi_path = k, oi_size = int (length d), oi_modtime = mk_now m,
                           oi_isdir = False, oi_etag = hex_encode (sha256 d),
                           oi_ctype = (if wo_ctype options = '''' then ''application/octet-stream''
                                       else wo_ctype options),
                           oi_meta = wo_meta options\<rparr>
                  in (m\<lparr>mk_objects := AList.update k d (mk_objects m),
                        mk_info := AList.update k oi (mk_info m)\<rparr>, Ok ())))))"

definition mock_write :: "ctx \<Rightarrow> string \<Rightarrow> reader \<Rightarrow> int \<Rightarrow> mock \<Rightarrow> mock \<times> unit res" where
  "mock_write cx key r sz m = mock_write_with_options cx key r sz [] m"

definition mock_list_with_options :: "ctx \<Rightarrow> list_options \<Rightarrow> mock \<Rightarrow> mock \<times> list_result res" where
  "mock_list_with_options cx lo m =
     (case cx 0 of
        Some e \<Rightarrow> (m, Err e)
      | None \<Rightarrow>
          (let clean_prefix = normalize_key (lo_prefix lo);
               matched = map snd (filter (\<lambda>(k, oi). clean_prefix = '''' \<or> has_prefix k clean_prefix)
                                         (mk_info m))
           in (m, paginate (lo_token lo) (lo_max_keys lo) (sort_objects matched))))"

definition mock_list :: "ctx \<Rightarrow> string \<Rightarrow> mock \<Rightarrow> mock \<times> object_info list res" where
  "mock_list cx p m =
     (case mock_list_with_options cx (list_all_under p) m of
        (m', Inl e) \<Rightarrow> (m', Err e)
      | (m', Inr r) \<Rightarrow> (m', Ok (lr_objects r)))"

definition mock_delete :: "ctx \<Rightarrow> string \<Rightarrow> mock \<Rightarrow> mock \<times> unit res" where
  "mock_delete cx key m =
     (case cx 0 of
        Some e \<Rightarrow> (m, Err e)
      | None \<Rightarrow>
          (let k = normalize_key key
           in (m\<lparr>mk_objects := AList.delete k (mk_objects m),
                 mk_info := AList.delete k (mk_info m)\<rparr>, Ok ())))"

definition mock_stat :: "ctx \<Rightarrow> string \<Rightarrow> mock \<Rightarrow> mock \<times> object_info res" where
  "mock_stat cx key m =
     (case cx 0 of
        Some e \<Rightarrow> (m, Err e)
      | None \<Rightarrow>
          (case map_of (mk_info m) (normalize_key key) of
             None \<Rightarrow> (m, Err (storage_error ''stat'' (mk_name m) key ErrNotFound))
           | Some oi \<Rightarrow> (m, Ok oi)))"

definition mock_stream :: "ctx \<Rightarrow> string \<Rightarrow> mock \<Rightarrow> mock \<times> bytes \<times> go_error option" where
  "mock_stream cx key m = stream_from (mock_read cx key) m"

text \<open>The driver, acting on the part of a world that \<open>get\<close> reads and \<open>put\<close> writes.\<close>

definition mock_driver :: "('w \<Rightarrow> mock) \<Rightarrow> (mock \<Rightarrow> 'w \<Rightarrow> 'w) \<Rightarrow> string \<Rightarrow> nat \<Rightarrow> 'w driver" where
  "mock_driver get put nm ident =
     \<lparr>dr_name = nm, dr_id = ident, dr_local_root = None, dr_advanced = True, dr_nil_lists = True,
      dr_read = (\<lambda>cx p. on_part get put (mock_read cx p)),
      dr_write = (\<lambda>cx p r n. on_part get put (mock_write cx p r n)),
      dr_list = (\<lambda>cx p. on_part get put (mock_list cx p)),
      dr_delete = (\<lambda>cx p. on_part get put (mock_delete cx p)),
      dr_stat = (\<lambda>cx p. on_part get put (mock_stat cx p)),
      dr_stream = (\<lambda>cx p. on_part get put (mock_stream cx p)),
      dr_write_opts = (\<lambda>cx p r n os. on_part get put (mock_write_with_options cx p r n os)),
      dr_list_opts = (\<lambda>cx lo. on_part get put (mock_list_with_options cx lo))\<rparr>"

section \<open>Invariant\<close>

definition info_ok :: "string \<Rightarrow> bytes \<Rightarrow> object_info \<Rightarrow> bool" where
  "info_ok k d oi \<longleftrightarrow> oi_key oi = k \<and> oi_path oi = k \<and> oi_size oi = int (length d) \<and> \<not> oi_isdir oi
     \<and> oi_etag oi = hex_encode (sha256 d)"

text \<open>
  The two maps have the same keys, each the normal form of itself, and the metadata of a key
  describes its data.
\<close>

definition mock_ok :: "mock \<Rightarrow> bool" where
  "mock_ok m \<longleftrightarrow>
     distinct (map fst (mk_objects m)) \<and> distinct (map fst (mk_info m)) \<and>
     (\<forall>k. map_of (mk_objects m) k = None \<longleftrightarrow> map_of (mk_info m) k = None) \<and>
     (\<forall>k d oi. map_of (mk_objects m) k = Some d \<longrightarrow> map_of (mk_info m) k = Some oi \<longrightarrow> info_ok k d oi) \<and>
     (\<forall>k d. map_of (mk_objects m) k = Some d \<longrightarrow> k \<noteq> '''' \<and> normalize_key k = k)"

text \<open>The store is small enough for its listing to be indexed by a machine integer.\<close>

definition mock_fits :: "mock \<Rightarrow> bool" where
  "mock_fits m \<longleftrightarrow> int (length (mk_info m)) < 2 ^ 62"

definition mock_room :: "mock \<Rightarrow> string \<Rightarrow> bool" where
  "mock_room m k \<longleftrightarrow> k \<noteq> '''' \<and> (map_of (mk_info m) k \<noteq> None \<or> int (length (mk_info m)) + 1 < 2 ^ 62)"

definition mock_key :: "string \<Rightarrow> string option" where
  "mock_key p = (let k = normalize_key p in if k = '''' then None else Some k)"

section \<open>Normal form of keys\<close>

lemma normalize_key_comps:
  "normalize_key k = join_with ''/'' (clean_comps True (split_on (CHR ''/'') (slashed k)))"
  by (simp add: normalize_key_def path_clean_slash)

lemma clean_comps_chars:
  assumes "b \<notin> set s" "b \<noteq> CHR ''/''"
  shows "b \<notin> set (join_with ''/'' (clean_comps True (split_on (CHR ''/'') s)))"
proof
  assume "b \<in> set (join_with ''/'' (clean_comps True (split_on (CHR ''/'') s)))"
  then obtain w where "w \<in> set (clean_comps True (split_on (CHR ''/'') s))" "b \<in> set w"
    using set_join [of "''/''"] assms(2) by fastforce
  then show False using clean_comps_subset split_on_chars assms(1) by blast
qed

lemma normalize_key_join:
  assumes "proper cs" "CHR 0x5C \<notin> set (join_with ''/'' cs)"
  shows "normalize_key (join_with ''/'' cs) = join_with ''/'' cs"
proof -
  have "normalize_key (join_with ''/'' cs) = trim_prefix (path_clean (abs_path cs)) ''/''"
    using assms(2) by (simp add: normalize_key_def replace_char_id abs_path_def)
  then show ?thesis using assms(1) by simp
qed

lemma no_backslash_slashed: "CHR 0x5C \<notin> set (slashed k)"
  by (auto simp: replace_char_def)

lemma normalize_key_idem [simp]: "normalize_key (normalize_key k) = normalize_key k"
  unfolding normalize_key_comps [of k]
  by (rule normalize_key_join [OF rooted_comps_proper clean_comps_chars [OF no_backslash_slashed]]) simp

lemma mock_key_Some: "mock_key p = Some k \<longleftrightarrow> k = normalize_key p \<and> k \<noteq> ''''"
  by (auto simp: mock_key_def Let_def)

section \<open>Every operation keeps the invariant\<close>


lemma new_mock_ok: "mock_ok (new_mock ns)"
  by (simp add: mock_ok_def new_mock_def)

lemma mock_put_ok:
  assumes "mock_ok m" "k \<noteq> ''''" "normalize_key k = k" "info_ok k d oi"
  shows "mock_ok (m\<lparr>mk_objects := AList.update k d (mk_objects m), mk_info := AList.update k oi (mk_info m)\<rparr>)"
  using assms by (simp add: mock_ok_def distinct_update del: map_of_eq_Some_iff)

lemma mock_del_ok:
  assumes "mock_ok m"
  shows "mock_ok (m\<lparr>mk_objects := AList.delete k (mk_objects m), mk_info := AList.delete k (mk_info m)\<rparr>)"
  using assms by (simp add: mock_ok_def distinct_delete del: map_of_eq_Some_iff)

lemma mock_write_ok: "mock_ok m \<Longrightarrow> mock_ok (fst (mock_write_with_options cx p r n opts m))"
  by (auto simp: mock_write_with_options_def Let_def stream_copy_def info_ok_def
        intro!: mock_put_ok split: option.splits)

lemma mock_delete_ok: "mock_ok m \<Longrightarrow> mock_ok (fst (mock_delete cx p m))"
  by (auto simp: mock_delete_def Let_def intro: mock_del_ok split: option.splits)

section \<open>The driver keeps its contract\<close>

lemma mock_objects_info:
  assumes "mock_ok m" "map_of (mk_objects m) k = Some d"
  obtains oi where "map_of (mk_info m) k = Some oi" "info_ok k d oi"
  using assms unfolding mock_ok_def by (metis not_Some_eq)

lemma mock_info_objects:
  assumes "mock_ok m" "map_of (mk_info m) k = Some oi"
  obtains d where "map_of (mk_objects m) k = Some d" "info_ok k d oi"
  using assms unfolding mock_ok_def by (metis not_Some_eq)

lemma length_update: "length (AList.update k v al) = (if map_of al k = None then Suc (length al) else length al)"
  by (induction al) auto

lemma length_delete_less: "map_of al k \<noteq> None \<Longrightarrow> length (AList.delete k al) < length al"
  using length_delete_le [of k] by (induction al) (auto simp: less_Suc_eq_le)

text \<open>The view of a store: its objects by key.\<close>

definition mock_view :: "mock \<Rightarrow> string \<Rightarrow> bytes option" where
  "mock_view m = map_of (mk_objects m)"

definition mock_inv :: "mock \<Rightarrow> bool" where
  "mock_inv m \<longleftrightarrow> mock_ok m \<and> mock_fits m"

lemma mock_view_info: "mock_ok m \<Longrightarrow> mock_view m k = None \<longleftrightarrow> map_of (mk_info m) k = None"
  by (simp add: mock_ok_def mock_view_def)

lemma mock_stored: "mock_ok m \<Longrightarrow> mock_view m k = Some d \<Longrightarrow> k \<noteq> '''' \<and> normalize_key k = k"
  unfolding mock_ok_def mock_view_def by blast

lemma mock_write_full:
  fixes d :: bytes
  assumes "mock_inv m" "mock_key p = Some k" "mock_room m k"
  defines "m' \<equiv> fst (mock_write background p (bytes_reader d) (int (length d)) m)"
  shows "mock_write background p (bytes_reader d) (int (length d)) m = (m', Ok ())"
    and "mock_inv m'" and "mock_view m' = (mock_view m)(k \<mapsto> d)" and "mock_room m' k"
proof -
  have k: "k = normalize_key p" "k \<noteq> ''''" using assms(2) by (auto simp: mock_key_Some)
  have ok: "mock_ok m'"
    unfolding m'_def mock_write_def using assms(1) by (intro mock_write_ok) (simp add: mock_inv_def)
  show "mock_write background p (bytes_reader d) (int (length d)) m = (m', Ok ())"
    using k by (simp add: m'_def mock_write_def mock_write_with_options_def stream_copy_def Let_def)
  show "mock_view m' = (mock_view m)(k \<mapsto> d)"
    using k by (auto simp: m'_def mock_view_def mock_write_def mock_write_with_options_def
        stream_copy_def Let_def)
  have "length (mk_info m') = (if map_of (mk_info m) k = None then Suc (length (mk_info m)) else length (mk_info m))"
    and "map_of (mk_info m') k \<noteq> None"
    using k by (auto simp: m'_def mock_write_def mock_write_with_options_def
        stream_copy_def Let_def length_update)
  then show "mock_inv m'" "mock_room m' k"
    using ok assms(1,3) k by (auto simp: mock_inv_def mock_fits_def mock_room_def split: if_splits)
qed

lemma mock_delete_plain:
  assumes "mock_inv m" "mock_key p = Some k" "mock_room m k"
  defines "m' \<equiv> fst (mock_delete background p m)"
  shows "mock_delete background p m = (m', Ok ())"
    and "mock_inv m'" and "mock_view m' = (mock_view m)(k := None)" and "mock_room m' k"
proof -
  have k: "k = normalize_key p" "k \<noteq> ''''" using assms(2) by (auto simp: mock_key_Some)
  have ok: "mock_ok m'"
    unfolding m'_def using assms(1) by (intro mock_delete_ok) (simp add: mock_inv_def)
  show "mock_delete background p m = (m', Ok ())"
    using k by (simp add: m'_def mock_delete_def Let_def)
  show "mock_view m' = (mock_view m)(k := None)"
    using k by (auto simp: m'_def mock_view_def mock_delete_def Let_def)
  have "mk_info m' = AList.delete k (mk_info m)"
    using k by (simp add: m'_def mock_delete_def Let_def)
  then show "mock_inv m'" "mock_room m' k"
    using ok assms(1,3) k length_delete_le [of k "mk_info m"] length_delete_less [of "mk_info m" k]
    by (auto simp: mock_inv_def mock_fits_def mock_room_def)
qed

text \<open>The listing of a prefix is the sorted metadata of the keys that start with it.\<close>

lemma mock_list_background:
  fixes p :: string
  assumes "mock_inv m"
  defines "obs \<equiv> sort_objects (map snd (filter (\<lambda>(k, oi). normalize_key p = '''' \<or> has_prefix k (normalize_key p))
                (mk_info m)))"
  shows "mock_list background p m = (m, Ok obs)" and "key_sorted obs"
    and "distinct (map oi_path obs)"
    and "{(oi_path ob, oi_size ob) |ob. ob \<in> set obs \<and> \<not> oi_isdir ob}
           = {(k, int (length d)) |k d. mock_view m k = Some d \<and> has_prefix k (normalize_key p)}"
proof -
  let ?f = "filter (\<lambda>(k, oi). normalize_key p = '''' \<or> has_prefix k (normalize_key p)) (mk_info m)"
  have ok: "mock_ok m" using assms(1) by (simp add: mock_inv_def)
  have dist: "distinct (map fst (mk_info m))" using ok by (simp add: mock_ok_def)
  have entry: "oi_key oi = k \<and> oi_path oi = k \<and> \<not> oi_isdir oi \<and>
      (\<exists>d. mock_view m k = Some d \<and> oi_size oi = int (length d))" if "(k, oi) \<in> set (mk_info m)" for k oi
  proof -
    have "map_of (mk_info m) k = Some oi" using that dist by simp
    then show ?thesis
      by (rule mock_info_objects [OF ok]) (auto simp: info_ok_def mock_view_def)
  qed
  have e: "map oi_key (map snd ?f) = map fst ?f" "map oi_path (map snd ?f) = map fst ?f"
    using entry by auto
  have df: "distinct (map fst ?f)" using dist by (simp add: distinct_map_filter)
  have dk: "distinct (map oi_key (map snd ?f))" unfolding e(1) by (rule df)
  have dp: "distinct (map oi_path (map snd ?f))" unfolding e(2) by (rule df)
  show ks: "key_sorted obs" unfolding obs_def by (rule sort_objects_key_sorted [OF dk])
  show "distinct (map oi_path obs)"
    using dp unfolding obs_def distinct_map sort_objects_def by (simp add: distinct_map)
  have "int (length obs) < 2 ^ 62"
  proof -
    have "int (length ?f) < 2 ^ 62"
      by (rule le_less_trans [of _ "int (length (mk_info m))"])
         (use assms(1) in \<open>simp_all add: mock_inv_def mock_fits_def\<close>)
    then show ?thesis by (simp add: obs_def sort_objects_def)
  qed
  then show "mock_list background p m = (m, Ok obs)"
    using paginate_everything [OF ks, of 0 "''''"]
    by (simp add: mock_list_def mock_list_with_options_def list_all_under_def Let_def obs_def)
  show "{(oi_path ob, oi_size ob) |ob. ob \<in> set obs \<and> \<not> oi_isdir ob}
           = {(k, int (length d)) |k d. mock_view m k = Some d \<and> has_prefix k (normalize_key p)}"
    (is "?L = ?R")
  proof
    show "?L \<subseteq> ?R" using entry by (fastforce simp: obs_def)
    show "?R \<subseteq> ?L"
    proof
      fix x assume "x \<in> ?R"
      then obtain k d where x: "x = (k, int (length d))" "mock_view m k = Some d"
        "has_prefix k (normalize_key p)" by blast
      obtain oi where oi: "map_of (mk_info m) k = Some oi" "info_ok k d oi"
        using mock_objects_info [OF ok, of k d] x(2) by (auto simp: mock_view_def)
      then have "(k, oi) \<in> set (mk_info m)" by (simp add: map_of_SomeD)
      then have "oi \<in> set obs" using x(3) by (force simp: obs_def)
      then show "x \<in> ?L" using oi(2) x(1) by (force simp: info_ok_def)
    qed
  qed
qed

lemma mock_object_store:
  assumes "lens get put"
  shows "object_store (mock_driver get put nm ident) (\<lambda>w. mock_inv (get w)) mock_key normalize_key
    (\<lambda>w. mock_view (get w)) (\<lambda>w. mock_room (get w)) (\<lambda>d. True)"
proof -
  have gp: "get (put a w) = a" for a w using assms by (simp add: lens_def)
  show ?thesis
  proof
    fix w k d assume h: "mock_inv (get w)" "mock_view (get w) k = Some d"
    then have n: "k \<noteq> ''''" "normalize_key k = k" using mock_stored by (auto simp: mock_inv_def)
    then show "mock_key k = Some k" by (simp add: mock_key_def)
    show "mock_room (get w) k"
      using h n(1) mock_view_info [of "get w" k] by (auto simp: mock_room_def mock_inv_def)
  next
    fix w p k d assume "mock_inv (get w)" "mock_key p = Some k" "mock_view (get w) k = Some d"
    then show "\<exists>w'. dr_read (mock_driver get put nm ident) background p w = (w', Ok (bytes_reader d))
        \<and> mock_inv (get w') \<and> mock_view (get w') = mock_view (get w)"
      by (auto simp: mock_driver_def on_part_def mock_read_def mock_key_Some mock_view_def gp)
  next
    fix w p k assume "mock_inv (get w)" "mock_key p = Some k" "mock_view (get w) k = None"
    then show "\<exists>w' e. dr_read (mock_driver get put nm ident) background p w = (w', Err e)
        \<and> err_is e ErrNotFound \<and> mock_inv (get w') \<and> mock_view (get w') = mock_view (get w)"
      by (auto simp: mock_driver_def on_part_def mock_read_def mock_key_Some mock_view_def gp)
  next
    fix w p k d assume h: "mock_inv (get w)" "mock_key p = Some k" "mock_view (get w) k = Some d"
    have ok: "mock_ok (get w)" "map_of (mk_objects (get w)) k = Some d"
      using h by (simp_all add: mock_inv_def mock_view_def)
    obtain oi where "map_of (mk_info (get w)) k = Some oi" "info_ok k d oi"
      using mock_objects_info [OF ok] by blast
    then show "\<exists>w' oi. dr_stat (mock_driver get put nm ident) background p w = (w', Ok oi)
        \<and> oi_path oi = k \<and> oi_size oi = int (length d) \<and> \<not> oi_isdir oi \<and> mock_inv (get w')
        \<and> mock_view (get w') = mock_view (get w)"
      using h by (auto simp: mock_driver_def on_part_def mock_stat_def mock_key_Some info_ok_def gp)
  next
    fix w p k assume h: "mock_inv (get w)" "mock_key p = Some k" "mock_view (get w) k = None"
    then have "map_of (mk_info (get w)) k = None" by (simp add: mock_view_info mock_inv_def)
    then show "\<exists>w' e. dr_stat (mock_driver get put nm ident) background p w = (w', Err e)
        \<and> err_is e ErrNotFound \<and> mock_inv (get w') \<and> mock_view (get w') = mock_view (get w)"
      using h by (auto simp: mock_driver_def on_part_def mock_stat_def mock_key_Some gp)
  next
    fix w p k d assume "mock_inv (get w)" "mock_key p = Some k" "mock_room (get w) k"
    from mock_write_full [OF this, of d]
    show "\<exists>w'. dr_write (mock_driver get put nm ident) background p (bytes_reader d) (int (length d)) w
          = (w', Ok ()) \<and> mock_inv (get w') \<and> mock_view (get w') = (mock_view (get w))(k \<mapsto> d)
          \<and> mock_room (get w') k"
      by (auto simp: mock_driver_def on_part_def gp split: prod.splits)
  next
    fix w p k assume "mock_inv (get w)" "mock_key p = Some k" "mock_room (get w) k"
    from mock_delete_plain [OF this]
    show "\<exists>w'. dr_delete (mock_driver get put nm ident) background p w
          = (w', Ok ()) \<and> mock_inv (get w') \<and> mock_view (get w') = (mock_view (get w))(k := None)
          \<and> mock_room (get w') k"
      by (auto simp: mock_driver_def on_part_def gp split: prod.splits)
  next
    fix w p assume inv: "mock_inv (get w)"
    from mock_list_background [OF inv, of p] inv
    show "\<exists>w' obs. dr_list (mock_driver get put nm ident) background p w = (w', Ok obs)
          \<and> mock_inv (get w') \<and> mock_view (get w') = mock_view (get w) \<and> distinct (map oi_path obs)
          \<and> {(oi_path ob, oi_size ob) |ob. ob \<in> set obs \<and> \<not> oi_isdir ob}
            = {(k, int (length d)) |k d. mock_view (get w) k = Some d \<and> has_prefix k (normalize_key p)}"
      by (simp add: mock_driver_def on_part_def gp)
  qed
qed

text \<open>The driver that \<^verbatim>\<open>NewMockDriver\<close> makes: its world is the store itself.\<close>

definition mock_self :: "mock driver" where
  "mock_self = mock_driver id (\<lambda>a w. a) ''mock'' 0"

interpretation mock: object_store mock_self mock_inv mock_key normalize_key mock_view mock_room "\<lambda>d. True"
  using mock_object_store [of id "\<lambda>a w. a" "''mock''" 0] by (simp add: lens_def mock_self_def)

section \<open>Properties\<close>

text \<open>A store with two objects, for the witnesses.\<close>

definition demo_mock :: mock where
  "demo_mock = fst (mock_write background ''b'' (bytes_reader [2, 3]) 2
     (fst (mock_write background ''a/x'' (bytes_reader [1]) 1 (new_mock []))))"

lemma demo_mock_ok: "mock_ok demo_mock"
  unfolding demo_mock_def mock_write_def by (intro mock_write_ok new_mock_ok)

lemma demo_mock_keys: "map fst (mk_info demo_mock) = [''a/x'', ''b'']" "map fst (mk_objects demo_mock) = [''a/x'', ''b'']"
  by (simp_all add: demo_mock_def mock_write_def mock_write_with_options_def new_mock_def stream_copy_def Let_def)
    code_simp+

lemma demo_mock_inv: "mock_inv demo_mock"
proof -
  have "length (mk_info demo_mock) = 2" using arg_cong [OF demo_mock_keys(1), of length] by simp
  then show ?thesis by (simp add: mock_inv_def mock_fits_def demo_mock_ok)
qed

text \<open>C27: The two maps of the in-memory store stay consistent: whatever is written (with any options,
  context and source) or deleted, they hold the same keys, every key is its own non-empty normal
  form, and the metadata of a key describe its data, with its length and SHA-256.\<close>

theorem mock_invariant:
  assumes "mock_ok m"
  shows "mock_ok (fst (mock_write_with_options cx p r sz opts m)) \<and> mock_ok (fst (mock_delete cx q m))"
  using mock_write_ok [OF assms] mock_delete_ok [OF assms] by blast

lemma mock_invariant_witness:
  "mock_ok (fst (mock_write_with_options background ''c'' (bytes_reader [1]) 1 [] demo_mock)) \<and>
   mock_ok (fst (mock_delete background ''b'' demo_mock))"
  by (rule mock_invariant [OF demo_mock_ok])

text \<open>C28: What is written to the in-memory store is read back under every path with the same normal
  form, and nothing else changes.\<close>

theorem mock_read_after_write:
  assumes "mock_inv m" "mock_key p = Some k" "mock_room m k" "mock_key q = Some k"
  shows "\<exists>m1 m2. mock_write background p (bytes_reader d) (int (length d)) m = (m1, Ok ())
    \<and> mock_read background q m1 = (m2, Ok (bytes_reader d)) \<and> mock_inv m2
    \<and> mock_view m2 = (mock_view m)(k \<mapsto> d)"
  using mock.read_after_write [OF assms, of d] by (auto simp: mock_self_def mock_driver_def on_part_def split: prod.splits)

lemma mock_read_after_write_witness:
  "\<exists>m1 m2. mock_write background ''./b'' (bytes_reader [7]) (int (length [7::byte])) demo_mock = (m1, Ok ())
    \<and> mock_read background ''/b'' m1 = (m2, Ok (bytes_reader [7])) \<and> mock_inv m2
    \<and> mock_view m2 = (mock_view demo_mock)(''b'' \<mapsto> [7])"
proof (rule mock_read_after_write [OF demo_mock_inv])
  show "mock_key ''./b'' = Some ''b''" "mock_key ''/b'' = Some ''b''" by code_simp+
  have "length (mk_info demo_mock) = 2" using arg_cong [OF demo_mock_keys(1), of length] by simp
  then show "mock_room demo_mock ''b''" by (simp add: mock_room_def)
qed

text \<open>C18: Pagination is complete.  A client that asks for pages of any positive size and follows the
  continuation tokens gets exactly the objects of the unpaginated listing, in order, and needs at
  most one request per object and one more.\<close>

theorem mock_pages_complete:
  assumes "mock_inv m" "0 < n" "n < 2 ^ 62" "mock_list background p m = (m', Ok obs)"
  shows "follow_pages (Suc (length obs))
      (\<lambda>tk. snd (mock_list_with_options background ((list_all_under p)\<lparr>lo_max_keys := n, lo_token := tk\<rparr>) m)) ''''
    = Some obs"
proof -
  note l = mock_list_background [OF assms(1), of p]
  have obs: "obs = sort_objects (map snd (filter (\<lambda>(k, oi). normalize_key p = '''' \<or> has_prefix k (normalize_key p))
                (mk_info m)))" (is "_ = sort_objects (map snd ?f)") using l(1) assms(4) by simp
  have pg: "snd (mock_list_with_options background ((list_all_under p)\<lparr>lo_max_keys := n, lo_token := tk\<rparr>) m)
      = paginate tk n obs" for tk
    by (simp add: mock_list_with_options_def list_all_under_def Let_def obs)
  have "length ?f \<le> length (mk_info m)" by simp
  moreover have "int (length (mk_info m)) < 2 ^ 62" using assms(1) by (simp add: mock_inv_def mock_fits_def)
  ultimately have "int (length ?f) < 2 ^ 62" by linarith
  then have len: "int (length obs) < 2 ^ 62" unfolding obs by (simp add: sort_objects_def)
  have ne: "oi_key ob \<noteq> ''''" if in_obs: "ob \<in> set obs" for ob
  proof -
    have ok: "mock_ok m" using assms(1) by (simp add: mock_inv_def)
    obtain k where k: "(k, ob) \<in> set (mk_info m)" using in_obs unfolding obs by auto
    then have "map_of (mk_info m) k = Some ob" using ok by (simp add: mock_ok_def)
    then obtain d where "map_of (mk_objects m) k = Some d" "info_ok k d ob" by (rule mock_info_objects [OF ok])
    then show ?thesis using mock_stored [OF ok, of k d] by (simp add: info_ok_def mock_view_def)
  qed
  have "key_sorted obs" using l(2) by (simp add: obs)
  from follow_pages_complete [OF this assms(2,3) len ne, of "''''" "Suc (length obs)"] show ?thesis
    by (simp add: pg)
qed

lemma mock_pages_complete_witness:
  "follow_pages (Suc (length (sort_objects (map snd (filter (\<lambda>(k, oi). normalize_key ''a'' = '''' \<or> has_prefix k (normalize_key ''a'')) (mk_info demo_mock))))))
      (\<lambda>tk. snd (mock_list_with_options background ((list_all_under ''a'')\<lparr>lo_max_keys := 1, lo_token := tk\<rparr>) demo_mock)) ''''
    = Some (sort_objects (map snd (filter (\<lambda>(k, oi). normalize_key ''a'' = '''' \<or> has_prefix k (normalize_key ''a'')) (mk_info demo_mock))))"
  by (rule mock_pages_complete [OF demo_mock_inv _ _ mock_list_background(1) [OF demo_mock_inv]]) simp_all

text \<open>A write that must not overwrite fails on a stored key with "already exists" and leaves the
  store as it was; on a free key it behaves as any other write.\<close>

theorem mock_no_overwrite:
  assumes "mock_key p = Some k"
  shows "mock_write_with_options background p r sz [with_no_overwrite] m =
    (if mock_view m k = None then mock_write background p r sz m
     else (m, Err (storage_error ''write'' (mk_name m) p ErrAlreadyExists)))"
  using assms by (auto simp: mock_key_Some mock_write_def mock_write_with_options_def mock_view_def Let_def)

lemma mock_no_overwrite_witness:
  "mock_write_with_options background ''b'' (bytes_reader []) 0 [with_no_overwrite] demo_mock =
    (if mock_view demo_mock ''b'' = None then mock_write background ''b'' (bytes_reader []) 0 demo_mock
     else (demo_mock, Err (storage_error ''write'' (mk_name demo_mock) ''b'' ErrAlreadyExists)))"
  by (rule mock_no_overwrite) code_simp

text \<open>The page bound is computed in machine integers: a page size near the largest integer, with a
  token that skips an object, makes the end index wrap around, and the listing panics.\<close>

theorem page_bound_overflow:
  "snd (mock_list_with_options background
      \<lparr>lo_prefix = '''', lo_recursive = True, lo_max_keys = 2 ^ 63 - 1, lo_token = ''a'', lo_delimiter = ''''\<rparr>
      \<lparr>mk_name = ''mock'', mk_objects = [(''a'', []), (''b'', [])],
       mk_info = map (\<lambda>k. (k, \<lparr>oi_key = k, oi_path = k, oi_size = 0, oi_modtime = 0, oi_isdir = False,
         oi_etag = '''', oi_ctype = '''', oi_meta = []\<rparr>)) [''a'', ''b''], mk_now = 0\<rparr>)
    = Err (ErrPanic ''index out of range'')"
  by code_simp

end
