(* ===== verification/Go_Float.thy ===== *)
theory Go_Float
  imports Main
begin

text \<open>
  The \<^verbatim>\<open>float64\<close> arithmetic of the program, written out on integers: the rounding of an integer to
  53 significant bits, products with powers of two, the special values, \<^verbatim>\<open>math.Min\<close> and the
  conversion back to a 64-bit integer.  The finite values of the program are integers, or an integer
  over \<open>2 ^ 53\<close>, and none comes near the subnormal ones.
\<close>

section \<open>Rounding\<close>

text \<open>Division rounded to the nearest integer, ties to the even one, as IEEE and \<^verbatim>\<open>%.1f\<close> round.\<close>

definition round_even :: "int \<Rightarrow> int \<Rightarrow> int" where
  "round_even a u =
     (let q = a div u; r = a mod u in
      if 2 * r < u \<or> 2 * r = u \<and> even q then q else q + 1)"

text \<open>The bits of a number beyond 53.\<close>

function excess :: "int \<Rightarrow> nat" where
  "excess a = (if a < 2 ^ 53 then 0 else Suc (excess (a div 2)))"
  by pat_completeness auto
termination by (relation "measure nat") auto

declare excess.simps [simp del]

text \<open>\<^verbatim>\<open>float64\<close> of an integer: 53 significant bits.\<close>

definition float_nat :: "int \<Rightarrow> int" where
  "float_nat a = (let u = 2 ^ excess a in round_even a u * u)"

definition float_int :: "int \<Rightarrow> int" where
  "float_int a = (if a < 0 then - float_nat (- a) else float_nat a)"

text \<open>
  The conversion of a float to a 64-bit integer is not defined by the language outside the range;
  \<open>wide\<close> is what the machine makes of it (the smallest integer on amd64, the largest on arm64).
\<close>

definition float_to_int64 :: "int \<Rightarrow> int \<Rightarrow> int" where
  "float_to_int64 wide f = (if - (2 ^ 63) \<le> f \<and> f < 2 ^ 63 then f else wide)"

section \<open>Special values\<close>

datatype go_float = Finite int | PosInf | NegInf | NaN

text \<open>A float times \<^verbatim>\<open>math.Pow(2, i)\<close>, which is infinite from \<open>2 ^ 1024\<close> on; zero times infinity is no number.\<close>

definition times_pow2 :: "int \<Rightarrow> nat \<Rightarrow> go_float" where
  "times_pow2 f i =
     (if 1024 \<le> i then (if f = 0 then NaN else if 0 < f then PosInf else NegInf)
      else if 2 ^ 1024 \<le> f * 2 ^ i then PosInf
      else if f * 2 ^ i \<le> - (2 ^ 1024) then NegInf
      else Finite (f * 2 ^ i))"

text \<open>\<^verbatim>\<open>math.Min\<close>.\<close>

fun float_min :: "go_float \<Rightarrow> go_float \<Rightarrow> go_float" where
  "float_min NegInf b = NegInf"
| "float_min a NegInf = NegInf"
| "float_min NaN b = NaN"
| "float_min a NaN = NaN"
| "float_min PosInf b = b"
| "float_min a PosInf = a"
| "float_min (Finite x) (Finite y) = Finite (min x y)"

text \<open>The integer part of the float product of \<open>m / 2 ^ 53\<close> and \<open>b\<close>, toward zero.\<close>

definition float_fraction :: "nat \<Rightarrow> int \<Rightarrow> int" where
  "float_fraction m b = sgn b * (float_nat (int m * \<bar>b\<bar>) div 2 ^ 53)"

section \<open>Lemmas\<close>

lemma excess_bounds:
  "a < 2 ^ (53 + excess a)" "0 < excess a \<Longrightarrow> 2 ^ (52 + excess a) \<le> a"
proof (induction a rule: excess.induct)
  case (1 a)
  {
    case 1
    show ?case
    proof (cases "a < 2 ^ 53")
      case False
      then have "a div 2 < 2 ^ (53 + excess (a div 2))" using "1.IH"(1) by simp
      then have "a < 2 * 2 ^ (53 + excess (a div 2))" by linarith
      then have "a < 2 ^ (53 + Suc (excess (a div 2)))" by (simp only: add_Suc_right power_Suc)
      then show ?thesis using False by (subst excess.simps) (simp only: if_False)
    qed (subst excess.simps, simp)
  next
    case 2
    show ?case
    proof (cases "a < 2 ^ 53")
      case True
      then show ?thesis using 2 by (simp add: excess.simps [of a])
    next
      case False
      have "2 ^ (52 + excess (a div 2)) \<le> a div 2"
      proof (cases "excess (a div 2)")
        case 0
        have "(2::int) ^ 53 div 2 \<le> a div 2" by (rule zdiv_mono1) (use False in simp_all)
        then show ?thesis using 0 by simp
      next
        case (Suc n)
        then show ?thesis using "1.IH"(2) False by simp
      qed
      then have "2 * 2 ^ (52 + excess (a div 2)) \<le> a" by linarith
      then have "2 ^ (52 + Suc (excess (a div 2))) \<le> a" by (simp only: add_Suc_right power_Suc)
      then show ?thesis using False by (subst excess.simps) (simp only: if_False)
    qed
  }
qed

lemma excess_zero: "a < 2 ^ 53 \<Longrightarrow> excess a = 0"
  by (simp add: excess.simps)

lemma excess_le: "a < 2 ^ (53 + k) \<Longrightarrow> excess a \<le> k"
proof (rule ccontr)
  assume a: "a < 2 ^ (53 + k)" and "\<not> excess a \<le> k"
  then have "(2::int) ^ (53 + k) \<le> 2 ^ (52 + excess a)" by (intro power_increasing) auto
  moreover have "2 ^ (52 + excess a) \<le> a" using excess_bounds(2) [of a] \<open>\<not> excess a \<le> k\<close> by simp
  ultimately show False using a by linarith
qed

lemma round_even_bounds: "a div u \<le> round_even a u" "round_even a u \<le> a div u + 1"
  by (auto simp: round_even_def Let_def)

lemma round_even_exact: "0 < u \<Longrightarrow> u dvd a \<Longrightarrow> round_even a u * u = a"
  by (auto simp: round_even_def)

lemma round_even_mono:
  assumes "0 < u" "a \<le> b"
  shows "round_even a u \<le> round_even b u"
proof (cases "a div u = b div u")
  case True
  then have "a mod u \<le> b mod u" using assms(2) by (simp add: minus_div_mult_eq_mod [symmetric])
  then show ?thesis using True by (auto simp: round_even_def Let_def)
next
  case False
  then have "a div u < b div u" using zdiv_mono1 [OF assms(2,1)] by simp
  then show ?thesis using round_even_bounds(2) [of a u] round_even_bounds(1) [of b u] by linarith
qed

lemma float_nat_small: "a < 2 ^ 53 \<Longrightarrow> float_nat a = a"
  using round_even_exact [of 1 a] by (simp add: float_nat_def excess_zero)

lemma float_nat_exact:
  assumes "0 \<le> b" "b \<le> 2 ^ 53"
  shows "float_nat (b * 2 ^ k) = b * 2 ^ k"
proof -
  have "(2::int) ^ excess (b * 2 ^ k) dvd b * 2 ^ k"
  proof (cases "b = 2 ^ 53")
    case True
    then have b: "b * 2 ^ k = 2 ^ (53 + k)" by (simp add: power_add)
    moreover have "(2::int) ^ (53 + k) < 2 ^ (53 + Suc k)" by (rule power_strict_increasing) simp_all
    ultimately have "excess (b * 2 ^ k) \<le> Suc k" using excess_le by metis
    then show ?thesis unfolding b by (intro le_imp_power_dvd) simp
  next
    case False
    then have "b * 2 ^ k < 2 ^ 53 * 2 ^ k" using assms(2) by simp
    then have "excess (b * 2 ^ k) \<le> k" by (intro excess_le) (simp add: power_add)
    then show ?thesis by (intro dvd_mult le_imp_power_dvd)
  qed
  then show ?thesis by (simp add: float_nat_def round_even_exact)
qed

lemma float_nat_mono:
  assumes "0 \<le> a" "a \<le> b"
  shows "float_nat a \<le> float_nat b"
proof -
  let ?s = "excess a" and ?t = "excess b"
  have "?s \<le> ?t" by (rule excess_le) (use assms(2) excess_bounds(1) [of b] in linarith)
  then consider "?s = ?t" | "?s < ?t" by linarith
  then show ?thesis
  proof cases
    case 1
    then show ?thesis using round_even_mono [OF _ assms(2), of "2 ^ ?t"]
      by (simp add: float_nat_def Let_def mult_right_mono)
  next
    case 2
    have "a div 2 ^ ?s < 2 ^ 53"
    proof (rule ccontr)
      assume "\<not> a div 2 ^ ?s < 2 ^ 53"
      then have "2 ^ 53 * 2 ^ ?s \<le> a div 2 ^ ?s * 2 ^ ?s" by (intro mult_right_mono) auto
      also have "\<dots> \<le> a" by (simp add: minus_mod_eq_div_mult [symmetric])
      finally show False using excess_bounds(1) [of a] by (simp add: power_add)
    qed
    then have "round_even a (2 ^ ?s) \<le> 2 ^ 53" using round_even_bounds(2) [of a "2 ^ ?s"] by linarith
    then have "round_even a (2 ^ ?s) * 2 ^ ?s \<le> 2 ^ 53 * 2 ^ ?s" by (intro mult_right_mono) auto
    then have "float_nat a \<le> 2 ^ 53 * 2 ^ ?s" by (simp only: float_nat_def Let_def)
    also have "\<dots> = 2 ^ (53 + ?s)" by (simp add: power_add)
    also have "(2::int) ^ (53 + ?s) \<le> 2 ^ (52 + ?t)" using 2 by (intro power_increasing) auto
    also have "(2::int) ^ (52 + ?t) = 2 ^ (52 + ?t) div 2 ^ ?t * 2 ^ ?t" by (simp add: power_add)
    also have "\<dots> \<le> b div 2 ^ ?t * 2 ^ ?t"
      using excess_bounds(2) [of b] 2 by (intro mult_right_mono zdiv_mono1) auto
    also have "\<dots> \<le> float_nat b"
      unfolding float_nat_def Let_def using round_even_bounds(1) [of b "2 ^ ?t"] by (intro mult_right_mono) auto
    finally show ?thesis .
  qed
qed

lemma float_nat_nonneg: "0 \<le> a \<Longrightarrow> 0 \<le> float_nat a"
  using float_nat_mono [of 0 a] float_nat_small [of 0] by simp

text \<open>Rounding keeps a large value large, and inside the range of a duration below \<open>2 ^ 62\<close>.\<close>

lemma float_nat_large:
  assumes "2 ^ 53 \<le> a" "a < 2 ^ 62"
  shows "2 ^ 53 \<le> float_nat a" "float_nat a \<le> 2 ^ 62"
  using float_nat_mono [of "2 ^ 53" a] float_nat_mono [of a "2 ^ 62"] assms
    float_nat_exact [of "2 ^ 53" 0] float_nat_exact [of "2 ^ 53" 9] by simp_all

text \<open>A fraction of a value lies between zero and the value.\<close>

lemma float_fraction_bounds:
  assumes "m < 2 ^ 53" "0 \<le> b" "b \<le> 2 ^ 53"
  shows "0 \<le> float_fraction m b" "float_fraction m b \<le> b"
proof -
  have "int m * b \<le> 2 ^ 53 * b" using assms(1,2) by (intro mult_right_mono) auto
  then have "float_nat (int m * b) \<le> float_nat (b * 2 ^ 53)"
    using assms(2) by (intro float_nat_mono) (simp_all add: mult.commute)
  then have "float_nat (int m * b) \<le> b * 2 ^ 53" using float_nat_exact [OF assms(2,3), of 53] by simp
  then have "float_nat (int m * b) div 2 ^ 53 \<le> b * 2 ^ 53 div 2 ^ 53" by (intro zdiv_mono1) simp_all
  moreover have "0 \<le> float_nat (int m * b) div 2 ^ 53"
    using float_nat_nonneg [of "int m * b"] assms(2) by (simp add: pos_imp_zdiv_nonneg_iff)
  ultimately show "0 \<le> float_fraction m b" "float_fraction m b \<le> b"
    using assms(2) by (cases "b = 0"; simp add: float_fraction_def)+
qed

end
