(* ===== verification/S3_Retry.thy ===== *)
theory S3_Retry
  imports Go_Errors Go_Float
begin

text \<open>
  \<^verbatim>\<open>pkg/storage/s3/retry.go\<close>: which errors are worth another attempt, and the retry loop
  with exponential backoff and jitter.  The operation is a function on the world; the captured
  result variable of the closure is the value of a successful attempt.  The delays are computed in
  \<^verbatim>\<open>float64\<close> as the code does, with \<^verbatim>\<open>Go_Float\<close>.
\<close>

section \<open>Configuration and classification\<close>

text \<open>Durations are nanoseconds.\<close>

record retry_config =
  rc_max_retries :: int
  rc_base_delay :: int
  rc_max_delay :: int

definition default_retry_config :: retry_config where
  "default_retry_config = \<lparr>rc_max_retries = 5, rc_base_delay = 100000000, rc_max_delay = 5000000000\<rparr>"

definition transient_codes :: "string list" where
  "transient_codes =
     [''RequestTimeout'', ''RequestTimeoutException'', ''SlowDown'', ''TooManyRequestsException'',
      ''InternalError'', ''ServiceUnavailable'', ''500'', ''502'', ''503'', ''504'']"

definition permanent_codes :: "string list" where
  "permanent_codes =
     [''NoSuchBucket'', ''NoSuchKey'', ''NotFound'', ''AccessDenied'', ''InvalidAccessKeyId'',
      ''SignatureDoesNotMatch'']"

definition transient_texts :: "string list" where
  "transient_texts =
     [''slowdown'', ''too many requests'', ''connection reset'', ''connection refused'',
      ''503'', ''502'', ''504'', ''timeout'']"

definition transient_text :: "go_error \<Rightarrow> bool" where
  "transient_text e \<longleftrightarrow> (let msg = to_lower (err_msg e) in list_ex (contains_str msg) transient_texts)"

text \<open>\<^verbatim>\<open>IsTransient\<close> of an error that is not nil.\<close>

definition is_transient :: "go_error \<Rightarrow> bool" where
  "is_transient e \<longleftrightarrow>
     (if err_is e ErrCanceled \<or> err_is e ErrDeadlineExceeded then False
      else if err_timeout e = Some True then True
      else if err_is e ErrUnexpectedEOF \<or> err_is e ErrConnReset then True
      else (case err_api e of
          Some code \<Rightarrow>
            if code \<in> set transient_codes then True
            else if code \<in> set permanent_codes then False
            else transient_text e
        | None \<Rightarrow> transient_text e))"

section \<open>The retry loop\<close>

text \<open>
  The backoff after attempt \<open>i\<close>, and the duration the jitter makes of it: \<^verbatim>\<open>rand.Float64\<close> is
  \<open>u i / 2 ^ 53\<close> for a random \<open>u i\<close> below \<open>2 ^ 53\<close>.  What the conversion to a duration makes of no
  number, an infinity or a value out of range is the machine's, \<open>wide\<close>.
\<close>

definition backoff :: "retry_config \<Rightarrow> nat \<Rightarrow> go_float" where
  "backoff cfg i = float_min (Finite (float_int (rc_max_delay cfg))) (times_pow2 (float_int (rc_base_delay cfg)) i)"


text \<open>
  \<open>retry_run sl n i cx op w\<close> makes attempt \<open>i\<close> with \<open>n\<close> further attempts allowed, and lists the
  durations it waits for: \<open>sl i\<close> after attempt \<open>i\<close>.  The context is asked before attempt \<open>i\<close> (check
  \<open>2 i\<close>) and while sleeping after it (check \<open>2 i + 1\<close>).
\<close>

fun retry_run :: "(nat \<Rightarrow> int) \<Rightarrow> nat \<Rightarrow> nat \<Rightarrow> ctx \<Rightarrow> ('w \<Rightarrow> 'w \<times> 'a res) \<Rightarrow> 'w \<Rightarrow> int list \<times> 'w \<times> 'a option res" where
  "retry_run sl n i cx op w =
     (case cx (2 * i) of
        Some e \<Rightarrow> ([], w, Err e)
      | None \<Rightarrow>
          (case op w of
             (w1, Inr x) \<Rightarrow> ([], w1, Ok (Some x))
           | (w1, Inl e) \<Rightarrow>
               if \<not> is_transient e \<or> n = 0 then ([], w1, Err e)
               else (case cx (2 * i + 1) of
                   Some e' \<Rightarrow> ([sl i], w1, Err e')
                 | None \<Rightarrow>
                     (case n of
                        0 \<Rightarrow> ([], w1, Err e)
                      | Suc m \<Rightarrow> (case retry_run sl m (Suc i) cx op w1 of (ss, r) \<Rightarrow> (sl i # ss, r))))))"

declare retry_run.simps [simp del]

text \<open>The world and the result of the loop do not depend on how long it waits.\<close>

definition retry_loop :: "nat \<Rightarrow> nat \<Rightarrow> ctx \<Rightarrow> ('w \<Rightarrow> 'w \<times> 'a res) \<Rightarrow> 'w \<Rightarrow> 'w \<times> 'a option res" where
  "retry_loop n i cx op w = snd (retry_run (\<lambda>i. 0) n i cx op w)"

lemma retry_loop_simps:
  "retry_loop n i cx op w =
     (case cx (2 * i) of
        Some e \<Rightarrow> (w, Err e)
      | None \<Rightarrow>
          (case op w of
             (w1, Inr x) \<Rightarrow> (w1, Ok (Some x))
           | (w1, Inl e) \<Rightarrow>
               if \<not> is_transient e \<or> n = 0 then (w1, Err e)
               else (case cx (2 * i + 1) of
                   Some e' \<Rightarrow> (w1, Err e')
                 | None \<Rightarrow> (case n of 0 \<Rightarrow> (w1, Err e) | Suc m \<Rightarrow> retry_loop m (Suc i) cx op w1))))"
  unfolding retry_loop_def
  by (subst retry_run.simps) (auto split: option.split prod.split sum.split nat.split)

text \<open>
  With a negative number of retries the loop body never runs: no error, and no result either.
\<close>

definition execute_with_retry :: "ctx \<Rightarrow> retry_config \<Rightarrow> ('w \<Rightarrow> 'w \<times> 'a res) \<Rightarrow> 'w \<Rightarrow> 'w \<times> 'a option res" where
  "execute_with_retry cx cfg op w =
     (if rc_max_retries cfg < 0 then (w, Ok None) else retry_loop (nat (rc_max_retries cfg)) 0 cx op w)"


section \<open>Lemmas\<close>

text \<open>An operation with a count of its own runs.\<close>

definition counted :: "('w \<Rightarrow> 'w \<times> 'a res) \<Rightarrow> 'w \<times> nat \<Rightarrow> ('w \<times> nat) \<times> 'a res" where
  "counted op = (\<lambda>(w, c). case op w of (w1, r) \<Rightarrow> ((w1, Suc c), r))"

lemma retry_loop_counted:
  "c < snd (fst (retry_loop n i background (counted op) (w, c))) \<and>
   snd (fst (retry_loop n i background (counted op) (w, c))) \<le> c + Suc n"
proof (induction n arbitrary: i w c)
  case 0
  show ?case by (auto simp: retry_loop_simps [of 0] counted_def split: prod.split sum.split)
next
  case (Suc n)
  obtain w1 r where op: "op w = (w1, r)" by force
  show ?case
    using Suc.IH [where i = "Suc i" and w = w1 and c = "Suc c"] op
    by (auto simp: retry_loop_simps [of "Suc n"] counted_def [of op, abs_def] split: sum.split)
qed

lemma retry_loop_result:
  assumes "retry_loop n i cx op w = (w', Inr r)"
  shows "\<exists>x w0. r = Some x \<and> op w0 = (w', Inr x)"
  using assms
proof (induction n arbitrary: i w)
  case 0
  then show ?case
    by (cases "op w") (auto simp: retry_loop_simps [of 0] split: option.splits sum.splits if_splits)
next
  case (Suc n)
  then show ?case
    by (cases "op w") (fastforce simp: retry_loop_simps [of "Suc n"] split: option.splits sum.splits if_splits)
qed

lemma retry_loop_permanent:
  "op w = (w1, Inl e) \<Longrightarrow> \<not> is_transient e \<Longrightarrow> cx (2 * i) = None \<Longrightarrow> retry_loop n i cx op w = (w1, Err e)"
  by (simp add: retry_loop_simps [of n])

lemma retry_loop_success:
  "op w = (w1, Inr x) \<Longrightarrow> cx (2 * i) = None \<Longrightarrow> retry_loop n i cx op w = (w1, Ok (Some x))"
  by (simp add: retry_loop_simps [of n])

text \<open>
  A service that refuses at most \<open>fails w\<close> more requests for a transient reason: the loop gets
  through to an answer that counts when it has as many retries.
\<close>

lemma retry_loop_through:
  assumes "fails w \<le> n" "Q w"
    and step: "\<And>v. Q v \<Longrightarrow> (\<exists>v1 e. op v = (v1, Inl e) \<and> is_transient e \<and> Q v1 \<and> fails v1 < fails v \<and> same v v1) \<or> P v (op v)"
    and counts: "\<And>v v1 e. P v (v1, Inl e) \<Longrightarrow> \<not> is_transient e"
    and "\<And>v. same v v" "\<And>a b c. same a b \<Longrightarrow> same b c \<Longrightarrow> same a c"
  shows "\<exists>v. same w v \<and> Q v \<and> fails v \<le> fails w \<and> P v (op v)
    \<and> retry_loop n i background op w = (fst (op v), case snd (op v) of Inl e \<Rightarrow> Err e | Inr x \<Rightarrow> Ok (Some x))"
  using assms(1,2)
proof (induction n arbitrary: w i)
  case 0
  then have "P w (op w)" using step [OF 0(2)] by auto
  then show ?case using counts [of w] assms(5) 0
    by (intro exI [of _ w]) (auto simp: retry_loop_simps [of 0] split: prod.split sum.split)
next
  case (Suc n)
  consider (refused) v1 e where "op w = (v1, Inl e)" "is_transient e" "Q v1" "fails v1 < fails w" "same w v1"
    | (counted) "P w (op w)" using step [OF Suc.prems(2)] by blast
  then show ?case
  proof cases
    case refused
    then have "fails v1 \<le> n" using Suc.prems(1) by linarith
    then obtain v where "same v1 v" "Q v" "fails v \<le> fails v1" "P v (op v)"
      "retry_loop n (Suc i) background op v1 = (fst (op v), case snd (op v) of Inl e \<Rightarrow> Err e | Inr x \<Rightarrow> Ok (Some x))"
      using Suc.IH [of v1 "Suc i"] refused(3) by blast
    moreover have "retry_loop (Suc n) i background op w = retry_loop n (Suc i) background op v1"
      using refused(1,2) by (simp add: retry_loop_simps [of "Suc n"])
    ultimately show ?thesis using refused(4,5) assms(6) [of w v1 v] by (intro exI [of _ v]) (simp del: background_simp)
  next
    case counted
    then show ?thesis using counts [of w] assms(5) Suc.prems
      by (intro exI [of _ w]) (auto simp: retry_loop_simps [of "Suc n"] split: prod.split sum.split)
  qed
qed


lemma float_int_small: "0 \<le> a \<Longrightarrow> a \<le> 2 ^ 53 \<Longrightarrow> float_int a = a"
  using float_nat_exact [of a 0] by (simp add: float_int_def)


section \<open>Properties\<close>

lemma retry_loop_attempts:
  "snd (fst (retry_loop n i cx (counted op) (w, c))) \<le> c + Suc n"
proof (induction n arbitrary: i w c)
  case 0
  show ?case by (auto simp: retry_loop_simps [of 0] counted_def split: prod.split sum.split option.split)
next
  case (Suc n)
  obtain w1 r where op: "op w = (w1, r)" by force
  show ?case
    using Suc.IH [where i = "Suc i" and w = w1 and c = "Suc c"] op
    by (auto simp: retry_loop_simps [of "Suc n"] counted_def [of op, abs_def] split: sum.split option.split)
qed

text \<open>C30: The retry loop makes at most MaxRetries + 1 attempts, whatever the operation answers and whenever the context is cancelled; with a live context and a MaxRetries that is not negative it makes at least one.\<close>

lemma retry_attempts:
  "snd (fst (execute_with_retry cx cfg (counted op) (w, 0))) \<le> nat (rc_max_retries cfg + 1) \<and>
   (0 \<le> rc_max_retries cfg \<longrightarrow> 1 \<le> snd (fst (execute_with_retry background cfg (counted op) (w, 0))))"
proof -
  have a: "snd (fst (retry_loop n 0 cx (counted op) (w, 0))) \<le> Suc n" for n
    using retry_loop_attempts [of n 0 cx op w 0] by simp
  have b: "0 < snd (fst (retry_loop n 0 background (counted op) (w, 0)))" for n
    using retry_loop_counted [of 0 n 0 op w] by simp
  have "Suc (nat (rc_max_retries cfg)) = nat (rc_max_retries cfg + 1)" if "0 \<le> rc_max_retries cfg"
    using that by simp
  then show ?thesis
    using a [of "nat (rc_max_retries cfg)"] b [of "nat (rc_max_retries cfg)"]
    by (auto simp: execute_with_retry_def simp del: background_simp)
qed

lemma retry_attempts_witness:
  "snd (fst (execute_with_retry background default_retry_config
      (counted (\<lambda>w. (w, Err ErrConnReset :: unit res))) ((), 0))) \<le> 6"
  using retry_attempts [of background default_retry_config "\<lambda>w. (w, Err ErrConnReset :: unit res)" "()"]
  by (simp add: default_retry_config_def)

text \<open>C29: An operation that is refused for transient reasons no more often than there are retries succeeds in the end, after exactly one attempt more than it was refused.\<close>

lemma retry_gets_through:
  assumes "\<forall>i<k. is_transient (errs i)" "int k \<le> rc_max_retries cfg"
  shows "execute_with_retry background cfg (\<lambda>c. (Suc c, if c < k then Err (errs c) else Ok x)) 0
    = (Suc k, Ok (Some x))"
proof -
  let ?op = "\<lambda>c. (Suc c, if c < k then Err (errs c) else Ok x)"
  have "c \<le> k \<Longrightarrow> k - c \<le> n \<Longrightarrow> retry_loop n i background ?op c = (Suc k, Ok (Some x))" for n i c
  proof (induction n arbitrary: i c)
    case 0
    then show ?case by (simp add: retry_loop_simps [of 0])
  next
    case (Suc n)
    show ?case
    proof (cases "c < k")
      case True
      then show ?thesis using Suc.IH [of "Suc c" "Suc i"] Suc.prems assms(1)
        by (simp add: retry_loop_simps [of "Suc n"])
    next
      case False
      then show ?thesis using Suc.prems by (simp add: retry_loop_simps [of "Suc n"])
    qed
  qed
  from this [of 0 "nat (rc_max_retries cfg)" 0] show ?thesis
    using assms(2) by (simp add: execute_with_retry_def)
qed

lemma retry_gets_through_witness:
  "execute_with_retry background default_retry_config
     (\<lambda>c. (Suc c, if c < 2 then Err ErrConnReset else Ok True)) 0 = (Suc 2, Ok (Some True))"
  by (rule retry_gets_through [where errs = "\<lambda>_. ErrConnReset"])
    (simp_all add: is_transient_def default_retry_config_def)

text \<open>An error that is not transient is reported at once: the operation is not tried again, whatever the number of retries.\<close>

lemma retry_permanent_once:
  assumes "0 \<le> rc_max_retries cfg" "\<not> is_transient e"
  shows "execute_with_retry background cfg (counted (\<lambda>w. (f w, Err e))) (w, 0) = ((f w, 1), Err e)"
  using assms by (simp add: execute_with_retry_def retry_loop_simps counted_def)

lemma retry_permanent_once_witness:
  "execute_with_retry background default_retry_config (counted (\<lambda>w. (w, Err ErrNotFound :: unit res))) ((), 0)
     = (((), 1), Err ErrNotFound)"
  by (rule retry_permanent_once [where f = "\<lambda>w. w"]) code_simp+



text \<open>Outside these bounds the computation leaves the numbers: a base delay of zero times an infinite power is none.\<close>

lemma backoff_no_number: "backoff \<lparr>rc_max_retries = 2000, rc_base_delay = 0, rc_max_delay = 5\<rparr> 1024 = NaN"
  by (simp add: backoff_def times_pow2_def float_int_small)

end
