(* ===== verification/S3_Driver.thy ===== *)
theory S3_Driver
  imports Storage_Driver S3_Retry
begin

text \<open>
  \<^verbatim>\<open>pkg/storage/s3/s3.go\<close>: the driver over an S3 service.  The service behind the AWS SDK is
  a parameter: a record of functions, one per request the driver makes.  What the driver relies on
  is stated in the locale \<open>s3_service\<close> of \<^verbatim>\<open>S3_Service\<close>, which is interpreted on the
  repository's own S3 server.
\<close>

section \<open>Requests and answers\<close>

text \<open>The numbers of the parts are 32-bit integers: \<open>+\<close> wraps around.\<close>

type_synonym int32 = "32 word"

record s3_listed =
  sl_key :: string
  sl_size :: int
  sl_modtime :: "int option"
  sl_etag :: string

record s3_list_input =
  si_prefix :: "string option"
  si_max_keys :: "int option"
  si_token :: "string option"
  si_delimiter :: "string option"

record s3_list_output =
  so_contents :: "s3_listed list"
  so_prefixes :: "string list"
  so_next :: "string option"
  so_truncated :: bool

record s3_head_output =
  sh_size :: int
  sh_modtime :: "int option"
  sh_etag :: string
  sh_ctype :: string
  sh_meta :: "(string \<times> string) list"

record 'w s3_client =
  sc_get :: "string \<Rightarrow> string \<Rightarrow> 'w \<Rightarrow> 'w \<times> reader res"
  sc_put :: "string \<Rightarrow> string \<Rightarrow> bytes \<Rightarrow> string option \<Rightarrow> (string \<times> string) list \<Rightarrow> 'w \<Rightarrow> 'w \<times> unit res"
  sc_create :: "string \<Rightarrow> string \<Rightarrow> string option \<Rightarrow> (string \<times> string) list \<Rightarrow> 'w \<Rightarrow> 'w \<times> string res"
  sc_upload_part :: "string \<Rightarrow> string \<Rightarrow> string \<Rightarrow> int32 \<Rightarrow> bytes \<Rightarrow> 'w \<Rightarrow> 'w \<times> string res"
  sc_complete :: "string \<Rightarrow> string \<Rightarrow> string \<Rightarrow> (int32 \<times> string) list \<Rightarrow> 'w \<Rightarrow> 'w \<times> unit res"
  sc_abort :: "string \<Rightarrow> string \<Rightarrow> string \<Rightarrow> 'w \<Rightarrow> 'w \<times> unit res"
  sc_list :: "string \<Rightarrow> s3_list_input \<Rightarrow> 'w \<Rightarrow> 'w \<times> s3_list_output res"
  sc_delete :: "string \<Rightarrow> string \<Rightarrow> 'w \<Rightarrow> 'w \<times> unit res"
  sc_head :: "string \<Rightarrow> string \<Rightarrow> 'w \<Rightarrow> 'w \<times> s3_head_output res"

section \<open>The driver\<close>

text \<open>
  The threshold of single uploads, which is also the size of the parts, is a field so that the
  driver can be run on small data; \<open>multipart_threshold\<close> is the value of the code.
\<close>

definition multipart_threshold :: int where
  "multipart_threshold = 16 * 1024 * 1024"

record 'w s3 =
  s3_client :: "'w s3_client"
  s3_bucket :: string
  s3_retry :: retry_config
  s3_threshold :: int

record s3_config =
  cfg_endpoint :: string
  cfg_region :: string
  cfg_bucket :: string
  cfg_access_key :: string
  cfg_secret_key :: string
  cfg_path_style :: bool
  cfg_retry :: retry_config

text \<open>
  \<^verbatim>\<open>New\<close>: \<open>connect\<close> stands for the SDK's client construction from the region, the static
  credentials (only when both are given), the endpoint (when given) and the addressing style.
\<close>

definition s3_new ::
  "(string \<Rightarrow> (string \<times> string) option \<Rightarrow> string option \<Rightarrow> bool \<Rightarrow> 'w s3_client res) \<Rightarrow> s3_config \<Rightarrow> 'w s3 res" where
  "s3_new connect cfg =
     (if cfg_bucket cfg = '''' then Err (ErrText ''s3: bucket name is required'')
      else
        let region = (if cfg_region cfg = '''' then ''us-east-1'' else cfg_region cfg);
            retry = (if rc_max_retries (cfg_retry cfg) = 0 then default_retry_config else cfg_retry cfg);
            creds = (if cfg_access_key cfg \<noteq> '''' \<and> cfg_secret_key cfg \<noteq> ''''
                     then Some (cfg_access_key cfg, cfg_secret_key cfg) else None);
            endpoint = (if cfg_endpoint cfg \<noteq> '''' then Some (cfg_endpoint cfg) else None)
        in (case connect region creds endpoint (cfg_path_style cfg) of
              Inl e \<Rightarrow> Err (errorf_w ''s3: failed to load aws config'' e)
            | Inr c \<Rightarrow> Ok \<lparr>s3_client = c, s3_bucket = cfg_bucket cfg, s3_retry = retry,
                           s3_threshold = multipart_threshold\<rparr>))"

definition s3_new_with_client :: "'w s3_client \<Rightarrow> string \<Rightarrow> retry_config list \<Rightarrow> 'w s3" where
  "s3_new_with_client c bucket rs =
     \<lparr>s3_client = c, s3_bucket = bucket,
      s3_retry = (case rs of [] \<Rightarrow> default_retry_config | r # _ \<Rightarrow> r),
      s3_threshold = multipart_threshold\<rparr>"

definition s3_clean_key :: "string \<Rightarrow> string" where
  "s3_clean_key k = trim_prefix (slashed k) ''/''"

text \<open>The answer of a request that never ran is nil; using it is a run time panic.\<close>

definition nil_deref :: go_error where
  "nil_deref = ErrPanic ''invalid memory address or nil pointer dereference''"

definition s3_read :: "'w s3 \<Rightarrow> ctx \<Rightarrow> string \<Rightarrow> 'w \<Rightarrow> 'w \<times> reader res" where
  "s3_read d cx path w =
     (case execute_with_retry cx (s3_retry d) (sc_get (s3_client d) (s3_bucket d) (s3_clean_key path)) w of
        (w1, Inl e) \<Rightarrow>
          (w1, Err (storage_error ''read'' ''s3'' path
             (if err_api e = Some ''NoSuchKey'' \<or> err_api e = Some ''NotFound'' then ErrNotFound else e)))
      | (w1, Inr None) \<Rightarrow> (w1, Err nil_deref)
      | (w1, Inr (Some body)) \<Rightarrow> (w1, Ok body))"

definition s3_stat :: "'w s3 \<Rightarrow> ctx \<Rightarrow> string \<Rightarrow> 'w \<Rightarrow> 'w \<times> object_info res" where
  "s3_stat d cx path w =
     (let key = s3_clean_key path in
      case execute_with_retry cx (s3_retry d) (sc_head (s3_client d) (s3_bucket d) key) w of
        (w1, Inl e) \<Rightarrow>
          (w1, Err (storage_error ''stat'' ''s3'' path
             (if err_api e \<in> {Some ''NotFound'', Some ''NoSuchKey'', Some ''404''} then ErrNotFound
              else if contains_str (err_msg e) ''404'' \<or> contains_str (to_lower (err_msg e)) ''not found''
                then ErrNotFound
              else e)))
      | (w1, Inr None) \<Rightarrow> (w1, Err nil_deref)
      | (w1, Inr (Some out)) \<Rightarrow>
          (w1, Ok \<lparr>oi_key = key, oi_path = key, oi_size = sh_size out,
                   oi_modtime = (case sh_modtime out of None \<Rightarrow> zero_time | Some t \<Rightarrow> t),
                   oi_isdir = False, oi_etag = trim_cut {CHR 0x22} (sh_etag out),
                   oi_ctype = sh_ctype out, oi_meta = sh_meta out\<rparr>))"

definition ctype_opt :: "write_options \<Rightarrow> string option" where
  "ctype_opt wo = (if wo_ctype wo \<noteq> '''' then Some (wo_ctype wo) else None)"

definition discard :: "'w \<times> 'a res \<Rightarrow> 'w \<times> unit res" where
  "discard wr = (fst wr, case snd wr of Inl e \<Rightarrow> Err e | Inr _ \<Rightarrow> Ok ())"

definition put_single :: "'w s3 \<Rightarrow> ctx \<Rightarrow> string \<Rightarrow> bytes \<Rightarrow> write_options \<Rightarrow> 'w \<Rightarrow> 'w \<times> unit res" where
  "put_single d cx key data wo w =
     discard (execute_with_retry cx (s3_retry d)
       (sc_put (s3_client d) (s3_bucket d) key data (ctype_opt wo) (wo_meta wo)) w)"

text \<open>
  The loop over the parts.  A reader gives at most one part more than its length demands, so the
  fuel is the number of full parts and one; a part is never empty.
\<close>

fun upload_parts :: "nat \<Rightarrow> 'w s3 \<Rightarrow> ctx \<Rightarrow> string \<Rightarrow> string \<Rightarrow> int32 \<Rightarrow> reader \<Rightarrow> (int32 \<times> string) list \<Rightarrow> 'w
    \<Rightarrow> 'w \<times> (int32 \<times> string) list res" where
  "upload_parts 0 d cx key uid num r acc w = (w, Err (ErrPanic ''part bound''))"
| "upload_parts (Suc fuel) d cx key uid num r acc w =
     (let (part, read_err, r1) = read_full (nat (s3_threshold d)) r;
          step = (if part = [] then (w, Ok acc)
                  else (case execute_with_retry cx (s3_retry d)
                               (sc_upload_part (s3_client d) (s3_bucket d) key uid num part) w of
                      (w1, Inl e) \<Rightarrow>
                        (w1, Err (storage_error ''write'' ''s3'' key
                           (errorf_w (''failed to upload part '' @ int_text (sint num)) e)))
                    | (w1, Inr etag) \<Rightarrow> (w1, Ok (acc @ [(num, case etag of None \<Rightarrow> '''' | Some t \<Rightarrow> t)]))))
      in case step of
           (w1, Inl e) \<Rightarrow> (w1, Err e)
         | (w1, Inr acc1) \<Rightarrow>
             (case read_err of
                Some e \<Rightarrow>
                  if e = ErrEOF \<or> e = ErrUnexpectedEOF then (w1, Ok acc1)
                  else (w1, Err (storage_error ''write'' ''s3'' key (errorf_w ''reading multipart stream failed'' e)))
              | None \<Rightarrow>
                  upload_parts fuel d cx key uid (if part = [] then num else num + 1) r1 acc1 w1))"

declare upload_parts.simps(2) [simp del]

definition part_fuel :: "'w s3 \<Rightarrow> reader \<Rightarrow> nat" where
  "part_fuel d r = Suc (Suc (length (rd_data r)))"

text \<open>The deferred abort of an upload that did not complete; its own error is dropped.\<close>

definition abort_upload :: "'w s3 \<Rightarrow> string \<Rightarrow> string \<Rightarrow> 'w \<Rightarrow> 'w" where
  "abort_upload d key uid w = fst (sc_abort (s3_client d) (s3_bucket d) key uid w)"

definition upload_multipart :: "'w s3 \<Rightarrow> ctx \<Rightarrow> string \<Rightarrow> reader \<Rightarrow> int \<Rightarrow> write_options \<Rightarrow> 'w \<Rightarrow> 'w \<times> unit res" where
  "upload_multipart d cx key r total_size wo w =
     (case execute_with_retry cx (s3_retry d)
             (sc_create (s3_client d) (s3_bucket d) key (ctype_opt wo) (wo_meta wo)) w of
        (w1, Inl e) \<Rightarrow> (w1, Err (storage_error ''write'' ''s3'' key (errorf_w ''failed to initiate multipart upload'' e)))
      | (w1, Inr uo) \<Rightarrow>
          (let uid = (case uo of None \<Rightarrow> '''' | Some u \<Rightarrow> u) in
           case upload_parts (part_fuel d r) d cx key uid 1 r [] w1 of
             (w2, Inl e) \<Rightarrow> (abort_upload d key uid w2, Err e)
           | (w2, Inr parts) \<Rightarrow>
               (case execute_with_retry cx (s3_retry d) (sc_complete (s3_client d) (s3_bucket d) key uid parts) w2 of
                  (w3, Inl e) \<Rightarrow>
                    (abort_upload d key uid w3,
                     Err (storage_error ''write'' ''s3'' key (errorf_w ''failed to complete multipart upload'' e)))
                | (w3, Inr _) \<Rightarrow> (w3, Ok ()))))"

text \<open>
  A read error that is not the end of the data: for a known size only the end before the first byte
  is tolerated, and the buffer keeps its zero bytes.
\<close>

definition s3_write_with_options ::
  "'w s3 \<Rightarrow> ctx \<Rightarrow> string \<Rightarrow> reader \<Rightarrow> int \<Rightarrow> write_option list \<Rightarrow> 'w \<Rightarrow> 'w \<times> unit res" where
  "s3_write_with_options d cx path r sz opts w =
     (let key = s3_clean_key path; wo = apply_options opts;
          (w1, exists) =
            (if wo_overwrite wo then (w, False)
             else (case s3_stat d cx path w of (v, Inl _) \<Rightarrow> (v, False) | (v, Inr _) \<Rightarrow> (v, True)))
      in if exists then (w1, Err (storage_error ''write'' ''s3'' path ErrAlreadyExists))
         else if 0 \<le> sz \<and> sz \<le> s3_threshold d then
           (case read_full (nat sz) r of
              (data, e, _) \<Rightarrow>
                (case e of
                   Some er \<Rightarrow>
                     if er \<noteq> ErrEOF \<and> \<not> err_is er ErrEOF
                     then (w1, Err (storage_error ''write'' ''s3'' path er))
                     else put_single d cx key (data @ replicate (nat sz - length data) 0) wo w1
                 | None \<Rightarrow> put_single d cx key data wo w1))
         else if s3_threshold d < sz then upload_multipart d cx key r sz wo w1
         else
           (case read_full (nat (s3_threshold d)) r of
              (data, e, r1) \<Rightarrow>
                (case e of
                   Some er \<Rightarrow>
                     if er = ErrEOF \<or> er = ErrUnexpectedEOF then put_single d cx key data wo w1
                     else (w1, Err (storage_error ''write'' ''s3'' path er))
                 | None \<Rightarrow> upload_multipart d cx key (r1\<lparr>rd_data := data @ rd_data r1\<rparr>) (- 1) wo w1)))"

definition s3_write :: "'w s3 \<Rightarrow> ctx \<Rightarrow> string \<Rightarrow> reader \<Rightarrow> int \<Rightarrow> 'w \<Rightarrow> 'w \<times> unit res" where
  "s3_write d cx path r sz w = s3_write_with_options d cx path r sz [] w"

definition s3_list_request :: "list_options \<Rightarrow> s3_list_input" where
  "s3_list_request lo =
     (let pre = s3_clean_key (lo_prefix lo) in
      \<lparr>si_prefix = (if pre \<noteq> '''' then Some pre else None),
       si_max_keys = (if 0 < lo_max_keys lo then Some (min (lo_max_keys lo) 10000) else None),
       si_token = (if lo_token lo \<noteq> '''' then Some (lo_token lo) else None),
       si_delimiter = (if \<not> lo_recursive lo \<and> lo_delimiter lo \<noteq> '''' then Some (lo_delimiter lo)
                       else if \<not> lo_recursive lo then Some ''/'' else None)\<rparr>)"

definition s3_listed_object :: "s3_listed \<Rightarrow> object_info" where
  "s3_listed_object ob =
     \<lparr>oi_key = sl_key ob, oi_path = sl_key ob, oi_size = sl_size ob,
      oi_modtime = (case sl_modtime ob of None \<Rightarrow> zero_time | Some t \<Rightarrow> t),
      oi_isdir = has_suffix (sl_key ob) ''/'', oi_etag = trim_cut {CHR 0x22} (sl_etag ob),
      oi_ctype = '''', oi_meta = []\<rparr>"

definition s3_prefix_object :: "string \<Rightarrow> object_info" where
  "s3_prefix_object p =
     \<lparr>oi_key = p, oi_path = p, oi_size = 0, oi_modtime = zero_time, oi_isdir = True,
      oi_etag = '''', oi_ctype = '''', oi_meta = []\<rparr>"

definition s3_list_with_options :: "'w s3 \<Rightarrow> ctx \<Rightarrow> list_options \<Rightarrow> 'w \<Rightarrow> 'w \<times> list_result res" where
  "s3_list_with_options d cx lo w =
     (case execute_with_retry cx (s3_retry d) (sc_list (s3_client d) (s3_bucket d) (s3_list_request lo)) w of
        (w1, Inl e) \<Rightarrow> (w1, Err (storage_error ''list'' ''s3'' (lo_prefix lo) e))
      | (w1, Inr None) \<Rightarrow> (w1, Err nil_deref)
      | (w1, Inr (Some out)) \<Rightarrow>
          (w1, Ok \<lparr>lr_objects = map s3_listed_object (so_contents out) @ map s3_prefix_object (so_prefixes out),
                   lr_next = (case so_next out of None \<Rightarrow> '''' | Some t \<Rightarrow> t),
                   lr_truncated = so_truncated out\<rparr>))"

definition s3_list :: "'w s3 \<Rightarrow> ctx \<Rightarrow> string \<Rightarrow> 'w \<Rightarrow> 'w \<times> object_info list res" where
  "s3_list d cx p w =
     (case s3_list_with_options d cx (list_all_under p) w of
        (w1, Inl e) \<Rightarrow> (w1, Err e)
      | (w1, Inr r) \<Rightarrow> (w1, Ok (lr_objects r)))"

definition s3_delete :: "'w s3 \<Rightarrow> ctx \<Rightarrow> string \<Rightarrow> 'w \<Rightarrow> 'w \<times> unit res" where
  "s3_delete d cx path w =
     (case execute_with_retry cx (s3_retry d) (sc_delete (s3_client d) (s3_bucket d) (s3_clean_key path)) w of
        (w1, Inl e) \<Rightarrow>
          (w1, if err_api e = Some ''NoSuchKey'' \<or> err_api e = Some ''NotFound'' then Ok ()
               else Err (storage_error ''delete'' ''s3'' path e))
      | (w1, Inr _) \<Rightarrow> (w1, Ok ()))"

definition s3_stream :: "'w s3 \<Rightarrow> ctx \<Rightarrow> string \<Rightarrow> 'w \<Rightarrow> 'w \<times> bytes \<times> go_error option" where
  "s3_stream d cx path w = stream_from (s3_read d cx path) w"

definition s3_driver :: "'w s3 \<Rightarrow> nat \<Rightarrow> 'w driver" where
  "s3_driver d ident =
     \<lparr>dr_name = ''s3'', dr_id = ident, dr_local_root = None, dr_advanced = True, dr_nil_lists = False,
      dr_read = s3_read d, dr_write = s3_write d, dr_list = s3_list d, dr_delete = s3_delete d,
      dr_stat = s3_stat d, dr_stream = s3_stream d,
      dr_write_opts = s3_write_with_options d, dr_list_opts = s3_list_with_options d\<rparr>"

end
