(* ===== verification/S3_Service.thy ===== *)
theory S3_Service
  imports S3_Driver "HOL-Library.Extended_Nat"
begin

text \<open>
  The interface between the S3 driver and the service behind it.  The locale \<open>s3_service\<close> says what
  the driver relies on, within the limits S3 documents: the length of a key, the sizes and numbers of
  the parts, the size of an object.  A request is either refused for a transient reason, which
  changes nothing and happens at most as often as \<open>busy\<close> says, or it does what it is documented to
  do.  A multipart upload belongs to its key, and completing it asks for the tag the service gave to
  every part.  In the locale the driver's operations are proved to be operations on a map of
  objects, through retries, single uploads and multipart uploads, and the driver is shown to satisfy
  \<open>object_store\<close>.  \<^verbatim>\<open>S3_Server\<close> interprets the locale on the repository's own S3 server.
\<close>

declare background_simp [simp del]

section \<open>Limits\<close>

text \<open>
  The bytes of a key, of a single upload or a part, of every part but the last (at least), the
  highest part number and the bytes of an object.  \<open>aws_limits\<close> are the documented ones.
\<close>

record s3_limits =
  lim_key :: enat
  lim_put :: enat
  lim_min_part :: nat
  lim_parts :: enat
  lim_object :: enat

definition aws_limits :: s3_limits where
  "aws_limits = \<lparr>lim_key = enat 1024, lim_put = enat (5 * 2 ^ 30), lim_min_part = 5 * 2 ^ 20,
     lim_parts = enat 10000, lim_object = enat (5 * 2 ^ 40)\<rparr>"

definition no_limits :: s3_limits where
  "no_limits = \<lparr>lim_key = \<infinity>, lim_put = \<infinity>, lim_min_part = 0, lim_parts = \<infinity>, lim_object = \<infinity>\<rparr>"

definition valid_key :: "s3_limits \<Rightarrow> string \<Rightarrow> bool" where
  "valid_key L k \<longleftrightarrow> k \<noteq> '''' \<and> enat (length k) \<le> lim_key L"

definition valid_part :: "s3_limits \<Rightarrow> int32 \<Rightarrow> bool" where
  "valid_part L n \<longleftrightarrow> 0 < sint n \<and> enat (nat (sint n)) \<le> lim_parts L"

text \<open>The parts a completion names: their contents in order, and what S3 asks of them.\<close>

type_synonym parts = "int32 \<rightharpoonup> bytes \<times> string"

definition joined_parts :: "parts \<Rightarrow> (int32 \<times> string) list \<Rightarrow> bytes" where
  "joined_parts ps named = concat (map (\<lambda>(n, t). fst (the (ps n))) named)"

definition min_parts :: "s3_limits \<Rightarrow> parts \<Rightarrow> (int32 \<times> string) list \<Rightarrow> bool" where
  "min_parts L ps named \<longleftrightarrow> (\<forall>(n, t) \<in> set named. lim_min_part L \<le> length (fst (the (ps n))))"

definition tagged :: "parts \<Rightarrow> (int32 \<times> string) list \<Rightarrow> bool" where
  "tagged ps named \<longleftrightarrow> (\<forall>(n, t) \<in> set named. \<exists>x. ps n = Some (x, t))"

definition completable :: "s3_limits \<Rightarrow> parts \<Rightarrow> (int32 \<times> string) list \<Rightarrow> bool" where
  "completable L ps named \<longleftrightarrow> named \<noteq> [] \<and> sorted_wrt (\<lambda>a b. sint a < sint b) (map fst named)
     \<and> dom ps = set (map fst named) \<and> tagged ps named \<and> min_parts L ps (butlast named)
     \<and> enat (length (joined_parts ps named)) \<le> lim_object L"

section \<open>What the driver relies on\<close>

lemma missing_permanent: "\<not> is_transient (ErrAPI ''NoSuchKey'' m)" "\<not> is_transient (ErrAPI ''NotFound'' m)"
  by (simp_all add: is_transient_def transient_codes_def permanent_codes_def)

text \<open>The answer of a listing, up to the times and tags of the objects.\<close>

definition lists_exactly :: "s3_list_output \<Rightarrow> (string \<rightharpoonup> bytes) \<Rightarrow> bool" where
  "lists_exactly out m \<longleftrightarrow>
     so_prefixes out = [] \<and> distinct (map sl_key (so_contents out)) \<and>
     (\<lambda>ob. (sl_key ob, sl_size ob)) ` set (so_contents out) = {(k, int (length d)) |k d. m k = Some d}"

text \<open>A plain listing request: a prefix, no page size, no token, no delimiter.\<close>

definition plain_request :: "string \<Rightarrow> s3_list_input" where
  "plain_request p = \<lparr>si_prefix = (if p \<noteq> '''' then Some p else None), si_max_keys = None, si_token = None, si_delimiter = None\<rparr>"

definition page_limit :: nat where "page_limit = 1000"

text \<open>
  A request that is refused for a transient reason, and one that is answered: a refusal uses up one
  of the refusals still to come.
\<close>

definition throttled :: "('w \<Rightarrow> bool) \<Rightarrow> ('w \<Rightarrow> nat) \<Rightarrow> ('w \<Rightarrow> 'o) \<Rightarrow> ('w \<Rightarrow> 'u) \<Rightarrow> 'w \<Rightarrow> 'w \<times> 'a res \<Rightarrow> bool" where
  "throttled live busy objs ups w a \<longleftrightarrow> live (fst a) \<and> busy (fst a) < busy w \<and> objs (fst a) = objs w
     \<and> ups (fst a) = ups w \<and> (\<exists>e. snd a = Inl e \<and> is_transient e)"

definition settled :: "('w \<Rightarrow> bool) \<Rightarrow> ('w \<Rightarrow> nat) \<Rightarrow> 'w \<Rightarrow> 'w \<Rightarrow> bool" where
  "settled live busy w w1 \<longleftrightarrow> live w1 \<and> busy w1 \<le> busy w"

text \<open>The uploads by key and identifier: those of other identifiers stay, or all of this one are gone.\<close>

type_synonym uploads = "string \<Rightarrow> string \<rightharpoonup> parts"

definition elsewhere :: "string \<Rightarrow> uploads \<Rightarrow> uploads \<Rightarrow> bool" where
  "elsewhere u U V \<longleftrightarrow> (\<forall>k u'. u' \<noteq> u \<longrightarrow> V k u' = U k u')"

definition dropped_upload :: "string \<Rightarrow> uploads \<Rightarrow> uploads \<Rightarrow> bool" where
  "dropped_upload u U V \<longleftrightarrow> elsewhere u U V \<and> (\<forall>k. V k u = None)"

locale s3_service =
  fixes C :: "'w s3_client"
    and bucket :: string
    and L :: s3_limits
    and live :: "'w \<Rightarrow> bool"
    and busy :: "'w \<Rightarrow> nat"
    and objs :: "'w \<Rightarrow> string \<rightharpoonup> bytes"
    and ups :: "'w \<Rightarrow> uploads"
  assumes get_law: "live w \<Longrightarrow> valid_key L k \<Longrightarrow> throttled live busy objs ups w (sc_get C bucket k w) \<or>
      (\<exists>w1 m. sc_get C bucket k w = (w1, case objs w k of None \<Rightarrow> Inl (ErrAPI ''NoSuchKey'' m) | Some d \<Rightarrow> Inr (bytes_reader d))
         \<and> settled live busy w w1 \<and> objs w1 = objs w \<and> ups w1 = ups w)"
    and head_law: "live w \<Longrightarrow> valid_key L k \<Longrightarrow> throttled live busy objs ups w (sc_head C bucket k w) \<or>
      (\<exists>w1 m out. sc_head C bucket k w = (w1, case objs w k of None \<Rightarrow> Inl (ErrAPI ''NotFound'' m) | Some d \<Rightarrow> Inr out)
         \<and> (\<forall>d. objs w k = Some d \<longrightarrow> sh_size out = int (length d))
         \<and> settled live busy w w1 \<and> objs w1 = objs w \<and> ups w1 = ups w)"
    and put_law: "live w \<Longrightarrow> valid_key L k \<Longrightarrow> enat (length d) \<le> lim_put L \<Longrightarrow>
      throttled live busy objs ups w (sc_put C bucket k d ct mt w) \<or>
      (\<exists>w1. sc_put C bucket k d ct mt w = (w1, Inr ())
         \<and> settled live busy w w1 \<and> objs w1 = (objs w)(k \<mapsto> d) \<and> ups w1 = ups w)"
    and delete_law: "live w \<Longrightarrow> valid_key L k \<Longrightarrow> throttled live busy objs ups w (sc_delete C bucket k w) \<or>
      (\<exists>w1. sc_delete C bucket k w = (w1, Inr ())
         \<and> settled live busy w w1 \<and> objs w1 = (objs w)(k := None) \<and> ups w1 = ups w)"
    and create_law: "live w \<Longrightarrow> valid_key L k \<Longrightarrow> throttled live busy objs ups w (sc_create C bucket k ct mt w) \<or>
      (\<exists>w1 u. sc_create C bucket k ct mt w = (w1, Inr u) \<and> (\<forall>k'. ups w k' u = None)
         \<and> settled live busy w w1 \<and> objs w1 = objs w \<and> elsewhere u (ups w) (ups w1) \<and> ups w1 k u = Some Map.empty)"
    and part_law: "live w \<Longrightarrow> valid_key L k \<Longrightarrow> ups w k u = Some ps \<Longrightarrow> valid_part L n \<Longrightarrow> enat (length d) \<le> lim_put L \<Longrightarrow>
      throttled live busy objs ups w (sc_upload_part C bucket k u n d w) \<or>
      (\<exists>w1 t. sc_upload_part C bucket k u n d w = (w1, Inr t)
         \<and> settled live busy w w1 \<and> objs w1 = objs w \<and> elsewhere u (ups w) (ups w1) \<and> ups w1 k u = Some (ps(n \<mapsto> (d, t))))"
    and complete_law: "live w \<Longrightarrow> valid_key L k \<Longrightarrow> ups w k u = Some ps \<Longrightarrow> completable L ps named \<Longrightarrow>
      throttled live busy objs ups w (sc_complete C bucket k u named w) \<or>
      (\<exists>w1. sc_complete C bucket k u named w = (w1, Inr ())
         \<and> settled live busy w w1 \<and> objs w1 = (objs w)(k \<mapsto> joined_parts ps named) \<and> dropped_upload u (ups w) (ups w1))"
    and abort_law: "live w \<Longrightarrow> valid_key L k \<Longrightarrow> ups w k u = Some ps \<Longrightarrow>
      throttled live busy objs ups w (sc_abort C bucket k u w) \<or>
      (\<exists>w1 r. sc_abort C bucket k u w = (w1, r)
         \<and> settled live busy w w1 \<and> objs w1 = objs w \<and> dropped_upload u (ups w) (ups w1))"
    and list_law: "live w \<Longrightarrow> finite (dom (objs w)) \<Longrightarrow> card (dom (objs w)) \<le> page_limit \<Longrightarrow>
      throttled live busy objs ups w (sc_list C bucket (plain_request p) w) \<or>
      (\<exists>w1 out. sc_list C bucket (plain_request p) w = (w1, Inr out)
         \<and> lists_exactly out ((objs w) |` {k. has_prefix k p})
         \<and> settled live busy w w1 \<and> objs w1 = objs w \<and> ups w1 = ups w)"
begin

definition kept :: "'w \<Rightarrow> 'w \<Rightarrow> bool" where
  "kept w w1 \<longleftrightarrow> objs w1 = objs w \<and> ups w1 = ups w"

lemma kept_refl: "kept w w" and kept_trans: "kept a b \<Longrightarrow> kept b c \<Longrightarrow> kept a c"
  by (simp_all add: kept_def)

text \<open>Retrying gets through to an answer when there are as many retries as refusals to come.\<close>

lemma through:
  assumes law: "\<And>v. live v \<Longrightarrow> kept w v \<Longrightarrow> throttled live busy objs ups v (op v) \<or> P v (op v)"
    and "\<And>v v1 e. P v (v1, Inl e) \<Longrightarrow> \<not> is_transient e"
    and "live w" "int (busy w) \<le> rc_max_retries cfg"
  shows "\<exists>v. live v \<and> busy v \<le> busy w \<and> kept w v \<and> P v (op v)
    \<and> execute_with_retry background cfg op w = (fst (op v), case snd (op v) of Inl e \<Rightarrow> Err e | Inr x \<Rightarrow> Ok (Some x))"
proof -
  let ?n = "nat (rc_max_retries cfg)" and ?Q = "\<lambda>v. live v \<and> kept w v"
  have b: "busy w \<le> ?n" using assms(4) by linarith
  have st: "(\<exists>v1 e. op v = (v1, Inl e) \<and> is_transient e \<and> ?Q v1 \<and> busy v1 < busy v \<and> kept v v1) \<or> P v (op v)"
    if "?Q v" for v
  proof -
    have "throttled live busy objs ups v (op v) \<or> P v (op v)" using law that by blast
    then show ?thesis using that by (cases "op v") (auto simp: throttled_def kept_def)
  qed
  have "\<exists>v. kept w v \<and> ?Q v \<and> busy v \<le> busy w \<and> P v (op v)
    \<and> retry_loop ?n 0 background op w = (fst (op v), case snd (op v) of Inl e \<Rightarrow> Err e | Inr x \<Rightarrow> Ok (Some x))"
    by (rule retry_loop_through [where Q = ?Q and P = P and op = op and fails = busy and same = kept, OF b _ st assms(2)])
      (use assms(3) kept_refl kept_trans in \<open>auto simp: kept_def\<close>)
  then show ?thesis using assms(4) unfolding execute_with_retry_def by auto
qed

end

section \<open>Uploads\<close>

text \<open>The number the driver gives to its parts, from zero on.\<close>

definition part_number :: "nat \<Rightarrow> int32" where
  "part_number j = 1 + of_nat j"

lemma part_number_Suc: "part_number j + 1 = part_number (Suc j)"
  by (simp add: part_number_def)

lemma sint_part_number: "j < 2 ^ 31 - 1 \<Longrightarrow> sint (part_number j) = int j + 1"
proof -
  assume j: "j < 2 ^ 31 - 1"
  have "part_number j = word_of_int (int j + 1)" by (simp only: of_int_add of_int_of_nat_eq of_int_1 part_number_def add.commute)
  then have "sint (part_number j) = sint (word_of_int (int j + 1) :: int32)" by (rule arg_cong)
  also have "\<dots> = signed_take_bit 31 (int j + 1)" by (subst sint_sbintrunc') simp
  also have "\<dots> = int j + 1" using j by (intro signed_take_bit_int_eq_self) auto
  finally show ?thesis .
qed

lemma part_number_inj: "i < 2 ^ 31 - 1 \<Longrightarrow> j < 2 ^ 31 - 1 \<Longrightarrow> part_number i = part_number j \<Longrightarrow> i = j"
proof -
  assume "i < 2 ^ 31 - 1" "j < 2 ^ 31 - 1" "part_number i = part_number j"
  then have "int i + 1 = int j + 1" using sint_part_number [of i] sint_part_number [of j] by metis
  then show "i = j" by simp
qed

lemma sorted_part_numbers:
  assumes "j < 2 ^ 31"
  shows "sorted_wrt (\<lambda>a b. sint a < sint b) (map part_number [0..<j])"
proof -
  have "sorted_wrt (<) [0..<j]" by simp
  moreover have "sint (part_number a) < sint (part_number b)" if "a < b" "b < j" for a b
  proof -
    have "a < 2 ^ 31 - 1" "b < 2 ^ 31 - 1" using that assms by linarith+
    then show ?thesis using sint_part_number [of a] sint_part_number [of b] that by linarith
  qed
  ultimately show ?thesis unfolding sorted_wrt_map by (rule sorted_wrt_mono_rel [rotated]) auto
qed

text \<open>The number of parts of a content, and the contents the driver can store.\<close>

definition part_count :: "nat \<Rightarrow> nat \<Rightarrow> nat" where
  "part_count th n = (n + th - 1) div th"

lemma part_count_full:
  assumes "0 < th" "th \<le> n"
  shows "part_count th n = Suc (part_count th (n - th))"
proof -
  have "n + th - 1 = (n - th + th - 1) + th" using assms by simp
  then show ?thesis using assms(1) by (simp only: part_count_def div_add_self2)
qed

lemma part_count_rest: "n < th \<Longrightarrow> part_count th n = (if n = 0 then 0 else 1)"
  by (cases "n = 0") (auto simp: part_count_def div_if)

definition storable :: "s3_limits \<Rightarrow> nat \<Rightarrow> bytes \<Rightarrow> bool" where
  "storable L th x \<longleftrightarrow> enat (part_count th (length x)) \<le> lim_parts L \<and> part_count th (length x) < 2 ^ 31
     \<and> enat (length x) \<le> lim_object L"

lemma valid_part_number: "enat (Suc j) \<le> lim_parts L \<Longrightarrow> Suc j < 2 ^ 31 \<Longrightarrow> valid_part L (part_number j)"
proof -
  assume "enat (Suc j) \<le> lim_parts L" "Suc j < 2 ^ 31"
  moreover from this have "j < 2 ^ 31 - 1" by linarith
  moreover from sint_part_number [OF this] have "nat (sint (part_number j)) = Suc j" "0 < sint (part_number j)" by linarith+
  ultimately show ?thesis by (simp add: valid_part_def)
qed

text \<open>The threshold of the driver suits the limits of the service.\<close>

definition suited :: "s3_limits \<Rightarrow> int \<Rightarrow> bool" where
  "suited L th \<longleftrightarrow> 0 < th \<and> lim_min_part L \<le> nat th \<and> enat (nat th) \<le> lim_put L"

lemma aws_suited: "suited aws_limits multipart_threshold"
  by (simp add: suited_def aws_limits_def multipart_threshold_def)

context s3_service
begin

text \<open>The driver runs on this service and has a retry for every refusal it may meet.\<close>

definition patient :: "'w s3 \<Rightarrow> 'w \<Rightarrow> bool" where
  "patient d w \<longleftrightarrow> s3_client d = C \<and> s3_bucket d = bucket \<and> suited L (s3_threshold d) \<and> live w
     \<and> int (busy w) \<le> rc_max_retries (s3_retry d)"

lemma patient_settled: "patient d w \<Longrightarrow> settled live busy w w1 \<Longrightarrow> patient d w1"
  by (auto simp: patient_def settled_def)

lemma patient_less: "patient d w \<Longrightarrow> live v \<Longrightarrow> busy v \<le> busy w \<Longrightarrow> patient d v"
  by (auto simp: patient_def)

lemma patientD:
  assumes "patient d w"
  shows "s3_client d = C" "s3_bucket d = bucket" "live w" "int (busy w) \<le> rc_max_retries (s3_retry d)"
    "0 < s3_threshold d" "lim_min_part L \<le> nat (s3_threshold d)" "enat (nat (s3_threshold d)) \<le> lim_put L"
  using assms by (simp_all add: patient_def suited_def)

text \<open>A request of the driver through its retries: it ends with an answer that is not a refusal.\<close>

lemma request:
  assumes "patient d w"
    and law: "\<And>v. live v \<Longrightarrow> kept w v \<Longrightarrow> throttled live busy objs ups v (op v) \<or> P v (op v)"
    and perm: "\<And>v v1 e. P v (v1, Inl e) \<Longrightarrow> \<not> is_transient e"
  shows "\<exists>v. patient d v \<and> busy v \<le> busy w \<and> kept w v \<and> P v (op v)
    \<and> execute_with_retry background (s3_retry d) op w = (fst (op v), case snd (op v) of Inl e \<Rightarrow> Err e | Inr x \<Rightarrow> Ok (Some x))"
proof -
  have "\<exists>v. live v \<and> busy v \<le> busy w \<and> kept w v \<and> P v (op v)
    \<and> execute_with_retry background (s3_retry d) op w = (fst (op v), case snd (op v) of Inl e \<Rightarrow> Err e | Inr x \<Rightarrow> Ok (Some x))"
    by (rule through [where op = op and P = P]) (rule law perm patientD(3,4) [OF assms(1)]; assumption)+
  then show ?thesis using patient_less [OF assms(1)] by blast
qed

lemma put_single_ok:
  assumes "patient d w" "valid_key L k" "enat (length x) \<le> lim_put L"
  shows "\<exists>w1. put_single d background k x wo w = (w1, Ok ()) \<and> patient d w1
    \<and> objs w1 = (objs w)(k \<mapsto> x) \<and> ups w1 = ups w"
proof -
  let ?op = "sc_put C bucket k x (ctype_opt wo) (wo_meta wo)"
  let ?P = "\<lambda>v a. \<exists>w1. a = (w1, Inr ()) \<and> settled live busy v w1 \<and> objs w1 = (objs v)(k \<mapsto> x) \<and> ups w1 = ups v"
  obtain v where "patient d v" "kept w v" "?P v (?op v)"
    "execute_with_retry background (s3_retry d) ?op w = (fst (?op v), case snd (?op v) of Inl e \<Rightarrow> Err e | Inr x \<Rightarrow> Ok (Some x))"
    using request [OF assms(1), where op = ?op and P = ?P] put_law [OF _ assms(2,3)] by auto
  then show ?thesis using patientD(1,2) [OF assms(1)] patient_settled
    by (auto simp: put_single_def discard_def kept_def)
qed

text \<open>
  What the loop over the parts keeps: the upload \<open>u\<close> holds exactly the parts on record, in
  ascending order and under the tags the service gave, those of \<open>A\<close> are large enough, and nothing
  else of the service has changed since the world \<open>w\<close> before the upload.
\<close>

definition holding :: "'w s3 \<Rightarrow> string \<Rightarrow> 'w \<Rightarrow> string \<Rightarrow> (int32 \<times> string) list \<Rightarrow> (int32 \<times> string) list \<Rightarrow> nat \<Rightarrow> bytes \<Rightarrow> 'w \<Rightarrow> bool" where
  "holding d k w u acc A j x w1 \<longleftrightarrow> patient d w1 \<and> busy w1 \<le> busy w \<and> objs w1 = objs w
     \<and> elsewhere u (ups w) (ups w1) \<and> (\<forall>k'. ups w k' u = None) \<and> j < 2 ^ 31 \<and>
     (\<exists>ps. ups w1 k u = Some ps \<and> map fst acc = map part_number [0..<j] \<and> dom ps = set (map fst acc)
        \<and> tagged ps acc \<and> min_parts L ps A \<and> set A \<subseteq> set acc \<and> joined_parts ps acc = x)"

lemma other_parts:
  assumes "n \<notin> set (map fst acc)"
  shows "joined_parts (ps(n \<mapsto> y)) acc = joined_parts ps acc"
    "tagged (ps(n \<mapsto> y)) acc = tagged ps acc"
    "set A \<subseteq> set acc \<Longrightarrow> min_parts L ps A \<Longrightarrow> min_parts L (ps(n \<mapsto> y)) A"
proof -
  show "joined_parts (ps(n \<mapsto> y)) acc = joined_parts ps acc"
    unfolding joined_parts_def by (rule arg_cong [where f = concat], rule map_cong) (use assms in force)+
  have o: "n' \<noteq> n" if "(n', t) \<in> set acc" for n' t using that assms by force
  show "tagged (ps(n \<mapsto> y)) acc = tagged ps acc" unfolding tagged_def using o by fastforce
  show "set A \<subseteq> set acc \<Longrightarrow> min_parts L ps A \<Longrightarrow> min_parts L (ps(n \<mapsto> y)) A"
    unfolding min_parts_def using o by fastforce
qed

lemma holding_step:
  assumes "holding d k w0 u acc acc j x w" "valid_key L k" "enat (Suc j) \<le> lim_parts L" "Suc j < 2 ^ 31"
    and "enat (length y) \<le> lim_put L"
  shows "\<exists>w1 t. execute_with_retry background (s3_retry d) (sc_upload_part C bucket k u (part_number j) y) w = (w1, Ok (Some t))
    \<and> holding d k w0 u (acc @ [(part_number j, t)]) acc (Suc j) (x @ y) w1
    \<and> (lim_min_part L \<le> length y \<longrightarrow>
         holding d k w0 u (acc @ [(part_number j, t)]) (acc @ [(part_number j, t)]) (Suc j) (x @ y) w1)"
proof -
  let ?n = "part_number j" and ?op = "sc_upload_part C bucket k u (part_number j) y"
  obtain ps where ps: "patient d w" "busy w \<le> busy w0" "objs w = objs w0" "elsewhere u (ups w0) (ups w)"
    "\<forall>k'. ups w0 k' u = None" "ups w k u = Some ps" "map fst acc = map part_number [0..<j]" "dom ps = set (map fst acc)"
    "tagged ps acc" "min_parts L ps acc" "joined_parts ps acc = x"
    using assms(1) unfolding holding_def by blast
  let ?P = "\<lambda>v a. \<exists>w1 t. a = (w1, Inr t) \<and> settled live busy v w1 \<and> objs w1 = objs v
    \<and> elsewhere u (ups v) (ups w1) \<and> ups w1 k u = Some (ps(?n \<mapsto> (y, t)))"
  have law: "throttled live busy objs ups v (?op v) \<or> ?P v (?op v)" if "live v" "kept w v" for v
    using part_law [OF that(1) assms(2) _ valid_part_number [OF assms(3,4)] assms(5), of u ps] ps(6) that(2)
    by (auto simp: kept_def)
  obtain v where v: "patient d v" "busy v \<le> busy w" "kept w v" "?P v (?op v)"
    "execute_with_retry background (s3_retry d) ?op w = (fst (?op v), case snd (?op v) of Inl e \<Rightarrow> Err e | Inr x \<Rightarrow> Ok (Some x))"
    using request [where op = ?op and P = ?P, OF ps(1) law] by auto
  then obtain w1 t where 1: "?op v = (w1, Inr t)" "settled live busy v w1" "objs w1 = objs v"
    "elsewhere u (ups v) (ups w1)" "ups w1 k u = Some (ps(?n \<mapsto> (y, t)))" by blast
  have n: "?n \<notin> set (map fst acc)"
  proof
    assume "?n \<in> set (map fst acc)"
    then obtain i where "i < j" "?n = part_number i" unfolding ps(7) by auto
    moreover from this assms(4) have "i < 2 ^ 31 - 1" "j < 2 ^ 31 - 1" by linarith+
    ultimately have "i = j" using part_number_inj by metis
    then show False using \<open>i < j\<close> by simp
  qed
  note o = other_parts [OF n, where ps = ps and y = "(y, t)"]
  let ?ps = "ps(?n \<mapsto> (y, t))" and ?acc = "acc @ [(?n, t)]"
  have j: "joined_parts ?ps ?acc = x @ y" using o(1) ps(11) by (simp add: joined_parts_def)
  have t: "tagged ?ps ?acc" using o(2) ps(9) by (simp add: tagged_def)
  have m: "min_parts L ?ps acc" using o(3) ps(10) by blast
  then have m1: "min_parts L ?ps ?acc" if "lim_min_part L \<le> length y" using that by (simp add: min_parts_def)
  have f: "map fst ?acc = map part_number [0..<Suc j]" using ps(7) by simp
  have dm: "dom ?ps = set (map fst ?acc)" using ps(8) by simp
  have e: "elsewhere u (ups w0) (ups w1)" using ps(4) 1(4) v(3) by (simp add: elsewhere_def kept_def)
  have b: "patient d w1" "busy w1 \<le> busy w0" "objs w1 = objs w0"
    using patient_settled [OF v(1) 1(2)] 1(2,3) v(2,3) ps(2,3) by (simp_all add: settled_def kept_def)
  have h: "holding d k w0 u ?acc A (Suc j) (x @ y) w1" if "min_parts L ?ps A" "set A \<subseteq> set ?acc" for A
    unfolding holding_def by (intro conjI exI [of _ ?ps]) (rule b e ps(5) assms(4) 1(5) f dm t that j)+
  have h1: "holding d k w0 u ?acc acc (Suc j) (x @ y) w1" using h [OF m] by auto
  have h2: "holding d k w0 u ?acc ?acc (Suc j) (x @ y) w1" if "lim_min_part L \<le> length y" using h [OF m1 [OF that]] by simp
  show ?thesis using v(5) 1(1) h1 h2 by (intro exI [of _ w1] exI [of _ t]) simp
qed

text \<open>The source fails with an error that is not one of the two ends of file.\<close>

definition source_fails :: "reader \<Rightarrow> go_error \<Rightarrow> bool" where
  "source_fails r e \<longleftrightarrow> rd_err r = Some e \<and> e \<noteq> ErrEOF \<and> e \<noteq> ErrUnexpectedEOF"

lemma holding_butlast: "holding d k w0 u acc acc j x w \<Longrightarrow> holding d k w0 u acc (butlast acc) j x w"
  unfolding holding_def min_parts_def by (fastforce dest: in_set_butlastD)

lemma upload_parts_run:
  assumes "holding d k w0 u acc acc j x w" "valid_key L k" "length (rd_data r) < fuel"
    and "enat (j + part_count (nat (s3_threshold d)) (length (rd_data r))) \<le> lim_parts L"
    and "j + part_count (nat (s3_threshold d)) (length (rd_data r)) < 2 ^ 31"
  shows "\<exists>w1 res acc1 j1. upload_parts fuel d background k u (part_number j) r acc w = (w1, res)
    \<and> holding d k w0 u acc1 (butlast acc1) j1 (x @ rd_data r) w1 \<and> (acc1 = [] \<longrightarrow> acc = [] \<and> rd_data r = [])
    \<and> res = (if \<exists>e. source_fails r e
             then Err (storage_error ''write'' ''s3'' k (errorf_w ''reading multipart stream failed'' (the (rd_err r))))
             else Ok acc1)"
  using assms
proof (induction fuel arbitrary: acc j x w r)
  case 0
  then show ?case by simp
next
  case (Suc fuel)
  let ?n = "nat (s3_threshold d)"
  have d: "patient d w" using Suc.prems(1) by (simp add: holding_def)
  note p = patientD [OF d]
  have pos: "0 < ?n" using p(5) by simp
  obtain part re r1 where rf: "read_full ?n r = (part, re, r1)" by (cases "read_full ?n r")
  show ?case
  proof (cases "?n \<le> length (rd_data r)")
    case True
    then have rr: "part = take ?n (rd_data r)" "re = None" "rd_data r1 = drop ?n (rd_data r)" "rd_err r1 = rd_err r"
      using rf by (auto simp: read_full_def Let_def)
    have pc: "part_count ?n (length (rd_data r)) = Suc (part_count ?n (length (rd_data r1)))"
      using part_count_full [OF pos True] rr(3) by simp
    have len: "length part = ?n" "part \<noteq> []" using rr(1) True pos by auto
    have "enat (Suc j) \<le> enat (j + part_count ?n (length (rd_data r)))" using pc by simp
    then have lim: "enat (Suc j) \<le> lim_parts L" using Suc.prems(4) order_trans by blast
    obtain w1 t where 1: "execute_with_retry background (s3_retry d) (sc_upload_part C bucket k u (part_number j) part) w = (w1, Ok (Some t))"
      "holding d k w0 u (acc @ [(part_number j, t)]) (acc @ [(part_number j, t)]) (Suc j) (x @ part) w1"
      using holding_step [OF Suc.prems(1,2) lim, of part] Suc.prems(5) pc len p(6,7) by auto
    have "upload_parts (Suc fuel) d background k u (part_number j) r acc w
        = upload_parts fuel d background k u (part_number (Suc j)) r1 (acc @ [(part_number j, t)]) w1"
      using rf rr(2) len(2) 1(1) p(1,2) by (simp add: upload_parts.simps(2) part_number_Suc)
    moreover have "length (rd_data r1) < fuel" using rr(3) pos True Suc.prems(3) by simp
    moreover have "enat (Suc j + part_count ?n (length (rd_data r1))) \<le> lim_parts L"
      "Suc j + part_count ?n (length (rd_data r1)) < 2 ^ 31" using Suc.prems(4,5) pc by simp_all
    moreover have "source_fails r1 e = source_fails r e" for e using rr(4) by (simp add: source_fails_def)
    moreover have "(x @ part) @ rd_data r1 = x @ rd_data r" using rr(1,3) by simp
    ultimately show ?thesis using Suc.IH [OF 1(2) Suc.prems(2), of r1] rr(4) by (metis append_is_Nil_conv list.distinct(1))
  next
    case False
    then have rr: "part = rd_data r"
      "re = (case rd_err r of Some e \<Rightarrow> Some e | None \<Rightarrow> if rd_data r = [] then Some ErrEOF else Some ErrUnexpectedEOF)"
      using rf by (auto simp: read_full_def Let_def)
    have "\<exists>w1 acc1 j1. holding d k w0 u acc1 (butlast acc1) j1 (x @ rd_data r) w1 \<and> (acc1 = [] \<longrightarrow> acc = [] \<and> rd_data r = [])
        \<and> (if part = [] then (w, Ok acc)
            else (case execute_with_retry background (s3_retry d) (sc_upload_part C bucket k u (part_number j) part) w of
                    (w1, Inl e) \<Rightarrow> (w1, Err (storage_error ''write'' ''s3'' k (errorf_w (''failed to upload part '' @ int_text (sint (part_number j))) e)))
                  | (w1, Inr etag) \<Rightarrow> (w1, Ok (acc @ [(part_number j, case etag of None \<Rightarrow> '''' | Some t \<Rightarrow> t)])))) = (w1, Ok acc1)"
    proof (cases "part = []")
      case True
      then show ?thesis using holding_butlast [OF Suc.prems(1)] rr(1)
        by (intro exI [of _ w] exI [of _ acc] exI [of _ j]) simp
    next
      case ne: False
      then have pc: "part_count ?n (length (rd_data r)) = 1" using part_count_rest [of "length (rd_data r)" ?n] False rr(1) by simp
      have "enat (length part) \<le> enat ?n" using False rr(1) by simp
      then have "enat (length part) \<le> lim_put L" using p(7) order_trans by blast
      then obtain w1 t where 1: "execute_with_retry background (s3_retry d) (sc_upload_part C bucket k u (part_number j) part) w = (w1, Ok (Some t))"
        "holding d k w0 u (acc @ [(part_number j, t)]) acc (Suc j) (x @ part) w1"
        using holding_step [OF Suc.prems(1,2), of part] Suc.prems(4,5) pc by auto
      then show ?thesis using ne rr(1)
        by (intro exI [of _ w1] exI [of _ "acc @ [(part_number j, t)]"] exI [of _ "Suc j"]) simp
    qed
    then obtain w1 acc1 j1 where 1: "holding d k w0 u acc1 (butlast acc1) j1 (x @ rd_data r) w1" "acc1 = [] \<longrightarrow> acc = [] \<and> rd_data r = []"
      "upload_parts (Suc fuel) d background k u (part_number j) r acc w =
        (case re of
           Some e \<Rightarrow> if e = ErrEOF \<or> e = ErrUnexpectedEOF then (w1, Ok acc1)
                     else (w1, Err (storage_error ''write'' ''s3'' k (errorf_w ''reading multipart stream failed'' e)))
         | None \<Rightarrow> upload_parts fuel d background k u (if part = [] then part_number j else part_number j + 1) r1 acc1 w1)"
      using rf p(1,2) by (auto simp: upload_parts.simps(2) cong: option.case_cong)
    show ?thesis
    proof (cases "\<exists>e. source_fails r e")
      case True
      then show ?thesis using 1 rr(2)
        by (intro exI [of _ w1] exI [of _ "snd (upload_parts (Suc fuel) d background k u (part_number j) r acc w)"] exI [of _ acc1] exI [of _ j1])
          (auto simp: source_fails_def)
    next
      case False
      then show ?thesis using 1 rr(2)
        by (intro exI [of _ w1] exI [of _ "snd (upload_parts (Suc fuel) d background k u (part_number j) r acc w)"] exI [of _ acc1] exI [of _ j1])
          (auto simp: source_fails_def split: option.splits if_splits)
    qed
  qed
qed

end
context s3_service
begin

lemma create_ok:
  assumes "patient d w" "valid_key L k"
  shows "\<exists>w1 u. execute_with_retry background (s3_retry d) (sc_create C bucket k ct mt) w = (w1, Ok (Some u))
    \<and> holding d k w u [] [] 0 [] w1"
proof -
  let ?op = "sc_create C bucket k ct mt"
  let ?P = "\<lambda>v a. \<exists>w1 u. a = (w1, Inr u) \<and> (\<forall>k'. ups v k' u = None) \<and> settled live busy v w1 \<and> objs w1 = objs v
    \<and> elsewhere u (ups v) (ups w1) \<and> ups w1 k u = Some Map.empty"
  obtain v where v: "patient d v" "busy v \<le> busy w" "kept w v" "?P v (?op v)"
    "execute_with_retry background (s3_retry d) ?op w = (fst (?op v), case snd (?op v) of Inl e \<Rightarrow> Err e | Inr x \<Rightarrow> Ok (Some x))"
    using request [where op = ?op and P = ?P, OF assms(1) create_law [OF _ assms(2)]] by auto
  then obtain w1 u where 1: "?op v = (w1, Inr u)" "\<forall>k'. ups v k' u = None" "settled live busy v w1" "objs w1 = objs v"
    "elsewhere u (ups v) (ups w1)" "ups w1 k u = Some Map.empty" by blast
  have "holding d k w u [] [] 0 [] w1"
    using 1(2-6) v(2,3) patient_settled [OF v(1) 1(3)]
    by (simp add: holding_def kept_def settled_def tagged_def min_parts_def joined_parts_def)
  then show ?thesis using v(5) 1(1) by simp
qed

lemma dropped_restores:
  "elsewhere u U V \<Longrightarrow> \<forall>k. U k u = None \<Longrightarrow> dropped_upload u V V1 \<Longrightarrow> V1 = U"
  by (simp add: elsewhere_def dropped_upload_def fun_eq_iff) metis

lemma complete_ok:
  assumes "holding d k w0 u acc (butlast acc) j x w" "valid_key L k" "acc \<noteq> []" "enat (length x) \<le> lim_object L"
  shows "\<exists>w1 v. execute_with_retry background (s3_retry d) (sc_complete C bucket k u acc) w = (w1, Ok (Some v))
    \<and> patient d w1 \<and> objs w1 = (objs w0)(k \<mapsto> x) \<and> ups w1 = ups w0"
proof -
  obtain ps where ps: "patient d w" "objs w = objs w0" "elsewhere u (ups w0) (ups w)" "\<forall>k'. ups w0 k' u = None" "j < 2 ^ 31"
    "ups w k u = Some ps" "map fst acc = map part_number [0..<j]" "dom ps = set (map fst acc)" "tagged ps acc"
    "min_parts L ps (butlast acc)" "joined_parts ps acc = x"
    using assms(1) unfolding holding_def by blast
  have c: "completable L ps acc"
    unfolding completable_def using sorted_part_numbers [OF ps(5)] ps(7-11) assms(3,4) by simp
  let ?op = "sc_complete C bucket k u acc"
  let ?P = "\<lambda>v a. \<exists>w1. a = (w1, Inr ()) \<and> settled live busy v w1 \<and> objs w1 = (objs v)(k \<mapsto> x)
    \<and> dropped_upload u (ups v) (ups w1)"
  have law: "throttled live busy objs ups v (?op v) \<or> ?P v (?op v)" if "live v" "kept w v" for v
    using complete_law [OF that(1) assms(2) _ c, of u] ps(6,11) that(2) by (auto simp: kept_def)
  obtain v where v: "patient d v" "kept w v" "?P v (?op v)"
    "execute_with_retry background (s3_retry d) ?op w = (fst (?op v), case snd (?op v) of Inl e \<Rightarrow> Err e | Inr x \<Rightarrow> Ok (Some x))"
    using request [where op = ?op and P = ?P, OF ps(1) law] by auto
  then obtain w1 where 1: "?op v = (w1, Inr ())" "settled live busy v w1" "objs w1 = (objs v)(k \<mapsto> x)"
    "dropped_upload u (ups v) (ups w1)" by blast
  have "ups w1 = ups w0" using dropped_restores [OF ps(3,4)] 1(4) v(2) by (simp add: kept_def)
  then show ?thesis using v(4) 1(1,3) patient_settled [OF v(1) 1(2)] v(2) ps(2) by (simp add: kept_def)
qed

text \<open>The abort is one request without retries: a refused abort leaves the upload behind.\<close>

definition abort_refused :: "string \<Rightarrow> 'w \<Rightarrow> 'w \<Rightarrow> bool" where
  "abort_refused k w w1 \<longleftrightarrow> (\<exists>v u e. sc_abort C bucket k u v = (w1, Inl e) \<and> is_transient e \<and> busy w1 < busy v \<and> busy v \<le> busy w)"

lemma abort_ok:
  assumes "holding d k w0 u acc A j x w" "valid_key L k"
  shows "patient d (abort_upload d k u w) \<and> objs (abort_upload d k u w) = objs w0
    \<and> (ups (abort_upload d k u w) = ups w0 \<or> abort_refused k w0 (abort_upload d k u w))"
proof -
  obtain ps where ps: "patient d w" "busy w \<le> busy w0" "objs w = objs w0" "elsewhere u (ups w0) (ups w)"
    "\<forall>k'. ups w0 k' u = None" "ups w k u = Some ps"
    using assms(1) unfolding holding_def by blast
  note p = patientD [OF ps(1)]
  consider (refused) "throttled live busy objs ups w (sc_abort C bucket k u w)"
    | (aborted) w1 r where "sc_abort C bucket k u w = (w1, r)" "settled live busy w w1" "objs w1 = objs w" "dropped_upload u (ups w) (ups w1)"
    using abort_law [OF p(3) assms(2) ps(6)] by blast
  then show ?thesis
  proof cases
    case refused
    then obtain w1 e where 1: "sc_abort C bucket k u w = (w1, Inl e)" "is_transient e" "live w1" "busy w1 < busy w" "objs w1 = objs w"
      by (cases "sc_abort C bucket k u w") (auto simp: throttled_def)
    then have "abort_refused k w0 w1" using ps(2) unfolding abort_refused_def by blast
    then show ?thesis using 1 p(1,2) ps(3) patient_less [OF ps(1), of w1] by (simp add: abort_upload_def)
  next
    case aborted
    then show ?thesis using dropped_restores [OF ps(4,5) aborted(4)] aborted p(1,2) ps(3) patient_settled [OF ps(1)]
      by (simp add: abort_upload_def)
  qed
qed

text \<open>A multipart upload stores the object, or it fails and leaves no object, and no upload unless its abort was refused.\<close>

lemma one_is_first: "1 = part_number 0"
  by (simp add: part_number_def)

lemma upload_multipart_ok:
  assumes "patient d w" "valid_key L k" "rd_data r \<noteq> []" "\<not> (\<exists>e. source_fails r e)"
    and "storable L (nat (s3_threshold d)) (rd_data r)"
  shows "\<exists>w1. upload_multipart d background k r n wo w = (w1, Ok ()) \<and> patient d w1
    \<and> objs w1 = (objs w)(k \<mapsto> rd_data r) \<and> ups w1 = ups w"
proof -
  obtain w1 u where 1: "execute_with_retry background (s3_retry d) (sc_create C bucket k (ctype_opt wo) (wo_meta wo)) w = (w1, Ok (Some u))"
    "holding d k w u [] [] 0 [] w1"
    using create_ok [OF assms(1,2)] by blast
  obtain w2 acc j where 2: "upload_parts (part_fuel d r) d background k u 1 r [] w1 = (w2, Ok acc)"
    "holding d k w u acc (butlast acc) j (rd_data r) w2" "acc \<noteq> []"
    using upload_parts_run [OF 1(2) assms(2), of r "part_fuel d r"] assms(3,4,5)
    unfolding one_is_first by (auto simp: part_fuel_def storable_def)
  have "enat (length (rd_data r)) \<le> lim_object L" using assms(5) by (simp add: storable_def)
  then show ?thesis using complete_ok [OF 2(2) assms(2) 2(3)] 1(1) 2(1) patientD(1,2) [OF assms(1)]
    by (auto simp: upload_multipart_def)
qed

lemma upload_multipart_fails:
  assumes "patient d w" "valid_key L k" "source_fails r e" "storable L (nat (s3_threshold d)) (rd_data r)"
  shows "\<exists>w1. upload_multipart d background k r n wo w = (w1, Err (storage_error ''write'' ''s3'' k
      (errorf_w ''reading multipart stream failed'' e)))
    \<and> patient d w1 \<and> objs w1 = objs w \<and> (ups w1 = ups w \<or> abort_refused k w w1)"
proof -
  obtain w1 u where 1: "execute_with_retry background (s3_retry d) (sc_create C bucket k (ctype_opt wo) (wo_meta wo)) w = (w1, Ok (Some u))"
    "holding d k w u [] [] 0 [] w1"
    using create_ok [OF assms(1,2)] by blast
  have e: "the (rd_err r) = e" using assms(3) by (simp add: source_fails_def)
  have ex: "\<exists>e. source_fails r e" using assms(3) by blast
  let ?e = "storage_error ''write'' ''s3'' k (errorf_w ''reading multipart stream failed'' e)"
  have l: "length (rd_data r) < part_fuel d r" by (simp add: part_fuel_def)
  have c: "enat (0 + part_count (nat (s3_threshold d)) (length (rd_data r))) \<le> lim_parts L"
    "0 + part_count (nat (s3_threshold d)) (length (rd_data r)) < 2 ^ 31" using assms(4) by (simp_all add: storable_def)
  obtain w2 acc j where 2: "upload_parts (part_fuel d r) d background k u 1 r [] w1 = (w2, Err ?e)"
    "holding d k w u acc (butlast acc) j (rd_data r) w2"
    using upload_parts_run [OF 1(2) assms(2) l c] unfolding if_P [OF ex] e append_Nil one_is_first by blast
  have "upload_multipart d background k r n wo w = (abort_upload d k u w2, Err ?e)"
    using 1(1) 2(1) patientD(1,2) [OF assms(1)] by (simp add: upload_multipart_def)
  then show ?thesis using abort_ok [OF 2(2) assms(2)] by auto
qed

end

section \<open>The operations of the driver\<close>

context s3_service
begin

text \<open>
  A write stores what the source yields, when the source keeps its promise: exactly the announced
  number of bytes up to the threshold, and above it, or when no size is announced, a source that
  does not fail; above it also at least one byte.
\<close>

definition fits :: "'w s3 \<Rightarrow> reader \<Rightarrow> int \<Rightarrow> bool" where
  "fits d r sz \<longleftrightarrow> storable L (nat (s3_threshold d)) (rd_data r) \<and>
     (if 0 \<le> sz \<and> sz \<le> s3_threshold d then int (length (rd_data r)) = sz
      else \<not> (\<exists>e. source_fails r e) \<and> (s3_threshold d < sz \<longrightarrow> rd_data r \<noteq> []))"

lemma enat_le_put: "patient d w \<Longrightarrow> n \<le> nat (s3_threshold d) \<Longrightarrow> enat n \<le> lim_put L"
  using patientD(7) [of d w] by (meson enat_ord_simps(1) order_trans)

lemma s3_write_stores:
  assumes "patient d w" "valid_key L (s3_clean_key p)" "fits d r sz" "wo_overwrite (apply_options opts)"
  shows "\<exists>w1. s3_write_with_options d background p r sz opts w = (w1, Ok ()) \<and> patient d w1
    \<and> objs w1 = (objs w)(s3_clean_key p \<mapsto> rd_data r) \<and> ups w1 = ups w"
proof -
  let ?k = "s3_clean_key p" and ?wo = "apply_options opts" and ?n = "nat (s3_threshold d)"
  note p = patientD [OF assms(1)]
  have st: "storable L ?n (rd_data q)" if "rd_data q = rd_data r" for q using that assms(3) by (simp add: fits_def)
  consider (known) "0 \<le> sz" "sz \<le> s3_threshold d" | (large) "s3_threshold d < sz" | (unknown) "sz < 0" by linarith
  then show ?thesis
  proof cases
    case known
    then have n: "nat sz = length (rd_data r)" using assms(3) by (auto simp: fits_def)
    then have "s3_write_with_options d background p r sz opts w = put_single d background ?k (rd_data r) ?wo w"
      using known assms(4) by (simp add: s3_write_with_options_def Let_def read_full_def)
    then show ?thesis using put_single_ok [OF assms(1,2)] enat_le_put [OF assms(1)] known n by (metis nat_mono)
  next
    case large
    then have "s3_write_with_options d background p r sz opts w = upload_multipart d background ?k r sz ?wo w"
      using p(5) assms(4) by (simp add: s3_write_with_options_def Let_def)
    then show ?thesis using upload_multipart_ok [OF assms(1,2) _ _ st [OF refl]] large assms(3) by (simp add: fits_def)
  next
    case unknown
    then have nf: "\<not> (\<exists>e. source_fails q e)" if "rd_err q = rd_err r" for q
      using that assms(3) by (simp add: fits_def source_fails_def)
    show ?thesis
    proof (cases "?n \<le> length (rd_data r)")
      case True
      let ?q = "r\<lparr>rd_data := take ?n (rd_data r) @ drop ?n (rd_data r)\<rparr>"
      have "s3_write_with_options d background p r sz opts w = upload_multipart d background ?k ?q (- 1) ?wo w"
        using True unknown p(5) assms(4) by (simp add: s3_write_with_options_def Let_def read_full_def)
      moreover have "rd_data ?q = rd_data r" by simp
      moreover have "rd_data r \<noteq> []" using True p(5) by auto
      ultimately show ?thesis using upload_multipart_ok [OF assms(1,2) _ nf [of ?q] st [of ?q]] by simp
    next
      case False
      have "s3_write_with_options d background p r sz opts w = put_single d background ?k (rd_data r) ?wo w"
        using unknown p(5) assms(4) False nf [OF refl]
        by (auto simp: s3_write_with_options_def Let_def read_full_def source_fails_def split: option.split)
      then show ?thesis using put_single_ok [OF assms(1,2)] enat_le_put [OF assms(1)] False by simp
    qed
  qed
qed

text \<open>
  A source that fails leaves the objects as they were, and no upload behind unless its abort was
  refused.  A premature end of file counts as a failure only up to the threshold.
\<close>

lemma s3_write_fails_clean:
  assumes "patient d w" "valid_key L (s3_clean_key p)" "rd_err r = Some e" "\<not> err_is e ErrEOF"
    and "e \<noteq> ErrUnexpectedEOF \<or> 0 \<le> sz \<and> sz \<le> s3_threshold d"
    and "wo_overwrite (apply_options opts)" "sz \<le> int (length (rd_data r)) \<Longrightarrow> s3_threshold d < sz \<or> sz < 0"
    and "storable L (nat (s3_threshold d)) (rd_data r)"
  shows "\<exists>w1 e1. s3_write_with_options d background p r sz opts w = (w1, Err e1) \<and> err_is e1 e
    \<and> patient d w1 \<and> objs w1 = objs w \<and> (ups w1 = ups w \<or> abort_refused (s3_clean_key p) w w1)"
proof -
  let ?k = "s3_clean_key p" and ?wo = "apply_options opts" and ?n = "nat (s3_threshold d)"
  note p = patientD [OF assms(1)]
  have eof: "e \<noteq> ErrEOF" using assms(4) by auto
  consider (known) "0 \<le> sz" "sz \<le> s3_threshold d" | (large) "s3_threshold d < sz" | (unknown) "sz < 0" by linarith
  then show ?thesis
  proof cases
    case known
    then have "\<not> nat sz \<le> length (rd_data r)" using assms(7) by linarith
    then have "s3_write_with_options d background p r sz opts w = (w, Err (storage_error ''write'' ''s3'' p e))"
      using known assms(3,4,6) eof by (simp add: s3_write_with_options_def Let_def read_full_def)
    then show ?thesis using assms(1) by simp
  next
    case large
    then have "source_fails r e" using assms(3,5) eof p(5) by (auto simp: source_fails_def)
    moreover have "s3_write_with_options d background p r sz opts w = upload_multipart d background ?k r sz ?wo w"
      using large p(5) assms(6) by (simp add: s3_write_with_options_def Let_def)
    ultimately show ?thesis using upload_multipart_fails [OF assms(1,2) _ assms(8)] by fastforce
  next
    case unknown
    then have une: "e \<noteq> ErrUnexpectedEOF" using assms(5) by auto
    show ?thesis
    proof (cases "?n \<le> length (rd_data r)")
      case True
      let ?q = "r\<lparr>rd_data := take ?n (rd_data r) @ drop ?n (rd_data r)\<rparr>"
      have "s3_write_with_options d background p r sz opts w = upload_multipart d background ?k ?q (- 1) ?wo w"
        using True unknown p(5) assms(6) by (simp add: s3_write_with_options_def Let_def read_full_def)
      moreover have "source_fails ?q e" "storable L ?n (rd_data ?q)" using assms(3,8) eof une by (simp_all add: source_fails_def)
      ultimately show ?thesis using upload_multipart_fails [OF assms(1,2)] by fastforce
    next
      case False
      then have "s3_write_with_options d background p r sz opts w = (w, Err (storage_error ''write'' ''s3'' p e))"
        using unknown p(5) assms(3,6) eof une by (simp add: s3_write_with_options_def Let_def read_full_def)
      then show ?thesis using assms(1) by simp
    qed
  qed
qed

end

context s3_service
begin

lemma s3_read_ok:
  assumes "patient d w" "valid_key L (s3_clean_key p)"
  shows "\<exists>w1 r. s3_read d background p w = (w1, r) \<and> patient d w1 \<and> kept w w1
    \<and> (case objs w (s3_clean_key p) of
         Some x \<Rightarrow> r = Ok (bytes_reader x)
       | None \<Rightarrow> r = Err (storage_error ''read'' ''s3'' p ErrNotFound))"
proof -
  let ?k = "s3_clean_key p"
  let ?op = "sc_get C bucket ?k"
  let ?P = "\<lambda>v a. \<exists>w1 m. a = (w1, case objs v ?k of None \<Rightarrow> Inl (ErrAPI ''NoSuchKey'' m) | Some x \<Rightarrow> Inr (bytes_reader x))
    \<and> settled live busy v w1 \<and> objs w1 = objs v \<and> ups w1 = ups v"
  have law: "throttled live busy objs ups v (?op v) \<or> ?P v (?op v)" if "live v" "kept w v" for v
    using get_law [OF that(1) assms(2)] .
  have perm: "\<not> is_transient e" if "?P v (v1, Inl e)" for v v1 e using that missing_permanent by (auto split: option.splits)
  have "\<exists>v. patient d v \<and> busy v \<le> busy w \<and> kept w v \<and> ?P v (?op v)
    \<and> execute_with_retry background (s3_retry d) ?op w = (fst (?op v), case snd (?op v) of Inl e \<Rightarrow> Err e | Inr x \<Rightarrow> Ok (Some x))"
    by (rule request [where op = ?op and P = ?P, OF assms(1)]) (rule law perm; assumption)+
  then obtain v where v: "patient d v" "kept w v" "?P v (?op v)"
    "execute_with_retry background (s3_retry d) ?op w = (fst (?op v), case snd (?op v) of Inl e \<Rightarrow> Err e | Inr x \<Rightarrow> Ok (Some x))"
    by blast
  then obtain w1 m where 1: "?op v = (w1, case objs v ?k of None \<Rightarrow> Inl (ErrAPI ''NoSuchKey'' m) | Some x \<Rightarrow> Inr (bytes_reader x))"
    "settled live busy v w1" "objs w1 = objs v" "ups w1 = ups v" by blast
  then show ?thesis using v(2,4) patient_settled [OF v(1) 1(2)] patientD(1,2) [OF assms(1)]
    by (auto simp: s3_read_def kept_def split: option.splits)
qed

lemma s3_stat_ok:
  assumes "patient d w" "valid_key L (s3_clean_key p)"
  shows "\<exists>w1 r. s3_stat d background p w = (w1, r) \<and> patient d w1 \<and> kept w w1
    \<and> (case objs w (s3_clean_key p) of
         Some x \<Rightarrow> (\<exists>oi. r = Ok oi \<and> oi_path oi = s3_clean_key p \<and> oi_size oi = int (length x) \<and> \<not> oi_isdir oi)
       | None \<Rightarrow> r = Err (storage_error ''stat'' ''s3'' p ErrNotFound))"
proof -
  let ?k = "s3_clean_key p"
  let ?op = "sc_head C bucket ?k"
  let ?P = "\<lambda>v a. \<exists>w1 m out. a = (w1, case objs v ?k of None \<Rightarrow> Inl (ErrAPI ''NotFound'' m) | Some x \<Rightarrow> Inr out)
    \<and> (\<forall>x. objs v ?k = Some x \<longrightarrow> sh_size out = int (length x))
    \<and> settled live busy v w1 \<and> objs w1 = objs v \<and> ups w1 = ups v"
  have law: "throttled live busy objs ups v (?op v) \<or> ?P v (?op v)" if "live v" "kept w v" for v
    using head_law [OF that(1) assms(2)] .
  have perm: "\<not> is_transient e" if "?P v (v1, Inl e)" for v v1 e using that missing_permanent by (auto split: option.splits)
  have "\<exists>v. patient d v \<and> busy v \<le> busy w \<and> kept w v \<and> ?P v (?op v)
    \<and> execute_with_retry background (s3_retry d) ?op w = (fst (?op v), case snd (?op v) of Inl e \<Rightarrow> Err e | Inr x \<Rightarrow> Ok (Some x))"
    by (rule request [where op = ?op and P = ?P, OF assms(1)]) (rule law perm; assumption)+
  then obtain v where v: "patient d v" "kept w v" "?P v (?op v)"
    "execute_with_retry background (s3_retry d) ?op w = (fst (?op v), case snd (?op v) of Inl e \<Rightarrow> Err e | Inr x \<Rightarrow> Ok (Some x))"
    by blast
  then obtain w1 m out where 1: "?op v = (w1, case objs v ?k of None \<Rightarrow> Inl (ErrAPI ''NotFound'' m) | Some x \<Rightarrow> Inr out)"
    "\<forall>x. objs v ?k = Some x \<longrightarrow> sh_size out = int (length x)"
    "settled live busy v w1" "objs w1 = objs v" "ups w1 = ups v" by blast
  then show ?thesis using v(2,4) patient_settled [OF v(1) 1(3)] patientD(1,2) [OF assms(1)]
    by (auto simp: s3_stat_def Let_def kept_def split: option.splits)
qed

lemma s3_delete_ok:
  assumes "patient d w" "valid_key L (s3_clean_key p)"
  shows "\<exists>w1. s3_delete d background p w = (w1, Ok ()) \<and> patient d w1
    \<and> objs w1 = (objs w)(s3_clean_key p := None) \<and> ups w1 = ups w"
proof -
  let ?op = "sc_delete C bucket (s3_clean_key p)"
  let ?P = "\<lambda>v a. \<exists>w1. a = (w1, Inr ()) \<and> settled live busy v w1 \<and> objs w1 = (objs v)(s3_clean_key p := None) \<and> ups w1 = ups v"
  obtain v where v: "patient d v" "kept w v" "?P v (?op v)"
    "execute_with_retry background (s3_retry d) ?op w = (fst (?op v), case snd (?op v) of Inl e \<Rightarrow> Err e | Inr x \<Rightarrow> Ok (Some x))"
    using request [where op = ?op and P = ?P, OF assms(1) delete_law [OF _ assms(2)]] by auto
  then show ?thesis using patient_settled [OF v(1)] patientD(1,2) [OF assms(1)]
    by (auto simp: s3_delete_def kept_def)
qed

lemma s3_list_ok:
  assumes "patient d w" "finite (dom (objs w))" "card (dom (objs w)) \<le> page_limit"
  shows "\<exists>w1 out. s3_list d background p w = (w1, Ok (map s3_listed_object (so_contents out)))
    \<and> patient d w1 \<and> kept w w1 \<and> lists_exactly out ((objs w) |` {k. has_prefix k (s3_clean_key p)})"
proof -
  let ?q = "s3_clean_key p"
  let ?op = "sc_list C bucket (plain_request ?q)"
  let ?P = "\<lambda>v a. \<exists>w1 out. a = (w1, Inr out) \<and> lists_exactly out ((objs v) |` {k. has_prefix k ?q})
    \<and> settled live busy v w1 \<and> objs w1 = objs v \<and> ups w1 = ups v"
  have law: "throttled live busy objs ups v (?op v) \<or> ?P v (?op v)" if "live v" "kept w v" for v
    using list_law [OF that(1), of ?q] assms(2,3) that(2) by (simp add: kept_def)
  obtain v where v: "patient d v" "kept w v" "?P v (?op v)"
    "execute_with_retry background (s3_retry d) ?op w = (fst (?op v), case snd (?op v) of Inl e \<Rightarrow> Err e | Inr x \<Rightarrow> Ok (Some x))"
    using request [where op = ?op and P = ?P, OF assms(1) law] by auto
  then obtain w1 out where 1: "?op v = (w1, Inr out)" "lists_exactly out ((objs v) |` {k. has_prefix k ?q})"
    "settled live busy v w1" "objs w1 = objs v" "ups w1 = ups v" by blast
  have rq: "s3_list_request (list_all_under p) = plain_request ?q"
    by (simp add: s3_list_request_def list_all_under_def plain_request_def)
  have "so_prefixes out = []" using 1(2) by (simp add: lists_exactly_def)
  then have "s3_list d background p w = (w1, Ok (map s3_listed_object (so_contents out)))"
    using v(4) 1(1) patientD(1,2) [OF assms(1)] by (simp add: s3_list_def s3_list_with_options_def rq)
  moreover have "kept w w1" "lists_exactly out ((objs w) |` {k. has_prefix k ?q})" using 1(2,4,5) v(2) by (simp_all add: kept_def)
  ultimately show ?thesis using patient_settled [OF v(1) 1(3)] by blast
qed

end

section \<open>The driver as an object store\<close>

text \<open>
  The normal form of a path.  A key that starts with a slash after the cleaning is another key when
  it is used again, and a key that ends with one is listed as a directory, so neither is a name of
  the store.
\<close>

definition s3_key :: "string \<Rightarrow> string option" where
  "s3_key p = (let k = s3_clean_key p in
     if k = '''' \<or> has_prefix k ''/'' \<or> has_suffix k ''/'' then None else Some k)"

lemma s3_key_Some:
  "s3_key p = Some k \<longleftrightarrow> k = s3_clean_key p \<and> k \<noteq> '''' \<and> \<not> has_prefix k ''/'' \<and> \<not> has_suffix k ''/''"
  by (auto simp: s3_key_def Let_def)

lemma s3_clean_key_idem:
  assumes "\<not> has_prefix (s3_clean_key p) ''/''"
  shows "s3_clean_key (s3_clean_key p) = s3_clean_key p"
proof -
  have "set (s3_clean_key p) \<subseteq> set (slashed p)"
    by (auto simp: s3_clean_key_def trim_prefix_def dest: in_set_dropD)
  then have "CHR 0x5C \<notin> set (s3_clean_key p)" using set_replace_char [of "CHR 0x5C" "CHR 0x2F" p] by auto
  then show ?thesis using assms trim_prefix_other by (simp add: s3_clean_key_def [of "s3_clean_key p"] replace_char_id)
qed

locale s3_store = s3_service +
  fixes d :: "'a s3" and ident :: nat
  assumes own_client: "s3_client d = C" and own_bucket: "s3_bucket d = bucket" and has_threshold: "suited L (s3_threshold d)"
begin

abbreviation fitting :: "bytes \<Rightarrow> bool" where
  "fitting x \<equiv> storable L (nat (s3_threshold d)) x"

definition store_inv :: "'a \<Rightarrow> bool" where
  "store_inv w \<longleftrightarrow> patient d w \<and> finite (dom (objs w)) \<and> card (dom (objs w)) \<le> page_limit
     \<and> (\<forall>k x. objs w k = Some x \<longrightarrow> s3_key k = Some k \<and> valid_key L k)"

definition store_plain :: "'a \<Rightarrow> string \<Rightarrow> bool" where
  "store_plain w k \<longleftrightarrow> enat (length k) \<le> lim_key L \<and> card (insert k (dom (objs w))) \<le> page_limit"

lemma store_inv_kept: "store_inv w \<Longrightarrow> patient d w1 \<Longrightarrow> kept w w1 \<Longrightarrow> store_inv w1"
  by (simp add: store_inv_def kept_def)

lemma store_read:
  assumes "store_inv w" "s3_key p = Some k" "store_plain w k"
  shows "\<exists>w1. s3_read d background p w = (w1, case objs w k of Some x \<Rightarrow> Ok (bytes_reader x)
      | None \<Rightarrow> Err (storage_error ''read'' ''s3'' p ErrNotFound)) \<and> store_inv w1 \<and> objs w1 = objs w"
proof -
  have k: "s3_clean_key p = k" "valid_key L k" using assms(2,3) s3_key_Some by (auto simp: store_plain_def valid_key_def)
  obtain w1 r where 1: "s3_read d background p w = (w1, r)" "patient d w1" "kept w w1"
    "case objs w k of Some x \<Rightarrow> r = Ok (bytes_reader x) | None \<Rightarrow> r = Err (storage_error ''read'' ''s3'' p ErrNotFound)"
    using s3_read_ok [of d w p] assms(1) unfolding k(1) store_inv_def using k(2) by blast
  then show ?thesis using store_inv_kept [OF assms(1) 1(2,3)] by (auto simp: kept_def split: option.splits)
qed

lemma store_stat:
  assumes "store_inv w" "s3_key p = Some k" "store_plain w k"
  shows "\<exists>w1 r. s3_stat d background p w = (w1, r) \<and> store_inv w1 \<and> objs w1 = objs w \<and> (case objs w k of
      Some x \<Rightarrow> (\<exists>oi. r = Ok oi \<and> oi_path oi = k \<and> oi_size oi = int (length x) \<and> \<not> oi_isdir oi)
    | None \<Rightarrow> r = Err (storage_error ''stat'' ''s3'' p ErrNotFound))"
proof -
  have k: "s3_clean_key p = k" "valid_key L k" using assms(2,3) s3_key_Some by (auto simp: store_plain_def valid_key_def)
  obtain w1 r where 1: "s3_stat d background p w = (w1, r)" "patient d w1" "kept w w1" "case objs w k of
      Some x \<Rightarrow> (\<exists>oi. r = Ok oi \<and> oi_path oi = k \<and> oi_size oi = int (length x) \<and> \<not> oi_isdir oi)
    | None \<Rightarrow> r = Err (storage_error ''stat'' ''s3'' p ErrNotFound)"
    using s3_stat_ok [of d w p] assms(1) unfolding k(1) store_inv_def using k(2) by blast
  then show ?thesis using store_inv_kept [OF assms(1) 1(2,3)] by (auto simp: kept_def)
qed

lemma store_stored: "store_inv w \<Longrightarrow> objs w k = Some x \<Longrightarrow> store_plain w k"
  by (simp add: store_inv_def store_plain_def valid_key_def insert_absorb domI)

lemma store_write:
  assumes "store_inv w" "s3_key p = Some k" "store_plain w k" "fitting x"
  shows "\<exists>w1. s3_write d background p (bytes_reader x) (int (length x)) w = (w1, Ok ())
    \<and> store_inv w1 \<and> objs w1 = (objs w)(k \<mapsto> x) \<and> store_plain w1 k"
proof -
  have k: "s3_clean_key p = k" "valid_key L k" using assms(2,3) s3_key_Some by (auto simp: store_plain_def valid_key_def)
  have fit: "fits d (bytes_reader x) (int (length x))"
    using assms(4) has_threshold [unfolded suited_def, THEN conjunct1] by (auto simp: fits_def source_fails_def)
  obtain w1 where 1: "s3_write_with_options d background p (bytes_reader x) (int (length x)) [] w = (w1, Ok ())"
    "patient d w1" "objs w1 = (objs w)(k \<mapsto> x)"
    using s3_write_stores [of d w p "bytes_reader x" "int (length x)" "[]"] assms(1) k fit by (auto simp: store_inv_def)
  have "s3_key k = Some k" using assms(2) s3_clean_key_idem by (auto simp: s3_key_Some)
  then have "store_inv w1" using 1(2,3) assms(1,3) k(2) unfolding store_inv_def store_plain_def by auto
  moreover have "store_plain w1 k" using 1(3) assms(3) by (simp add: store_plain_def)
  ultimately show ?thesis using 1 by (auto simp: s3_write_def)
qed

lemma store_delete:
  assumes "store_inv w" "s3_key p = Some k" "store_plain w k"
  shows "\<exists>w1. s3_delete d background p w = (w1, Ok ())
    \<and> store_inv w1 \<and> objs w1 = (objs w)(k := None) \<and> store_plain w1 k"
proof -
  have k: "s3_clean_key p = k" "valid_key L k" using assms(2,3) s3_key_Some by (auto simp: store_plain_def valid_key_def)
  obtain w1 where 1: "s3_delete d background p w = (w1, Ok ())" "patient d w1" "objs w1 = (objs w)(k := None)"
    using s3_delete_ok [of d w p] assms(1) k by (auto simp: store_inv_def)
  have le: "card (dom (objs w) - {k}) \<le> page_limit"
    using assms(1) card_Diff1_le [of "dom (objs w)" k] unfolding store_inv_def by linarith
  then have "store_inv w1" using 1(2,3) assms(1) by (simp add: store_inv_def)
  moreover have "store_plain w1 k" using 1(3) assms(3) by (simp add: store_plain_def)
  ultimately show ?thesis using 1 by blast
qed

lemma store_list:
  assumes "store_inv w"
  shows "\<exists>w1 obs. s3_list d background p w = (w1, Ok obs) \<and> store_inv w1 \<and> objs w1 = objs w
    \<and> distinct (map oi_path obs)
    \<and> {(oi_path ob, oi_size ob) |ob. ob \<in> set obs \<and> \<not> oi_isdir ob}
        = {(k, int (length x)) |k x. objs w k = Some x \<and> has_prefix k (s3_clean_key p)}"
proof -
  obtain w1 out where 1: "s3_list d background p w = (w1, Ok (map s3_listed_object (so_contents out)))"
    "patient d w1" "kept w w1" "lists_exactly out ((objs w) |` {k. has_prefix k (s3_clean_key p)})"
    using s3_list_ok assms unfolding store_inv_def by blast
  let ?obs = "map s3_listed_object (so_contents out)" and ?cs = "set (so_contents out)"
  have im: "(\<lambda>ob. (sl_key ob, sl_size ob)) ` ?cs = {(k, int (length x)) |k x. objs w k = Some x \<and> has_prefix k (s3_clean_key p)}"
    using 1(4) by (auto simp: lists_exactly_def restrict_map_def)
  have nd: "\<not> has_suffix (sl_key ob) ''/''" if "ob \<in> ?cs" for ob
  proof -
    have "(sl_key ob, sl_size ob) \<in> {(k, int (length x)) |k x. objs w k = Some x \<and> has_prefix k (s3_clean_key p)}"
      using that im by blast
    then obtain x where "objs w (sl_key ob) = Some x" by blast
    then show ?thesis using assms unfolding store_inv_def s3_key_Some by blast
  qed
  have "map oi_path ?obs = map sl_key (so_contents out)" by (simp add: s3_listed_object_def)
  moreover have "distinct (map sl_key (so_contents out))" using 1(4) by (simp add: lists_exactly_def)
  ultimately have "distinct (map oi_path ?obs)" by metis
  moreover have "{(oi_path ob, oi_size ob) |ob. ob \<in> set ?obs \<and> \<not> oi_isdir ob} = (\<lambda>ob. (sl_key ob, sl_size ob)) ` ?cs"
    using nd by (force simp: s3_listed_object_def)
  ultimately show ?thesis using 1(1,3) store_inv_kept [OF assms 1(2,3)] im
    by (intro exI [of _ w1] exI [of _ ?obs]) (simp add: kept_def)
qed

end

sublocale s3_store \<subseteq> store: object_store "s3_driver d ident" store_inv s3_key s3_clean_key objs store_plain fitting
proof (unfold_locales, goal_cases)
  case (1 w k x)
  then show ?case by (auto simp: store_inv_def)
next
  case (2 w k x)
  then show ?case by (rule store_stored)
next
  case (3 w p k x)
  then show ?case using store_read [OF 3(1,2) store_stored [OF 3(1,3)]] by (simp add: s3_driver_def)
next
  case (4 w p k)
  then show ?case using store_read [OF 4(1,2,4)] by (auto simp: s3_driver_def)
next
  case (5 w p k x)
  then show ?case using store_stat [OF 5(1,2) store_stored [OF 5(1,3)]] by (auto simp: s3_driver_def)
next
  case (6 w p k)
  then show ?case using store_stat [OF 6(1,2,4)] by (auto simp: s3_driver_def)
next
  case (7 w p k x)
  then show ?case using store_write [of w p k x] by (simp add: s3_driver_def)
next
  case (8 w p k)
  then show ?case using store_delete [of w p k] by (simp add: s3_driver_def)
next
  case (9 w p)
  then show ?case using store_list [of w p] by (simp add: s3_driver_def)
qed

context s3_store
begin

lemma is_object_store: "object_store (s3_driver d ident) store_inv s3_key s3_clean_key objs store_plain fitting"
  by (rule store.object_store_axioms)

end

end
