(* ===== verification/S3_Server.thy ===== *)
theory S3_Server
  imports S3_Service
begin

text \<open>
  \<^verbatim>\<open>tests/e2e/harness/s3_mock.go\<close>: the S3 server the repository tests its driver against,
  as a client record, and the interpretation of the driver's interface on it.  HTTP, XML and the
  SDK carry requests and answers unchanged, one HTTP request for one SDK call; the MD5 sum and the
  clock are parameters.  The counters are unbounded.
\<close>

declare background_simp [simp del]

record s3_server =
  sv_buckets :: "(string \<times> (string \<times> bytes) list) list"
  sv_uploads :: "(string \<times> (int \<times> bytes) list) list"
  sv_next :: nat
  sv_fail :: int

definition new_s3_server :: s3_server where
  "new_s3_server = \<lparr>sv_buckets = [], sv_uploads = [], sv_next = 0, sv_fail = 0\<rparr>"

definition create_bucket :: "string \<Rightarrow> s3_server \<Rightarrow> s3_server" where
  "create_bucket b s =
     (if map_of (sv_buckets s) b = None then s\<lparr>sv_buckets := AList.update b [] (sv_buckets s)\<rparr> else s)"

definition simulate_transient_failures :: "int \<Rightarrow> s3_server \<Rightarrow> s3_server" where
  "simulate_transient_failures n s = s\<lparr>sv_fail := n\<rparr>"

definition bucket_of :: "s3_server \<Rightarrow> string \<Rightarrow> (string \<times> bytes) list" where
  "bucket_of s b = (case map_of (sv_buckets s) b of None \<Rightarrow> [] | Some m \<Rightarrow> m)"

definition set_bucket :: "string \<Rightarrow> (string \<times> bytes) list \<Rightarrow> s3_server \<Rightarrow> s3_server" where
  "set_bucket b m s = s\<lparr>sv_buckets := AList.update b m (sv_buckets s)\<rparr>"

text \<open>
  What every request goes through: the SDK refuses an empty key, the server counts down the
  simulated failures and makes the bucket if it is not there.
\<close>

definition empty_key :: go_error where
  "empty_key = ErrText ''input member Key must not be empty''"

definition served :: "string \<Rightarrow> (s3_server \<Rightarrow> s3_server \<times> 'a res) \<Rightarrow> s3_server \<Rightarrow> s3_server \<times> 'a res" where
  "served b h s =
     (let s1 = s\<lparr>sv_fail := sv_fail s - 1\<rparr> in
      if 0 \<le> sv_fail s1 then (s1, Err (ErrAPI ''SlowDown'' ''Please reduce your request rate.''))
      else h (create_bucket b s1))"

definition keyed :: "string \<Rightarrow> string \<Rightarrow> (s3_server \<Rightarrow> s3_server \<times> 'a res) \<Rightarrow> s3_server \<Rightarrow> s3_server \<times> 'a res" where
  "keyed b k h s = (if k = '''' then (s, Err empty_key) else served b h s)"

definition handle_put :: "string \<Rightarrow> string \<Rightarrow> bytes \<Rightarrow> s3_server \<Rightarrow> s3_server \<times> unit res" where
  "handle_put b k d s = (set_bucket b (AList.update k d (bucket_of s b)) s, Ok ())"

definition handle_get :: "string \<Rightarrow> string \<Rightarrow> s3_server \<Rightarrow> s3_server \<times> reader res" where
  "handle_get b k s =
     (s, case map_of (bucket_of s b) k of
           None \<Rightarrow> Err (ErrAPI ''NoSuchKey'' ''The specified key does not exist.'')
         | Some d \<Rightarrow> Ok (bytes_reader d))"

definition handle_head :: "(bytes \<Rightarrow> string) \<Rightarrow> string \<Rightarrow> string \<Rightarrow> s3_server \<Rightarrow> s3_server \<times> s3_head_output res" where
  "handle_head md5 b k s =
     (s, case map_of (bucket_of s b) k of
           None \<Rightarrow> Err (ErrAPI ''NotFound'' ''Not Found'')
         | Some d \<Rightarrow> Ok \<lparr>sh_size = int (length d), sh_modtime = None,
                        sh_etag = go_quote (md5 d), sh_ctype = '''', sh_meta = []\<rparr>)"

definition handle_delete :: "string \<Rightarrow> string \<Rightarrow> s3_server \<Rightarrow> s3_server \<times> unit res" where
  "handle_delete b k s = (set_bucket b (AList.delete k (bucket_of s b)) s, Ok ())"

definition handle_list :: "(bytes \<Rightarrow> string) \<Rightarrow> int \<Rightarrow> string \<Rightarrow> s3_list_input \<Rightarrow> s3_server \<Rightarrow> s3_server \<times> s3_list_output res" where
  "handle_list md5 now b r s =
     (let p = (case si_prefix r of None \<Rightarrow> '''' | Some p \<Rightarrow> p);
          hits = filter (\<lambda>(k, v). has_prefix k p) (bucket_of s b)
      in (s, Ok \<lparr>so_contents = map (\<lambda>(k, v). \<lparr>sl_key = k, sl_size = int (length v), sl_modtime = Some now,
                                          sl_etag = go_quote (md5 v)\<rparr>) (sort_key fst hits),
                 so_prefixes = [], so_next = None, so_truncated = False\<rparr>))"

definition upload_id :: "nat \<Rightarrow> string" where
  "upload_id n = ''upload-'' @ nat_text n"

definition handle_initiate :: "s3_server \<Rightarrow> s3_server \<times> string res" where
  "handle_initiate s =
     (let uid = upload_id (Suc (sv_next s)) in
      (s\<lparr>sv_next := Suc (sv_next s), sv_uploads := AList.update uid [] (sv_uploads s)\<rparr>, Ok uid))"

definition not_found_status :: go_error where
  "not_found_status = ErrAPI ''UnknownError'' ''UnknownError''"

definition handle_part :: "(bytes \<Rightarrow> string) \<Rightarrow> string \<Rightarrow> int \<Rightarrow> bytes \<Rightarrow> s3_server \<Rightarrow> s3_server \<times> string res" where
  "handle_part md5 u n d s =
     (case map_of (sv_uploads s) u of
        None \<Rightarrow> (s, Err not_found_status)
      | Some ps \<Rightarrow> (s\<lparr>sv_uploads := AList.update u (AList.update n d ps) (sv_uploads s)\<rparr>, Ok (go_quote (md5 d))))"

text \<open>The list of parts in the request is not looked at: every part that was uploaded is joined.\<close>

definition handle_complete :: "string \<Rightarrow> string \<Rightarrow> string \<Rightarrow> s3_server \<Rightarrow> s3_server \<times> unit res" where
  "handle_complete b k u s =
     (case map_of (sv_uploads s) u of
        None \<Rightarrow> (s, Err not_found_status)
      | Some ps \<Rightarrow>
          (let data = concat (map snd (sort_key fst ps));
               s1 = s\<lparr>sv_uploads := AList.delete u (sv_uploads s)\<rparr>
           in (set_bucket b (AList.update k data (bucket_of s1 b)) s1, Ok ())))"

definition handle_abort :: "string \<Rightarrow> s3_server \<Rightarrow> s3_server \<times> unit res" where
  "handle_abort u s = (s\<lparr>sv_uploads := AList.delete u (sv_uploads s)\<rparr>, Ok ())"

definition server_client :: "(bytes \<Rightarrow> string) \<Rightarrow> int \<Rightarrow> s3_server s3_client" where
  "server_client md5 now =
     \<lparr>sc_get = (\<lambda>b k. keyed b k (handle_get b k)),
      sc_put = (\<lambda>b k d ct mt. keyed b k (handle_put b k d)),
      sc_create = (\<lambda>b k ct mt. keyed b k handle_initiate),
      sc_upload_part = (\<lambda>b k u n d. keyed b k (handle_part md5 u (sint n) d)),
      sc_complete = (\<lambda>b k u parts. keyed b k (handle_complete b k u)),
      sc_abort = (\<lambda>b k u. keyed b k (handle_abort u)),
      sc_list = (\<lambda>b r. served b (handle_list md5 now b r)),
      sc_delete = (\<lambda>b k. keyed b k (handle_delete b k)),
      sc_head = (\<lambda>b k. keyed b k (handle_head md5 b k))\<rparr>"

section \<open>The server keeps the driver's interface\<close>

text \<open>
  Objects and parts have one entry each, the identifiers of the uploads were all given out, and the
  numbers of the parts are those of the driver.
\<close>

definition one_each :: "('k \<times> ('a \<times> 'b) list) list \<Rightarrow> bool" where
  "one_each al \<longleftrightarrow> (\<forall>m \<in> snd ` set al. distinct (map fst m))"

definition given_out :: "nat \<Rightarrow> (string \<times> 'b) list \<Rightarrow> bool" where
  "given_out n al \<longleftrightarrow> (\<forall>u \<in> fst ` set al. \<exists>i \<le> n. u = upload_id i)"

definition numbered :: "(string \<times> (int \<times> bytes) list) list \<Rightarrow> bool" where
  "numbered al \<longleftrightarrow> (\<forall>ps \<in> snd ` set al. fst ` set ps \<subseteq> range (sint :: int32 \<Rightarrow> int))"

definition server_live :: "s3_server \<Rightarrow> bool" where
  "server_live s \<longleftrightarrow> one_each (sv_buckets s) \<and> one_each (sv_uploads s) \<and> given_out (sv_next s) (sv_uploads s)
     \<and> numbered (sv_uploads s)"

definition server_busy :: "s3_server \<Rightarrow> nat" where
  "server_busy s = nat (sv_fail s)"

definition server_objs :: "string \<Rightarrow> s3_server \<Rightarrow> string \<rightharpoonup> bytes" where
  "server_objs b s = map_of (bucket_of s b)"

text \<open>The server keeps an upload for every key alike, and its tags are the quoted sums of the parts.\<close>

definition seen_parts :: "(bytes \<Rightarrow> string) \<Rightarrow> (int \<times> bytes) list \<Rightarrow> parts" where
  "seen_parts md5 ps n = map_option (\<lambda>x. (x, go_quote (md5 x))) (map_of ps (sint n))"

definition server_ups :: "(bytes \<Rightarrow> string) \<Rightarrow> s3_server \<Rightarrow> uploads" where
  "server_ups md5 s k u = map_option (seen_parts md5) (map_of (sv_uploads s) u)"

lemma set_update_sub: "set (AList.update k v al) \<subseteq> insert (k, v) (set al)"
  by (induction al) auto

lemma set_delete_sub: "set (AList.delete k al) \<subseteq> set al"
  by (induction al) (auto split: if_splits)

lemma one_each_update [simp]: "one_each al \<Longrightarrow> distinct (map fst m) \<Longrightarrow> one_each (AList.update k m al)"
  using set_update_sub [of k m al] unfolding one_each_def by auto

lemma one_each_delete [simp]: "one_each al \<Longrightarrow> one_each (AList.delete k al)"
  using set_delete_sub [of k al] unfolding one_each_def by auto

lemma one_each_lookup: "one_each al \<Longrightarrow> map_of al k = Some m \<Longrightarrow> distinct (map fst m)"
  unfolding one_each_def by (force dest: map_of_SomeD)

lemma given_out_update:
  assumes "given_out n al" "i \<le> n'" "n \<le> n'"
  shows "given_out n' (AList.update (upload_id i) m al)"
  unfolding given_out_def
proof
  fix u assume "u \<in> fst ` set (AList.update (upload_id i) m al)"
  then have "u = upload_id i \<or> u \<in> fst ` set al" using set_update_sub [of "upload_id i" m al] by auto
  then show "\<exists>j\<le>n'. u = upload_id j"
    using assms unfolding given_out_def by (metis order_trans)
qed

lemma given_out_delete [simp]: "given_out n al \<Longrightarrow> given_out n (AList.delete k al)"
  using set_delete_sub [of k al] unfolding given_out_def by blast

lemma numbered_update: "numbered al \<Longrightarrow> fst ` set ps \<subseteq> range (sint :: int32 \<Rightarrow> int) \<Longrightarrow> numbered (AList.update u ps al)"
proof -
  assume al: "numbered al" and ps: "fst ` set ps \<subseteq> range (sint :: int32 \<Rightarrow> int)"
  show ?thesis
    unfolding numbered_def
  proof
    fix qs assume "qs \<in> snd ` set (AList.update u ps al)"
    then have "qs = ps \<or> qs \<in> snd ` set al" using image_mono [OF set_update_sub [of u ps al], of snd] by auto
    then show "fst ` set qs \<subseteq> range (sint :: int32 \<Rightarrow> int)" using al ps unfolding numbered_def by metis
  qed
qed

lemma numbered_delete [simp]: "numbered al \<Longrightarrow> numbered (AList.delete u al)"
  using set_delete_sub [of u al] unfolding numbered_def by blast

lemma digit_char_inj: "a < 10 \<Longrightarrow> b < 10 \<Longrightarrow> digit_char a = digit_char b \<Longrightarrow> a = b"
proof -
  assume "a < 10" "b < 10" and e: "digit_char a = digit_char b"
  then have "(of_char (digit_char a) :: nat) = 48 + a" "(of_char (digit_char b) :: nat) = 48 + b"
    by (simp_all add: digit_char_def)
  then have "48 + a = 48 + b" using e by metis
  then show "a = b" by (rule add_left_imp_eq)
qed

lemma nat_text_nonempty: "nat_text n \<noteq> ''''"
  by (subst nat_text.simps) simp

lemma nat_text_inj: "nat_text a = nat_text b \<Longrightarrow> a = b"
proof (induction a arbitrary: b rule: less_induct)
  case (less a)
  have a: "nat_text a = (if a < 10 then [digit_char a] else nat_text (a div 10) @ [digit_char (a mod 10)])" and
    b: "nat_text b = (if b < 10 then [digit_char b] else nat_text (b div 10) @ [digit_char (b mod 10)])"
    by (rule nat_text.simps)+
  show ?case
  proof (cases "a < 10 \<or> b < 10")
    case True
    then have "a < 10 \<and> b < 10 \<and> digit_char a = digit_char b"
      using less.prems a b nat_text_nonempty nat_text_nonempty [symmetric] by (auto split: if_splits)
    then show ?thesis using digit_char_inj by blast
  next
    case False
    then have "nat_text (a div 10) = nat_text (b div 10)" "digit_char (a mod 10) = digit_char (b mod 10)"
      using less.prems a b by auto
    then have "a div 10 = b div 10" "a mod 10 = b mod 10"
      using less.IH [of "a div 10" "b div 10"] digit_char_inj [of "a mod 10" "b mod 10"] False by auto
    then show ?thesis by (metis div_mult_mod_eq)
  qed
qed

text \<open>The passage to a free server changes nothing that is looked at.\<close>

definition freed :: "string \<Rightarrow> s3_server \<Rightarrow> s3_server" where
  "freed b s = create_bucket b (s\<lparr>sv_fail := sv_fail s - 1\<rparr>)"

lemma bucket_of_simps [simp]:
  "bucket_of (set_bucket b m s) b = m"
  "bucket_of (s\<lparr>sv_fail := n\<rparr>) b = bucket_of s b"
  "bucket_of (s\<lparr>sv_uploads := us\<rparr>) b = bucket_of s b"
  "bucket_of (s\<lparr>sv_next := i\<rparr>) b = bucket_of s b"
  by (simp_all add: bucket_of_def set_bucket_def)

lemma server_live_set_bucket: "server_live s \<Longrightarrow> distinct (map fst m) \<Longrightarrow> server_live (set_bucket b m s)"
  by (simp add: server_live_def set_bucket_def)

lemma server_live_bucket: "server_live s \<Longrightarrow> distinct (map fst (bucket_of s b))"
  by (auto simp: server_live_def bucket_of_def split: option.split dest: one_each_lookup)

lemma server_live_parts: "server_live s \<Longrightarrow> map_of (sv_uploads s) u = Some ps \<Longrightarrow> distinct (map fst ps)"
  by (auto simp: server_live_def dest: one_each_lookup)

lemma freed_simps [simp]:
  "bucket_of (freed b s) b = bucket_of s b" "sv_uploads (freed b s) = sv_uploads s"
  "sv_next (freed b s) = sv_next s" "sv_fail (freed b s) = sv_fail s - 1"
  by (auto simp: freed_def create_bucket_def bucket_of_def)

lemma server_live_freed: "server_live s \<Longrightarrow> server_live (freed b s)"
  using server_live_set_bucket [of "s\<lparr>sv_fail := sv_fail s - 1\<rparr>" "[]" b]
  by (auto simp: freed_def create_bucket_def set_bucket_def server_live_def)

lemma slow_down_transient: "is_transient (ErrAPI ''SlowDown'' m)"
  by (simp add: is_transient_def transient_codes_def)

lemma throttled_served:
  assumes "server_live s" "0 < server_busy s"
  shows "throttled server_live server_busy (server_objs b) (server_ups md5) s (served b h s)"
  using assms slow_down_transient
  by (simp add: throttled_def served_def server_busy_def server_live_def server_objs_def server_ups_def Let_def fun_eq_iff)

lemma throttled_keyed:
  assumes "server_live s" "0 < server_busy s" "k \<noteq> []"
  shows "throttled server_live server_busy (server_objs b) (server_ups md5) s (keyed b k h s)"
  using throttled_served [OF assms(1,2), of b md5 h] assms(3) unfolding keyed_def by simp

lemma served_free: "server_busy s = 0 \<Longrightarrow> served b h s = h (freed b s)"
  by (simp add: served_def freed_def server_busy_def)

lemma keyed_free: "server_busy s = 0 \<Longrightarrow> k \<noteq> '''' \<Longrightarrow> keyed b k h s = h (freed b s)"
  by (simp add: keyed_def served_free)

lemma freed_keeps:
  "server_live s \<Longrightarrow> server_busy s = 0 \<Longrightarrow>
     settled server_live server_busy s (freed b s) \<and> server_objs b (freed b s) = server_objs b s
     \<and> server_ups md5 (freed b s) = server_ups md5 s"
  by (simp add: settled_def server_live_freed server_objs_def server_busy_def server_ups_def fun_eq_iff)

text \<open>Writing one bucket.\<close>

lemma put_bucket:
  assumes "server_live s" "distinct (map fst m)"
  shows "settled server_live server_busy s (set_bucket b m s)
    \<and> server_objs b (set_bucket b m s) = map_of m \<and> server_ups md5 (set_bucket b m s) = server_ups md5 s"
proof -
  have "sv_uploads (set_bucket b m s) = sv_uploads s" "sv_fail (set_bucket b m s) = sv_fail s"
    by (simp_all add: set_bucket_def)
  then show ?thesis using server_live_set_bucket [OF assms]
    by (simp add: settled_def server_objs_def server_busy_def server_ups_def fun_eq_iff)
qed

lemma drop_upload:
  fixes u :: string
  assumes "server_live s"
  defines "s1 \<equiv> s\<lparr>sv_uploads := AList.delete u (sv_uploads s)\<rparr>"
  shows "settled server_live server_busy s s1 \<and> server_objs b s1 = server_objs b s
    \<and> dropped_upload u (server_ups md5 s) (server_ups md5 s1)"
  using assms(1)
  by (simp add: s1_def settled_def server_live_def server_busy_def server_objs_def server_ups_def dropped_upload_def elsewhere_def)

lemma set_upload:
  assumes "server_live s" "distinct (map fst ps)" "fst ` set ps \<subseteq> range (sint :: int32 \<Rightarrow> int)"
    and "u = upload_id n" "n \<le> m" "sv_next s \<le> m"
  defines "s1 \<equiv> s\<lparr>sv_next := m, sv_uploads := AList.update u ps (sv_uploads s)\<rparr>"
  shows "settled server_live server_busy s s1 \<and> server_objs b s1 = server_objs b s
    \<and> elsewhere u (server_ups md5 s) (server_ups md5 s1) \<and> server_ups md5 s1 k u = Some (seen_parts md5 ps)"
  using assms(1-6) given_out_update [of "sv_next s" "sv_uploads s" n m ps]
  by (simp add: s1_def settled_def server_live_def server_busy_def server_objs_def server_ups_def elsewhere_def numbered_update)

lemma set_parts:
  assumes "server_live s" "distinct (map fst ps)" "fst ` set ps \<subseteq> range (sint :: int32 \<Rightarrow> int)" "u = upload_id n" "n \<le> sv_next s"
  defines "s1 \<equiv> s\<lparr>sv_uploads := AList.update u ps (sv_uploads s)\<rparr>"
  shows "settled server_live server_busy s s1 \<and> server_objs b s1 = server_objs b s
    \<and> elsewhere u (server_ups md5 s) (server_ups md5 s1) \<and> server_ups md5 s1 k u = Some (seen_parts md5 ps)"
proof -
  have "s1 = s\<lparr>sv_next := sv_next s, sv_uploads := AList.update u ps (sv_uploads s)\<rparr>" by (simp add: s1_def)
  then show ?thesis using set_upload [OF assms(1-5) order_refl] by metis
qed

text \<open>The parts of a complete request name the uploaded parts in order, so joining all is joining those.\<close>

lemma joined_sorted:
  assumes "distinct (map fst ps)" "fst ` set ps \<subseteq> range (sint :: int32 \<Rightarrow> int)"
    and "dom (seen_parts md5 ps) = set (map fst named)" "sorted_wrt (\<lambda>a b. sint a < sint b) (map fst named)"
  shows "concat (map snd (sort_key fst ps)) = joined_parts (seen_parts md5 ps) named"
proof -
  let ?ns = "map (sint \<circ> fst) named"
  have d: "dom (seen_parts md5 ps) = {n. sint n \<in> fst ` set ps}"
    by (auto simp: seen_parts_def map_of_eq_None_iff dom_def; force simp: map_of_eq_None_iff)
  have g: "f ` {n. f n \<in> A} = A" if "A \<subseteq> range f" for f :: "int32 \<Rightarrow> int" and A using that by auto
  have "sint ` dom (seen_parts md5 ps) = fst ` set ps" unfolding d by (rule g [OF assms(2)])
  then have st: "set ?ns = fst ` set ps" using assms(3) by (simp add: image_comp comp_def)
  have "map fst (sort_key fst ps) = ?ns"
  proof (rule sorted_distinct_set_unique)
    have "sorted_wrt (<) ?ns" using assms(4) by (simp add: sorted_wrt_map)
    then show "sorted ?ns" "distinct ?ns" using strict_sorted_iff by blast+
    show "distinct (map fst (sort_key fst ps))" using assms(1) by (simp add: distinct_map)
    show "set (map fst (sort_key fst ps)) = set ?ns" using st by simp
  qed simp
  moreover have "map snd (sort_key fst ps) = map (\<lambda>n. the (map_of ps n)) (map fst (sort_key fst ps))"
    using assms(1) by (auto simp: map_of_eq_Some_iff)
  moreover have "fst (the (seen_parts md5 ps n)) = the (map_of ps (sint n))" if "(n, t) \<in> set named" for n t
  proof -
    have "sint n \<in> fst ` set ps" using st that by force
    then obtain x where "map_of ps (sint n) = Some x" using map_of_eq_None_iff [of ps "sint n"] by fastforce
    then show ?thesis by (simp add: seen_parts_def)
  qed
  then have "map (\<lambda>(n, t). fst (the (seen_parts md5 ps n))) named = map (\<lambda>n. the (map_of ps n)) ?ns"
    by (auto simp: case_prod_unfold)
  ultimately show ?thesis by (simp only: joined_parts_def)
qed

section \<open>The interpretation\<close>

lemma server_lists:
  assumes "server_live s"
  shows "\<exists>out. handle_list md5 now b (plain_request p) s = (s, Ok out)
    \<and> lists_exactly out ((server_objs b s) |` {k. has_prefix k p})"
proof -
  let ?hits = "filter (\<lambda>(k, v). has_prefix k p) (bucket_of s b)"
  let ?mk = "\<lambda>(k, v). \<lparr>sl_key = k, sl_size = int (length v), sl_modtime = Some now, sl_etag = go_quote (md5 v)\<rparr>"
  have d: "distinct (map fst (bucket_of s b))" by (rule server_live_bucket [OF assms])
  then have dh: "distinct (map fst ?hits)" by (simp add: distinct_map_filter)
  have "map sl_key (map ?mk (sort_key fst ?hits)) = map fst (sort_key fst ?hits)"
    by (auto simp: case_prod_unfold)
  moreover have "distinct (map fst (sort_key fst ?hits))" using dh by (simp add: distinct_map)
  ultimately have "distinct (map sl_key (map ?mk (sort_key fst ?hits)))" by metis
  moreover have "(\<lambda>ob. (sl_key ob, sl_size ob)) ` set (map ?mk (sort_key fst ?hits))
      = {(k, int (length x)) |k x. ((server_objs b s) |` {k. has_prefix k p}) k = Some x}" (is "?L = ?R")
  proof -
    have "?L = (\<lambda>(k, v). (k, int (length v))) ` set ?hits" by (force simp: case_prod_unfold)
    also have "\<dots> = {(k, int (length v)) |k v. (k, v) \<in> set (bucket_of s b) \<and> has_prefix k p}" by force
    also have "\<dots> = ?R" using d by (auto simp: server_objs_def restrict_map_def map_of_eq_Some_iff)
    finally show ?thesis .
  qed
  moreover have "(case si_prefix (plain_request p) of None \<Rightarrow> '''' | Some q \<Rightarrow> q) = p"
    by (simp add: plain_request_def)
  ultimately show ?thesis unfolding handle_list_def Let_def lists_exactly_def by simp
qed

text \<open>Every kind of request, on a server that refuses nothing any more.\<close>

lemma server_put:
  assumes "server_live s" "server_busy s = 0" "k \<noteq> ''''"
  shows "\<exists>s1. sc_put (server_client md5 now) b k x ct mt s = (s1, Inr ()) \<and> settled server_live server_busy s s1
    \<and> server_objs b s1 = (server_objs b s)(k \<mapsto> x) \<and> server_ups md5 s1 = server_ups md5 s"
proof -
  let ?s = "freed b s"
  note f = freed_keeps [OF assms(1,2), of b md5]
  have "distinct (map fst (AList.update k x (bucket_of ?s b)))"
    using server_live_bucket [OF assms(1)] by (simp add: distinct_update)
  then show ?thesis using f put_bucket [of ?s "AList.update k x (bucket_of ?s b)" b md5] assms
    by (auto simp: server_client_def keyed_free handle_put_def server_objs_def fun_eq_iff settled_def)
qed

lemma server_delete:
  assumes "server_live s" "server_busy s = 0" "k \<noteq> ''''"
  shows "\<exists>s1. sc_delete (server_client md5 now) b k s = (s1, Inr ()) \<and> settled server_live server_busy s s1
    \<and> server_objs b s1 = (server_objs b s)(k := None) \<and> server_ups md5 s1 = server_ups md5 s"
proof -
  let ?s = "freed b s"
  note f = freed_keeps [OF assms(1,2), of b md5]
  have "distinct (map fst (AList.delete k (bucket_of ?s b)))"
    using server_live_bucket [OF assms(1)] by (simp add: distinct_delete)
  then show ?thesis using f put_bucket [of ?s "AList.delete k (bucket_of ?s b)" b md5] assms
    by (auto simp: server_client_def keyed_free handle_delete_def server_objs_def fun_eq_iff settled_def)
qed

lemma server_create:
  assumes "server_live s" "server_busy s = 0" "k \<noteq> ''''"
  shows "\<exists>s1 u. sc_create (server_client md5 now) b k ct mt s = (s1, Inr u) \<and> (\<forall>k'. server_ups md5 s k' u = None)
    \<and> settled server_live server_busy s s1 \<and> server_objs b s1 = server_objs b s
    \<and> elsewhere u (server_ups md5 s) (server_ups md5 s1) \<and> server_ups md5 s1 k u = Some Map.empty"
proof -
  let ?s = "freed b s" and ?u = "upload_id (Suc (sv_next s))"
  note f = freed_keeps [OF assms(1,2), of b md5]
  have "map_of (sv_uploads s) ?u = None"
  proof (rule ccontr)
    assume "map_of (sv_uploads s) ?u \<noteq> None"
    then have "?u \<in> fst ` set (sv_uploads s)" by (simp add: map_of_eq_None_iff)
    then obtain i where "i \<le> sv_next s" "?u = upload_id i" using assms(1) unfolding server_live_def given_out_def by blast
    then show False by (auto simp: upload_id_def dest: nat_text_inj)
  qed
  then have "server_ups md5 s k' ?u = None" for k' by (simp add: server_ups_def)
  moreover have "server_live ?s" "seen_parts md5 [] = Map.empty" using f by (auto simp: settled_def seen_parts_def)
  ultimately show ?thesis
    using f set_upload [of ?s "[]" ?u "Suc (sv_next s)" "Suc (sv_next s)" b md5 k] assms
    by (auto simp: server_client_def keyed_free handle_initiate_def Let_def settled_def)
qed

lemma server_part:
  assumes "server_live s" "server_busy s = 0" "k \<noteq> ''''" "server_ups md5 s k u = Some ps"
  shows "\<exists>s1 t. sc_upload_part (server_client md5 now) b k u n x s = (s1, Inr t)
    \<and> settled server_live server_busy s s1 \<and> server_objs b s1 = server_objs b s
    \<and> elsewhere u (server_ups md5 s) (server_ups md5 s1) \<and> server_ups md5 s1 k u = Some (ps(n \<mapsto> (x, t)))"
proof -
  let ?s = "freed b s"
  note f = freed_keeps [OF assms(1,2), of b md5]
  obtain pl where pl: "map_of (sv_uploads s) u = Some pl" "ps = seen_parts md5 pl" using assms(4) by (auto simp: server_ups_def)
  have "u \<in> fst ` set (sv_uploads s)" using pl(1) by (force dest: map_of_SomeD)
  then obtain i where i: "u = upload_id i" "i \<le> sv_next ?s" using assms(1) unfolding server_live_def given_out_def by auto
  have dp: "distinct (map fst (AList.update (sint n) x pl))"
    using server_live_parts [OF assms(1) pl(1)] by (simp add: distinct_update)
  have "fst ` set pl \<subseteq> range (sint :: int32 \<Rightarrow> int)"
    using assms(1) map_of_SomeD [OF pl(1)] unfolding server_live_def numbered_def by force
  then have np: "fst ` set (AList.update (sint n) x pl) \<subseteq> range (sint :: int32 \<Rightarrow> int)"
    using subset_trans [OF image_mono [OF set_update_sub [of "sint n" x pl], of fst]]
    by (metis image_insert fst_conv insert_subset rangeI)
  have "seen_parts md5 (AList.update (sint n) x pl) = ps(n \<mapsto> (x, go_quote (md5 x)))"
    
    using pl(2) by (auto simp: fun_eq_iff seen_parts_def update_conv' dest: signed_word_eqI)
  moreover have "server_live ?s" using f by (simp add: settled_def)
  ultimately show ?thesis using f set_parts [of ?s _ u i b md5 k, OF _ dp np i] assms(2,3) pl(1)
    by (auto simp: server_client_def keyed_free handle_part_def settled_def)
qed

lemma server_complete:
  assumes "server_live s" "server_busy s = 0" "k \<noteq> ''''" "server_ups md5 s k u = Some ps" "completable L ps named"
  shows "\<exists>s1. sc_complete (server_client md5 now) b k u named s = (s1, Inr ()) \<and> settled server_live server_busy s s1
    \<and> server_objs b s1 = (server_objs b s)(k \<mapsto> joined_parts ps named)
    \<and> dropped_upload u (server_ups md5 s) (server_ups md5 s1)"
proof -
  let ?s = "freed b s"
  note f = freed_keeps [OF assms(1,2), of b md5]
  obtain pl where pl: "map_of (sv_uploads s) u = Some pl" "ps = seen_parts md5 pl" using assms(4) by (auto simp: server_ups_def)
  have np: "fst ` set pl \<subseteq> range (sint :: int32 \<Rightarrow> int)"
    using assms(1) map_of_SomeD [OF pl(1)] unfolding server_live_def numbered_def by force
  let ?t = "?s\<lparr>sv_uploads := AList.delete u (sv_uploads ?s)\<rparr>" and ?x = "concat (map snd (sort_key fst pl))"
  have t: "settled server_live server_busy s ?t" "server_objs b ?t = server_objs b s"
    "dropped_upload u (server_ups md5 s) (server_ups md5 ?t)"
    using drop_upload [of ?s u b md5] f by (auto simp: settled_def)
  have l: "server_live ?t" using t(1) by (simp add: settled_def)
  have dm: "distinct (map fst (AList.update k ?x (bucket_of ?t b)))"
    by (intro distinct_update server_live_bucket [OF l])
  have "?x = joined_parts ps named"
    using joined_sorted [OF server_live_parts [OF assms(1) pl(1)] np, of md5 named] assms(5) pl(2)
    by (simp add: completable_def)
  moreover have "map_of (AList.update k ?x (bucket_of ?t b)) = (server_objs b s)(k \<mapsto> ?x)"
    by (simp add: fun_eq_iff server_objs_def)
  ultimately show ?thesis using put_bucket [OF l dm, of b md5] t pl(1) assms(2,3)
    by (auto simp: server_client_def keyed_free handle_complete_def Let_def settled_def)
qed

text \<open>The server keeps the interface under any limits: it asks for less than the documented service.\<close>

interpretation srv: s3_service "server_client md5 now" b L server_live server_busy "server_objs b" "server_ups md5"
  for md5 :: "bytes \<Rightarrow> string" and now :: int and b :: string and L :: s3_limits
proof (unfold_locales, goal_cases)
  case (1 s k)
  show ?case
  proof (cases "server_busy s = 0")
    case True
    then show ?thesis using freed_keeps [OF 1(1) True, of b md5] 1(2)
      by (auto simp: server_client_def keyed_free handle_get_def server_objs_def valid_key_def split: option.split)
  qed (use 1 in \<open>simp add: server_client_def throttled_keyed valid_key_def\<close>)
next
  case (2 s k)
  show ?case
  proof (cases "server_busy s = 0")
    case True
    then show ?thesis using freed_keeps [OF 2(1) True, of b md5] 2(2)
      by (cases "map_of (bucket_of s b) k") (auto simp: server_client_def keyed_free handle_head_def server_objs_def valid_key_def)
  qed (use 2 in \<open>simp add: server_client_def throttled_keyed valid_key_def\<close>)
next
  case (3 s k x ct mt)
  show ?case
  proof (cases "server_busy s = 0")
    case True
    then show ?thesis using server_put [OF 3(1)] 3(2) by (simp add: valid_key_def)
  qed (use 3 in \<open>simp add: server_client_def throttled_keyed valid_key_def\<close>)
next
  case (4 s k)
  show ?case
  proof (cases "server_busy s = 0")
    case True
    then show ?thesis using server_delete [OF 4(1)] 4(2) by (simp add: valid_key_def)
  qed (use 4 in \<open>simp add: server_client_def throttled_keyed valid_key_def\<close>)
next
  case (5 s k ct mt)
  show ?case
  proof (cases "server_busy s = 0")
    case True
    then show ?thesis using server_create [OF 5(1)] 5(2) by (simp add: valid_key_def)
  qed (use 5 in \<open>simp add: server_client_def throttled_keyed valid_key_def\<close>)
next
  case (6 s k u ps n x)
  show ?case
  proof (cases "server_busy s = 0")
    case True
    then show ?thesis using server_part [OF 6(1)] 6(2,3) by (simp add: valid_key_def)
  qed (use 6 in \<open>simp add: server_client_def throttled_keyed valid_key_def\<close>)
next
  case (7 s k u ps named)
  show ?case
  proof (cases "server_busy s = 0")
    case True
    then show ?thesis using server_complete [OF 7(1)] 7(2-4) by (simp add: valid_key_def)
  qed (use 7 in \<open>simp add: server_client_def throttled_keyed valid_key_def\<close>)
next
  case (8 s k u ps)
  show ?case
  proof (cases "server_busy s = 0")
    case True
    then show ?thesis using freed_keeps [OF 8(1) True, of b md5] drop_upload [of "freed b s" u b md5] 8(2)
      by (auto simp: server_client_def keyed_free handle_abort_def valid_key_def settled_def)
  qed (use 8 in \<open>simp add: server_client_def throttled_keyed valid_key_def\<close>)
next
  case (9 s p)
  show ?case
  proof (cases "server_busy s = 0")
    case True
    then show ?thesis using freed_keeps [OF 9(1) True, of b md5] server_lists [of "freed b s" md5 now b p]
      by (auto simp: server_client_def served_free settled_def)
  qed (use 9 in \<open>simp add: server_client_def throttled_served\<close>)
qed

text \<open>The driver the code makes, under the documented limits of S3 and under none.\<close>

interpretation s3_fs: s3_store "server_client md5 now" b no_limits server_live server_busy "server_objs b" "server_ups md5"
    "s3_new_with_client (server_client md5 now) b rs" ident
  for md5 :: "bytes \<Rightarrow> string" and now :: int and b :: string and rs :: "retry_config list" and ident :: nat
  by unfold_locales (simp_all add: s3_new_with_client_def suited_def no_limits_def multipart_threshold_def)

interpretation s3_aws: s3_store "server_client md5 now" b aws_limits server_live server_busy "server_objs b" "server_ups md5"
    "s3_new_with_client (server_client md5 now) b rs" ident
  for md5 :: "bytes \<Rightarrow> string" and now :: int and b :: string and rs :: "retry_config list" and ident :: nat
  by unfold_locales (simp_all add: s3_new_with_client_def aws_suited)

lemma server_is_service: "s3_service (server_client md5 now) b L server_live server_busy (server_objs b) (server_ups md5)"
  by (rule srv.s3_service_axioms)

section \<open>Properties\<close>

text \<open>A driver with parts of two bytes, for runs on small data.\<close>

definition small_driver :: "s3_server s3" where
  "small_driver = (s3_new_with_client (server_client (\<lambda>_. '''') 0) ''b'' [])\<lparr>s3_threshold := 2\<rparr>"

lemma small_driver_simps [simp]:
  "s3_client small_driver = server_client (\<lambda>_. '''') 0" "s3_bucket small_driver = ''b''"
  "s3_threshold small_driver = 2" "rc_max_retries (s3_retry small_driver) = 5"
  by (simp_all add: small_driver_def s3_new_with_client_def default_retry_config_def)

text \<open>Limits in proportion: parts of one byte at least and two at most, three parts.\<close>

definition small_limits :: s3_limits where
  "small_limits = \<lparr>lim_key = enat 8, lim_put = enat 2, lim_min_part = 1, lim_parts = enat 3, lim_object = enat 7\<rparr>"

lemma small_limits_simps [simp]:
  "suited small_limits 2" "storable small_limits 2 x \<longleftrightarrow> length x \<le> 6" "valid_key small_limits k \<longleftrightarrow> k \<noteq> '''' \<and> length k \<le> 8"
proof -
  show "suited small_limits 2" "valid_key small_limits k \<longleftrightarrow> k \<noteq> '''' \<and> length k \<le> 8"
    by (simp_all add: suited_def valid_key_def small_limits_def)
  have "(length x + 1) div 2 \<le> 3 \<longleftrightarrow> length x \<le> 6" by linarith
  then show "storable small_limits 2 x \<longleftrightarrow> length x \<le> 6" by (auto simp: storable_def small_limits_def part_count_def)
qed

definition busy_server :: "nat \<Rightarrow> s3_server" where
  "busy_server n = simulate_transient_failures (int n) new_s3_server"

lemma busy_server_simps [simp]:
  "server_live (busy_server n)" "server_busy (busy_server n) = n" "server_objs b (busy_server n) = Map.empty"
  "server_ups md5 (busy_server n) = (\<lambda>k u. None)"
  by (auto simp: busy_server_def simulate_transient_failures_def new_s3_server_def server_live_def one_each_def
      given_out_def numbered_def server_busy_def server_objs_def bucket_of_def server_ups_def fun_eq_iff)

text \<open>The driver of the code stores up to ten thousand parts of 16 MiB on S3.\<close>

lemma aws_storable: "storable aws_limits (nat multipart_threshold) x \<longleftrightarrow> length x \<le> 10000 * 16 * 1024 * 1024"
proof -
  have "part_count 16777216 (length x) \<le> 10000 \<longleftrightarrow> length x \<le> 167772160000" by (auto simp: part_count_def)
  then show ?thesis by (auto simp: storable_def aws_limits_def multipart_threshold_def)
qed

text \<open>C6: On any service that answers as S3 documents within its limits (the length of keys, the sizes and
  numbers of parts, the size of objects) and refuses at most MaxRetries requests for transient
  reasons, a write of any announced size (single upload, multipart upload, unknown size) stores
  exactly the bytes of the source under the cleaned key, leaves every other object and no upload
  behind, and a read under any path with the same key gives the bytes back.  The service completes an
  upload only under the numbers and tags it gave for its parts.  Under the limits of S3 and the 16 MiB
  parts of the code the content may have 10,000 parts.
\<close>

theorem s3_write_roundtrip:
  assumes "s3_service C b L live busy objs ups"
    and "s3_client d = C" "s3_bucket d = b" "suited L (s3_threshold d)"
    and "live w" "int (busy w) \<le> rc_max_retries (s3_retry d)"
    and "valid_key L (s3_clean_key p)" "s3_clean_key q = s3_clean_key p"
    and "storable L (nat (s3_threshold d)) (rd_data r)" "rd_err r = None"
    and "0 \<le> sz \<and> sz \<le> s3_threshold d \<Longrightarrow> int (length (rd_data r)) = sz"
    and "s3_threshold d < sz \<Longrightarrow> rd_data r \<noteq> []"
  shows "\<exists>w1 w2. s3_write d background p r sz w = (w1, Ok ())
    \<and> objs w1 = (objs w)(s3_clean_key p \<mapsto> rd_data r) \<and> ups w1 = ups w
    \<and> s3_read d background q w1 = (w2, Ok (bytes_reader (rd_data r)))"
proof -
  note S = assms(1)
  have pat: "s3_service.patient C b L live busy d w" using assms(2-6) by (simp add: s3_service.patient_def [OF S])
  have fit: "s3_service.fits L d r sz"
    using assms(9-12) by (auto simp: s3_service.fits_def [OF S] s3_service.source_fails_def [OF S])
  obtain w1 where 1: "s3_write d background p r sz w = (w1, Ok ())" "s3_service.patient C b L live busy d w1"
    "objs w1 = (objs w)(s3_clean_key p \<mapsto> rd_data r)" "ups w1 = ups w"
    using s3_service.s3_write_stores [OF S pat assms(7) fit, of "[]"] by (auto simp: s3_write_def)
  obtain w2 where "s3_read d background q w1 = (w2, Ok (bytes_reader (rd_data r)))"
    using s3_service.s3_read_ok [OF S 1(2), of q] assms(7,8) 1(3) by auto
  then show ?thesis using 1 by blast
qed

lemma s3_write_roundtrip_witness:
  "\<exists>w1 w2. s3_write small_driver background ''/a/b'' (bytes_reader [1, 2, 3, 4, 5]) (- 1) (busy_server 4) = (w1, Ok ())
    \<and> server_objs ''b'' w1 = [''a/b'' \<mapsto> [1, 2, 3, 4, 5]] \<and> server_ups (\<lambda>_. '''') w1 = (\<lambda>k u. None)
    \<and> s3_read small_driver background ''a/b'' w1 = (w2, Ok (bytes_reader [1, 2, 3, 4, 5]))"
proof -
  have k: "s3_clean_key ''/a/b'' = ''a/b''" "s3_clean_key ''a/b'' = ''a/b''" by code_simp+
  show ?thesis
    using s3_write_roundtrip [OF server_is_service [of "\<lambda>_. ''''" 0 "''b''" small_limits],
        of small_driver "busy_server 4" "''/a/b''" "''a/b''" "bytes_reader [1, 2, 3, 4, 5]" "- 1"] k
    by simp
qed



text \<open>C8: The S3 driver over such a service satisfies the contract of a driver for the keys and the
  contents the service can hold, with a page of a thousand objects as the room the listing leaves:
  reads, writes, deletes, stats and listings are those of a map from keys to contents.
\<close>

theorem s3_refines_object_map:
  assumes "s3_service C b L live busy objs ups"
    and "s3_client d = C" "s3_bucket d = b" "suited L (s3_threshold d)"
  shows "object_store (s3_driver d i)
    (\<lambda>w. live w \<and> int (busy w) \<le> rc_max_retries (s3_retry d) \<and> finite (dom (objs w))
       \<and> card (dom (objs w)) \<le> 1000
       \<and> (\<forall>k x. objs w k = Some x \<longrightarrow> s3_key k = Some k \<and> valid_key L k))
    s3_key s3_clean_key objs (\<lambda>w k. enat (length k) \<le> lim_key L \<and> card (insert k (dom (objs w))) \<le> 1000)
    (storable L (nat (s3_threshold d)))"
proof -
  have st: "s3_store C b L live busy objs ups d" using assms by (simp add: s3_store_def s3_store_axioms_def)
  have "s3_store.store_inv C b L live busy objs d = (\<lambda>w. live w \<and> int (busy w) \<le> rc_max_retries (s3_retry d) \<and> finite (dom (objs w))
       \<and> card (dom (objs w)) \<le> 1000
       \<and> (\<forall>k x. objs w k = Some x \<longrightarrow> s3_key k = Some k \<and> valid_key L k))"
    using assms(2-4) by (auto simp add: s3_store.store_inv_def [OF st] s3_service.patient_def [OF assms(1)] page_limit_def fun_eq_iff)
  moreover have "s3_store.store_plain L objs = (\<lambda>w k. enat (length k) \<le> lim_key L \<and> card (insert k (dom (objs w))) \<le> 1000)"
    by (simp add: s3_store.store_plain_def [OF st] page_limit_def fun_eq_iff)
  ultimately show ?thesis using s3_store.is_object_store [OF st] by simp
qed

lemma s3_refines_object_map_witness:
  "object_store (s3_driver small_driver 0)
    (\<lambda>w. server_live w \<and> int (server_busy w) \<le> rc_max_retries (s3_retry small_driver) \<and> finite (dom (server_objs ''b'' w))
       \<and> card (dom (server_objs ''b'' w)) \<le> 1000
       \<and> (\<forall>k x. server_objs ''b'' w k = Some x \<longrightarrow>
            s3_key k = Some k \<and> valid_key small_limits k))
    s3_key s3_clean_key (server_objs ''b'') (\<lambda>w k. enat (length k) \<le> lim_key small_limits \<and> card (insert k (dom (server_objs ''b'' w))) \<le> 1000)
    (storable small_limits (nat (s3_threshold small_driver)))"
  by (rule s3_refines_object_map [OF server_is_service [of "\<lambda>_. ''''" 0 "''b''" small_limits]]) simp_all

text \<open>A source that ends before its first byte is not an error for an announced size up to the threshold: the driver stores that many zero bytes and reports success.\<close>

theorem s3_empty_source_stores_zeros:
  "case s3_write small_driver background ''a'' (bytes_reader []) 2 (busy_server 0) of
     (w, r) \<Rightarrow> r = Ok () \<and> map_of (bucket_of w ''b'') ''a'' = Some [0, 0]"
  by code_simp

text \<open>A source that ends too early is not an error for an announced size above the threshold: the driver completes the upload with what it got and reports success.\<close>

theorem s3_truncated_upload_succeeds:
  "case s3_write small_driver background ''a'' \<lparr>rd_data = [1, 2, 3], rd_err = Some ErrUnexpectedEOF\<rparr> 9 (busy_server 0) of
     (w, r) \<Rightarrow> r = Ok () \<and> map_of (bucket_of w ''b'') ''a'' = Some [1, 2, 3]"
  by code_simp

text \<open>With a negative MaxRetries a write makes no request at all and reports success, for every service behind the driver.\<close>

theorem s3_negative_retries_lose_writes:
  "s3_write (s3_new_with_client C b [\<lparr>rc_max_retries = -1, rc_base_delay = x, rc_max_delay = y\<rparr>])
     background p (bytes_reader [1]) 1 w = (w, Ok ())"
  by (simp add: s3_write_def s3_write_with_options_def s3_new_with_client_def multipart_threshold_def read_full_def
      put_single_def execute_with_retry_def discard_def Let_def)

end
