(* ===== verification/Sync_Target.thy ===== *)
theory Sync_Target
  imports Go_Errors Go_Path
begin

text \<open>
  \<^verbatim>\<open>pkg/sync/target.go\<close>: endpoints.  A target is a Windows drive path, a remote
  specification \<open>name:path\<close>, or a local path.
\<close>

section \<open>Parsing\<close>

record target_location =
  tl_remote :: bool
  tl_name :: string
  tl_path :: string
  tl_original :: string

definition target_string :: "target_location \<Rightarrow> string" where
  "target_string t =
     (if tl_remote t then (if tl_path t = '''' then tl_name t @ '':'' else tl_name t @ '':'' @ tl_path t)
      else tl_path t)"

definition ascii_letter :: "char \<Rightarrow> bool" where
  "ascii_letter c \<longleftrightarrow> (let n = of_char c :: nat in 65 \<le> n \<and> n \<le> 90 \<or> 97 \<le> n \<and> n \<le> 122)"

text \<open>The regular expression \<^verbatim>\<open>^[a-zA-Z]:([\\/].*)?$\<close>; a dot does not match a newline.\<close>

fun win_drive :: "string \<Rightarrow> bool" where
  "win_drive (c # d # rest) \<longleftrightarrow>
     ascii_letter c \<and> d = CHR '':'' \<and>
     (case rest of [] \<Rightarrow> True
      | s # r \<Rightarrow> (s = CHR ''/'' \<or> s = CHR 0x5C) \<and> CHR 0x0A \<notin> set r)"
| "win_drive s \<longleftrightarrow> False"

definition parse_target :: "string \<Rightarrow> target_location res" where
  "parse_target target =
     (let trimmed = trim_space target in
      if trimmed = '''' then Err (ErrText ''target path cannot be empty'')
      else if win_drive trimmed then
        Ok \<lparr>tl_remote = False, tl_name = '''', tl_path = path_clean trimmed, tl_original = trimmed\<rparr>
      else (case split2 (CHR '':'') trimmed of
              (remote, Some rel) \<Rightarrow>
                if remote = '''' then Err (ErrText (''invalid target: missing remote name before colon in '' @ go_quote trimmed))
                else Ok \<lparr>tl_remote = True, tl_name = remote, tl_path = trim_prefix (slashed rel) ''/'',
                         tl_original = trimmed\<rparr>
            | (_, None) \<Rightarrow>
                Ok \<lparr>tl_remote = False, tl_name = '''', tl_path = path_clean trimmed, tl_original = trimmed\<rparr>))"

section \<open>Lemmas\<close>

lemma split2_Some:
  assumes "split2 c s = (a, Some b)"
  shows "s = a @ c # b" "c \<notin> set a"
proof -
  have a: "a = takeWhile (\<lambda>x. x \<noteq> c) s" using assms by (simp add: split2_def)
  moreover obtain d where d: "dropWhile (\<lambda>x. x \<noteq> c) s = d # b"
    using assms by (auto simp: split2_def split: list.splits)
  then have "d = c" using hd_dropWhile [of "\<lambda>x. x \<noteq> c" s] by simp
  ultimately show "s = a @ c # b" using d by (metis takeWhile_dropWhile_id)
  show "c \<notin> set a" using a by (auto dest: set_takeWhileD)
qed

lemma win_drive_colon: "win_drive s \<Longrightarrow> CHR '':'' \<in> set s"
  by (cases s rule: win_drive.cases) auto

section \<open>Properties\<close>

text \<open>C38: A target that parses is remote exactly when it contains a colon and is not a Windows drive path; a remote target has a name without colons and a path without backslashes.\<close>

theorem parse_target_kind:
  assumes "parse_target s = Ok t"
  shows "tl_remote t = (CHR '':'' \<in> set (trim_space s) \<and> \<not> win_drive (trim_space s)) \<and>
    (tl_remote t \<longrightarrow> tl_name t \<noteq> '''' \<and> CHR '':'' \<notin> set (tl_name t) \<and> CHR 0x5C \<notin> set (tl_path t))"
proof -
  let ?s = "trim_space s"
  consider (drive) "win_drive ?s" | (rem) n r where "\<not> win_drive ?s" "split2 (CHR '':'') ?s = (n, Some r)"
    | (loc) n where "\<not> win_drive ?s" "split2 (CHR '':'') ?s = (n, None)"
    by (cases "split2 (CHR '':'') ?s", cases "snd (split2 (CHR '':'') ?s)") auto
  then show ?thesis
  proof cases
    case drive
    then show ?thesis using assms by (auto simp: parse_target_def Let_def split: if_splits)
  next
    case rem
    note sp = split2_Some [OF rem(2)]
    have t: "t = \<lparr>tl_remote = True, tl_name = n, tl_path = trim_prefix (slashed r) ''/'', tl_original = ?s\<rparr>" "n \<noteq> ''''"
      using assms rem by (auto simp: parse_target_def Let_def split: if_splits)
    have "set (trim_prefix (slashed r) ''/'') \<subseteq> set (slashed r)" by (auto simp: trim_prefix_def dest: in_set_dropD)
    moreover have "CHR 0x5C \<notin> set (slashed r)" using set_replace_char [of "CHR 0x5C" "CHR 0x2F" r] by auto
    moreover have "CHR '':'' \<in> set ?s" by (subst sp(1)) simp
    ultimately show ?thesis using rem(1) sp(2) t by auto
  next
    case loc
    then have "CHR '':'' \<notin> set ?s" by (auto simp: split2_def dropWhile_eq_Nil_conv split: list.splits)
    then show ?thesis using assms loc by (auto simp: parse_target_def Let_def split: if_splits)
  qed
qed

lemma parse_target_kind_witness:
  "parse_target '' nas:/docs/a '' = Ok \<lparr>tl_remote = True, tl_name = ''nas'', tl_path = ''docs/a'', tl_original = ''nas:/docs/a''\<rparr> \<and>
   CHR '':'' \<in> set (trim_space '' nas:/docs/a '') \<and> CHR '':'' \<notin> set ''nas''"
proof -
  have "parse_target '' nas:/docs/a '' = Ok \<lparr>tl_remote = True, tl_name = ''nas'', tl_path = ''docs/a'', tl_original = ''nas:/docs/a''\<rparr>"
    by code_simp
  then show ?thesis using parse_target_kind [of "'' nas:/docs/a ''"] by auto
qed

text \<open>A colon keeps the two sides of a target apart: no space of either end reaches over it.\<close>

lemma colon_no_space: "r \<in> set space_runes \<Longrightarrow> CHR '':'' \<notin> set r"
  by (auto simp: space_runes_def)

lemma has_prefix_before:
  assumes "has_prefix (n @ c # t) r" "c \<notin> set r"
  shows "has_prefix n r"
proof -
  obtain q where q: "n @ c # t = r @ q" using assms(1) by (auto simp: has_prefix_iff)
  have "length r \<le> length n"
  proof (rule ccontr)
    assume l: "\<not> length r \<le> length n"
    then have "(r @ q) ! length n = r ! length n" by (simp add: nth_append)
    then have "r ! length n = c" unfolding q [symmetric] by simp
    then show False using assms(2) nth_mem [of "length n" r] l by auto
  qed
  moreover have "take (length r) (n @ c # t) = r" using assms(1) by (simp add: has_prefix_def)
  ultimately show ?thesis by (simp add: has_prefix_def)
qed

lemma target_no_space_ends:
  assumes "list_all (\<lambda>r. \<not> has_prefix n r) space_runes" "list_all (\<lambda>r. \<not> has_suffix p r) space_runes"
  shows "no_space_ends (n @ CHR '':'' # p)"
  unfolding no_space_ends_def list_all_iff
proof
  fix r assume r: "r \<in> set space_runes"
  then have "\<not> has_prefix (n @ CHR '':'' # p) r"
    using has_prefix_before colon_no_space assms(1) unfolding list_all_iff by blast
  moreover have "\<not> has_suffix (n @ CHR '':'' # p) r"
  proof
    assume "has_suffix (n @ CHR '':'' # p) r"
    then have "has_prefix (rev p @ CHR '':'' # rev n) (rev r)" by (simp add: has_suffix_def)
    then have "has_prefix (rev p) (rev r)" by (rule has_prefix_before) (use colon_no_space [OF r] in simp)
    then show False using assms(2) r by (auto simp: list_all_iff has_suffix_def)
  qed
  ultimately show "\<not> has_prefix (n @ CHR '':'' # p) r \<and> \<not> has_suffix (n @ CHR '':'' # p) r" by blast
qed

text \<open>C39: The text of a remote location parses back to it: the name is not empty, has no colon and does
  not start with white space of Unicode, the path has no backslash, no leading slash and no such
  space at its end, and the location is not the bare root of a remote with a one-letter name, which
  is a Windows drive.
\<close>

theorem parse_target_roundtrip:
  assumes "n \<noteq> ''''" "CHR '':'' \<notin> set n" "list_all (\<lambda>r. \<not> has_prefix n r) space_runes"
    and "CHR 0x5C \<notin> set p" "\<not> has_prefix p ''/''" "list_all (\<lambda>r. \<not> has_suffix p r) space_runes"
    and "2 \<le> length n \<or> p \<noteq> ''''"
  shows "parse_target (target_string \<lparr>tl_remote = True, tl_name = n, tl_path = p, tl_original = x\<rparr>)
    = Ok \<lparr>tl_remote = True, tl_name = n, tl_path = p, tl_original = n @ '':'' @ p\<rparr>"
proof -
  let ?s = "n @ CHR '':'' # p"
  have str: "target_string \<lparr>tl_remote = True, tl_name = n, tl_path = p, tl_original = x\<rparr> = ?s"
    by (simp add: target_string_def)
  have tr: "trim_space ?s = ?s" by (rule trim_space_id [OF target_no_space_ends [OF assms(3,6)]])
  have "\<not> win_drive ?s"
  proof
    assume w: "win_drive ?s"
    obtain c m where n: "n = c # m" using assms(1) by (cases n) auto
    have "m = []" using w n assms(2) by (cases m) auto
    then have "p \<noteq> ''''" using n assms(7) by auto
    then obtain d q where "p = d # q" by (cases p) auto
    then show False using w n \<open>m = []\<close> assms(4,5) by (auto simp: has_prefix_def)
  qed
  moreover have "trim_prefix (slashed p) ''/'' = p" using assms(4,5) by (simp add: replace_char_id trim_prefix_other)
  ultimately show ?thesis using assms(1) tr by (simp add: str parse_target_def split2_found [OF assms(2)])
qed

lemma parse_target_roundtrip_witness:
  "parse_target (target_string \<lparr>tl_remote = True, tl_name = ''nas'', tl_path = ''docs/a'', tl_original = ''''\<rparr>)
    = Ok \<lparr>tl_remote = True, tl_name = ''nas'', tl_path = ''docs/a'', tl_original = ''nas'' @ '':'' @ ''docs/a''\<rparr>"
  by (rule parse_target_roundtrip) (simp_all add: space_runes_def has_prefix_def has_suffix_def)

text \<open>White space beyond ASCII goes too: a path that ends with a no-break space does not come back.\<close>

lemma parse_target_no_break_space:
  "parse_target (''nas:a'' @ [CHR 0xC2, CHR 0xA0]) = Ok \<lparr>tl_remote = True, tl_name = ''nas'', tl_path = ''a'', tl_original = ''nas:a''\<rparr>"
  by code_simp

end
