(* ===== verification/Sync_Compare.thy ===== *)
theory Sync_Compare
  imports Storage_Driver Go_Float
begin

text \<open>
  \<^verbatim>\<open>pkg/sync/comparator.go\<close> and the number formatting of \<^verbatim>\<open>sync.go\<close>: the hash of
  an object, the comparison of a source with a destination object, \<^verbatim>\<open>FormatBytes\<close>.
  Durations are 64-bit integers, and the passage through \<^verbatim>\<open>float64\<close> is that of \<^verbatim>\<open>Go_Float\<close>.
\<close>

text \<open>\<^verbatim>\<open>time.Time.Sub\<close> saturates at the bounds of a duration.\<close>

definition time_sub :: "int \<Rightarrow> int \<Rightarrow> int" where
  "time_sub a b = max (- (2 ^ 63)) (min (2 ^ 63 - 1) (a - b))"

section \<open>Comparison\<close>

definition mod_time_epsilon :: int where
  "mod_time_epsilon = 1000000000"

datatype compare_mode = CompareModeSizeModTime | CompareModeChecksum

datatype diff_status = DiffStatusIdentical | DiffStatusNew | DiffStatusModified | DiffStatusConflict

fun diff_status_string :: "diff_status \<Rightarrow> string" where
  "diff_status_string DiffStatusIdentical = ''IDENTICAL''"
| "diff_status_string DiffStatusNew = ''NEW''"
| "diff_status_string DiffStatusModified = ''MODIFIED''"
| "diff_status_string DiffStatusConflict = ''CONFLICT''"

definition compute_sha256 :: "ctx \<Rightarrow> 'w driver \<Rightarrow> string \<Rightarrow> 'w \<Rightarrow> 'w \<times> string res" where
  "compute_sha256 cx d path w =
     (case dr_read d cx path w of
        (w1, Inl e) \<Rightarrow> (w1, Err (errorf_w (''failed to open object for hashing '' @ go_quote path) e))
      | (w1, Inr r) \<Rightarrow>
          (w1, case rd_err r of
                 Some e \<Rightarrow> Err (errorf_w (''hashing stream error for '' @ go_quote path) e)
               | None \<Rightarrow> Ok (hex_encode (sha256 (rd_data r)))))"

text \<open>The default mode, on the metadata alone.\<close>

definition compare_meta :: "int \<Rightarrow> object_info \<Rightarrow> object_info \<Rightarrow> diff_status" where
  "compare_meta wide src dst =
     (if oi_size src \<noteq> oi_size dst then DiffStatusConflict
      else
        let diff = time_sub (oi_modtime src) (oi_modtime dst);
            abs_diff = float_to_int64 wide \<bar>float_int diff\<bar>
        in if abs_diff \<le> mod_time_epsilon then DiffStatusIdentical
           else if mod_time_epsilon < diff then DiffStatusModified
           else DiffStatusConflict)"

text \<open>\<^verbatim>\<open>Comparator.Compare\<close>; the status that goes with an error is not looked at by its caller.\<close>

definition compare :: "int \<Rightarrow> compare_mode \<Rightarrow> ctx \<Rightarrow> 'w driver \<Rightarrow> object_info \<Rightarrow> 'w driver \<Rightarrow> object_info option
    \<Rightarrow> 'w \<Rightarrow> 'w \<times> diff_status res" where
  "compare wide mode cx sd src dd dst w =
     (case dst of
        None \<Rightarrow> (w, Ok DiffStatusNew)
      | Some di \<Rightarrow>
          (case mode of
             CompareModeChecksum \<Rightarrow>
               (case compute_sha256 cx sd (oi_path src) w of
                  (w1, Inl e) \<Rightarrow> (w1, Err (errorf_w (''failed to hash source '' @ go_quote (oi_path src)) e))
                | (w1, Inr sh) \<Rightarrow>
                    (case compute_sha256 cx dd (oi_path di) w1 of
                       (w2, Inl e) \<Rightarrow> (w2, Err (errorf_w (''failed to hash destination '' @ go_quote (oi_path di)) e))
                     | (w2, Inr dh) \<Rightarrow> (w2, Ok (if sh = dh then DiffStatusIdentical else DiffStatusConflict))))
           | CompareModeSizeModTime \<Rightarrow> (w, Ok (compare_meta wide src di))))"

section \<open>FormatBytes\<close>

text \<open>The loop: how often \<open>n\<close> can still be divided by 1024, with the divisor it builds.\<close>

function unit_loop :: "int \<Rightarrow> int \<Rightarrow> nat \<Rightarrow> int \<times> nat" where
  "unit_loop n d ex = (if n < 1024 then (d, ex) else unit_loop (n div 1024) (d * 1024) (Suc ex))"
  by pat_completeness auto
termination by (relation "measure (\<lambda>(n, d, ex). nat n)") auto

declare unit_loop.simps [simp del]

definition format_bytes :: "int \<Rightarrow> string" where
  "format_bytes b =
     (if b < 1024 then int_text b @ '' B''
      else
        let (d, ex) = unit_loop (b div 1024) 1024 0;
            tenths = round_even (10 * float_nat b) d
        in nat_text (nat (tenths div 10)) @ ''.'' @ nat_text (nat (tenths mod 10)) @ '' ''
           @ [''KMGTPE'' ! ex] @ ''iB'')"

section \<open>Lemmas\<close>

lemma time_sub_exact: "\<bar>a - b\<bar> < 2 ^ 62 \<Longrightarrow> time_sub a b = a - b"
  unfolding time_sub_def by auto

lemma abs_duration:
  assumes "\<bar>x\<bar> < 2 ^ 62"
  shows "float_to_int64 wide \<bar>float_int x\<bar> \<le> mod_time_epsilon \<longleftrightarrow> \<bar>x\<bar> \<le> mod_time_epsilon"
proof (cases "\<bar>x\<bar> < 2 ^ 53")
  case True
  then have "\<bar>float_int x\<bar> = \<bar>x\<bar>" using float_nat_small [of "\<bar>x\<bar>"] by (auto simp: float_int_def)
  then show ?thesis using True by (auto simp: float_to_int64_def)
next
  case False
  then have l: "2 ^ 53 \<le> float_nat \<bar>x\<bar>" "float_nat \<bar>x\<bar> \<le> 2 ^ 62" using float_nat_large [of "\<bar>x\<bar>"] assms by auto
  then have "\<bar>float_int x\<bar> = float_nat \<bar>x\<bar>" by (auto simp: float_int_def)
  then show ?thesis using l False by (simp add: float_to_int64_def mod_time_epsilon_def)
qed

text \<open>When the default mode takes two objects for the same.\<close>

lemma compare_meta_identical:
  assumes "\<bar>oi_modtime s - oi_modtime d\<bar> < 2 ^ 62"
  shows "compare_meta wide s d = DiffStatusIdentical \<longleftrightarrow>
    oi_size s = oi_size d \<and> \<bar>oi_modtime s - oi_modtime d\<bar> \<le> 1000000000"
  using abs_duration [OF assms, of wide] time_sub_exact [OF assms]
  by (auto simp: compare_meta_def Let_def mod_time_epsilon_def)

lemma unit_loop_spec:
  assumes "0 < n" "0 < d" "n < 1024 ^ Suc k"
  shows "\<exists>i \<le> k. unit_loop n d ex = (d * 1024 ^ i, ex + i) \<and> 1024 ^ i \<le> n \<and> n < 1024 ^ Suc i"
  using assms
proof (induction k arbitrary: n d ex)
  case 0
  then show ?case by (simp add: unit_loop.simps [of n d ex])
next
  case (Suc k)
  show ?case
  proof (cases "n < 1024")
    case True
    then show ?thesis using Suc.prems by (intro exI [of _ 0]) (simp add: unit_loop.simps [of n d ex])
  next
    case False
    have "n div 1024 < 1024 ^ Suc k" using Suc.prems(3) by simp
    moreover have "0 < n div 1024" using False by (simp add: pos_imp_zdiv_pos_iff)
    ultimately obtain i where i: "i \<le> k" "unit_loop (n div 1024) (d * 1024) (Suc ex) = (d * 1024 * 1024 ^ i, Suc ex + i)"
      "1024 ^ i \<le> n div 1024" "n div 1024 < 1024 ^ Suc i"
      using Suc.IH [of "n div 1024" "d * 1024" "Suc ex"] Suc.prems(2) by auto
    have "1024 ^ i * 1024 \<le> n" using i(3) by linarith
    moreover have "n < 1024 ^ Suc i * 1024" using i(4) by linarith
    ultimately show ?thesis using i(1,2) False
      by (intro exI [of _ "Suc i"]) (simp add: unit_loop.simps [of n d ex] mult.commute)
  qed
qed

lemma hex_digit_inject: "a < 16 \<Longrightarrow> b < 16 \<Longrightarrow> hex_digit a = hex_digit b \<Longrightarrow> a = b"
proof -
  have "\<forall>a \<in> set [0..<16]. \<forall>b \<in> set [0..<16]. hex_digit a = hex_digit b \<longrightarrow> a = b" by code_simp
  then show "a < 16 \<Longrightarrow> b < 16 \<Longrightarrow> hex_digit a = hex_digit b \<Longrightarrow> a = b" by simp
qed

lemma hex_byte_inject:
  fixes x y :: byte
  assumes "hex_digit (unat x div 16) = hex_digit (unat y div 16)" "hex_digit (unat x mod 16) = hex_digit (unat y mod 16)"
  shows "x = y"
proof -
  have b: "unat z div 16 < 16" for z :: byte
    using unsigned_less [of z, where 'a = nat] by (simp add: less_mult_imp_div_less)
  have "unat x div 16 = unat y div 16" "unat x mod 16 = unat y mod 16"
    using hex_digit_inject [OF b b assms(1)] hex_digit_inject [OF _ _ assms(2)] by simp_all
  then have "unat x = unat y" by (metis div_mult_mod_eq)
  then show ?thesis by (simp add: word_unat_eq_iff)
qed

lemma hex_encode_inject [simp]: "hex_encode a = hex_encode b \<longleftrightarrow> a = b"
proof (induction a arbitrary: b)
  case Nil
  then show ?case by (cases b) (simp_all add: hex_encode_def)
next
  case (Cons x a)
  show ?case
  proof (cases b)
    case (Cons y c)
    then show ?thesis using Cons.IH [of c] hex_byte_inject [of x y] by (auto simp: hex_encode_def)
  qed (simp add: hex_encode_def)
qed

section \<open>Properties\<close>

text \<open>C36: In the default mode, and for times less than 146 years apart, objects of different sizes are in
  conflict; of the same size they are identical up to one second, modified when the source is newer
  by more, and in conflict when the destination is: the detour through floating point is exact.
\<close>

theorem compare_meta_spec:
  assumes "\<bar>oi_modtime s - oi_modtime d\<bar> < 2 ^ 62"
  shows "compare_meta wide s d =
    (if oi_size s \<noteq> oi_size d then DiffStatusConflict
     else if \<bar>oi_modtime s - oi_modtime d\<bar> \<le> 1000000000 then DiffStatusIdentical
     else if oi_modtime d < oi_modtime s then DiffStatusModified
     else DiffStatusConflict)"
  using abs_duration [OF assms, of wide] time_sub_exact [OF assms]
  by (auto simp: compare_meta_def Let_def mod_time_epsilon_def)

definition sized :: "int \<Rightarrow> int \<Rightarrow> object_info" where
  "sized n t = \<lparr>oi_key = '''', oi_path = '''', oi_size = n, oi_modtime = t, oi_isdir = False, oi_etag = '''',
     oi_ctype = '''', oi_meta = []\<rparr>"

lemma compare_meta_spec_witness:
  "compare_meta 0 (sized 3 5000000000) (sized 3 2000000000) = DiffStatusModified"
  using compare_meta_spec [of "sized 3 5000000000" "sized 3 2000000000" 0] by (simp add: sized_def)

text \<open>Times further apart than a duration can hold saturate, and where the machine turns a float
  out of range into the smallest integer, a file of the same size from the year 1677 counts as
  identical to one of the year 2262.
\<close>

theorem compare_saturates:
  "compare_meta (- (2 ^ 63)) (sized 3 9000000000000000000) (sized 3 (- 9000000000000000000)) = DiffStatusIdentical"
  by code_simp

text \<open>Every non-negative 64-bit size is formatted with a unit of the table: the divisor is the power
  of 1024 that belongs to the unit, and the size lies between it and 1024 times as much.
\<close>

theorem format_bytes_unit:
  assumes "1024 \<le> b" "b < 2 ^ 63"
  shows "\<exists>i < 6. unit_loop (b div 1024) 1024 0 = (1024 ^ Suc i, i) \<and> 1024 ^ Suc i \<le> b \<and> b < 1024 ^ Suc (Suc i) \<and>
    format_bytes b = (let t = round_even (10 * float_nat b) (1024 ^ Suc i) in
      nat_text (nat (t div 10)) @ ''.'' @ nat_text (nat (t mod 10)) @ '' '' @ [''KMGTPE'' ! i] @ ''iB'')"
proof -
  have "b div 1024 < 1024 ^ Suc 5" using assms(2) by simp
  moreover have "0 < b div 1024" using assms(1) by (simp add: pos_imp_zdiv_pos_iff)
  ultimately obtain i where i: "i \<le> 5" "unit_loop (b div 1024) 1024 0 = (1024 * 1024 ^ i, i)"
    "1024 ^ i \<le> b div 1024" "b div 1024 < 1024 ^ Suc i"
    using unit_loop_spec [of "b div 1024" 1024 5 0] by auto
  have "1024 * 1024 ^ i \<le> b" using i(3) by linarith
  moreover have "b < 1024 * 1024 ^ Suc i" using i(4) by linarith
  ultimately show ?thesis using i assms(1)
    by (intro exI [of _ i]) (simp add: format_bytes_def Let_def)
qed

lemma format_bytes_unit_witness:
  "\<exists>i < 6. unit_loop (5000 div 1024) 1024 0 = (1024 ^ Suc i, i) \<and> 1024 ^ Suc i \<le> (5000::int) \<and> (5000::int) < 1024 ^ Suc (Suc i) \<and>
    format_bytes 5000 = (let t = round_even (10 * float_nat 5000) (1024 ^ Suc i) in
      nat_text (nat (t div 10)) @ ''.'' @ nat_text (nat (t mod 10)) @ '' '' @ [''KMGTPE'' ! i] @ ''iB'')"
  by (rule format_bytes_unit) simp_all

end
