(* ===== verification/Sync_Engine.thy ===== *)
theory Sync_Engine
  imports Sync_Compare Go_OS
begin

text \<open>
  \<^verbatim>\<open>pkg/sync/conflict.go\<close> and \<^verbatim>\<open>pkg/sync/sync.go\<close>: the backup of a displaced
  destination file and the one-way synchronisation.  The two drivers act on one world.  The workers
  are a list of stages, one stage between two calls a worker makes, and a schedule picks the worker
  that moves next; a theorem for all schedules is a theorem for all interleavings of the calls.
\<close>

section \<open>The environment\<close>

text \<open>
  What the engine uses beside the drivers: the file system (for a backup directory given by an
  absolute path), the time and its text in the form \<^verbatim>\<open>20060102T150405Z\<close>, what the machine
  makes of a float out of range, and the order in which a map is traversed.
\<close>

record 'w sync_env =
  se_os :: "'w \<Rightarrow> fs"
  se_put_os :: "fs \<Rightarrow> 'w \<Rightarrow> 'w"
  se_now :: "'w \<Rightarrow> int"
  se_stamp :: "'w \<Rightarrow> string"
  se_wide :: int
  se_order :: "(string \<times> object_info) list \<Rightarrow> (string \<times> object_info) list"

section \<open>Conflict backup\<close>

definition default_conflict_dir :: string where
  "default_conflict_dir = ''.conflicts''"

definition conflict_name :: "string \<Rightarrow> string \<Rightarrow> string" where
  "conflict_name rel stamp = trim_prefix (slashed rel) ''/'' @ ''.'' @ stamp @ ''.conflict''"

definition aborted :: "string \<Rightarrow> go_error \<Rightarrow> go_error" where
  "aborted m e = errorf_w (''conflict backup aborted: '' @ m) e"

text \<open>The branch for a directory given by an absolute path.\<close>

definition backup_to_dir :: "string \<Rightarrow> string \<Rightarrow> reader \<Rightarrow> fs \<Rightarrow> fs \<times> string res" where
  "backup_to_dir dir name rc w =
     (let dest = path_join [dir, name] in
      case os_mkdir_all (path_dir dest) 488 w of
        (w1, Inl n) \<Rightarrow>
          (w1, Err (aborted (''cannot create conflict directory '' @ go_quote (path_dir dest)) (os_err ''mkdir'' (path_dir dest) n)))
      | (w1, Inr _) \<Rightarrow>
          (case os_create dest 384 w1 of
             (w2, Inl n) \<Rightarrow>
               (w2, Err (aborted (''cannot create conflict backup file '' @ go_quote dest) (os_err ''open'' dest n)))
           | (w2, Inr q) \<Rightarrow>
               (case os_copy q (rd_data rc) w2 of
                  (w3, Inl n) \<Rightarrow>
                    (fst (os_close q w3), Err (aborted (''stream copy error for '' @ go_quote dest) (os_err ''write'' dest n)))
                | (w3, Inr _) \<Rightarrow>
                    (case rd_err rc of
                       Some e \<Rightarrow> (fst (os_close q w3), Err (aborted (''stream copy error for '' @ go_quote dest) e))
                     | None \<Rightarrow> (fst (os_close q w3), Ok dest)))))"

definition backup_conflict :: "'w sync_env \<Rightarrow> ctx \<Rightarrow> 'w driver \<Rightarrow> string \<Rightarrow> string \<Rightarrow> 'w \<Rightarrow> 'w \<times> string res" where
  "backup_conflict E cx dd rel dir0 w =
     (let dir = (if dir0 = '''' then default_conflict_dir else dir0);
          name = conflict_name rel (se_stamp E w)
      in case dr_stat dd cx rel w of
           (w1, Inl e) \<Rightarrow> (w1, Err (aborted (''cannot stat existing dest file '' @ go_quote rel) e))
         | (w1, Inr info) \<Rightarrow>
             (case dr_read dd cx rel w1 of
                (w2, Inl e) \<Rightarrow> (w2, Err (aborted (''cannot read existing dest file '' @ go_quote rel) e))
              | (w2, Inr rc) \<Rightarrow>
                  if rooted dir then on_part (se_os E) (se_put_os E) (backup_to_dir dir name rc) w2
                  else
                    let path = trim_slashes (slashed dir) @ ''/'' @ name in
                    (case dr_write dd cx path rc (oi_size info) w2 of
                       (w3, Inl e) \<Rightarrow> (w3, Err (aborted (''failed to write backup '' @ go_quote path) e))
                     | (w3, Inr _) \<Rightarrow> (w3, Ok path))))"

section \<open>Options and statistics\<close>

record sync_options =
  sy_checksum :: bool
  sy_delete :: bool
  sy_dry_run :: bool
  sy_conflict_dir :: string
  sy_no_backup :: bool
  sy_exclude :: "string list"
  sy_include :: "string list"
  sy_workers :: int

record sync_stats =
  st_source :: string
  st_destination :: string
  st_transferred :: int
  st_transferred_bytes :: int
  st_updated :: int
  st_updated_bytes :: int
  st_conflict_files :: int
  st_deleted :: int
  st_skipped :: int
  st_duration :: int
  st_conflicts :: "string list"

definition new_stats :: "string \<Rightarrow> string \<Rightarrow> sync_stats" where
  "new_stats a b = \<lparr>st_source = a, st_destination = b, st_transferred = 0, st_transferred_bytes = 0,
     st_updated = 0, st_updated_bytes = 0, st_conflict_files = 0, st_deleted = 0, st_skipped = 0,
     st_duration = 0, st_conflicts = []\<rparr>"

text \<open>\<^verbatim>\<open>Duration.Round(time.Millisecond)\<close>, in milliseconds, and its text.\<close>

definition round_ms :: "int \<Rightarrow> int" where
  "round_ms d = (if d < 0 then - ((- d + 500000) div 1000000) else (d + 500000) div 1000000)"

definition trim_zeros :: "string \<Rightarrow> string" where
  "trim_zeros s = rev (dropWhile (\<lambda>c. c = CHR ''0'') (rev s))"

definition pad3 :: "nat \<Rightarrow> string" where
  "pad3 n = (let t = nat_text n in replicate (3 - length t) (CHR ''0'') @ t)"

definition seconds_text :: "nat \<Rightarrow> string" where
  "seconds_text ms =
     (let f = trim_zeros (pad3 (ms mod 1000)) in
      nat_text (ms div 1000) @ (if f = '''' then '''' else ''.'' @ f) @ ''s'')"

definition duration_text :: "int \<Rightarrow> string" where
  "duration_text ms =
     (let n = nat \<bar>ms\<bar>;
          t = (if n = 0 then ''0s''
               else if n < 1000 then nat_text n @ ''ms''
               else if n < 60000 then seconds_text n
               else if n < 3600000 then nat_text (n div 60000) @ ''m'' @ seconds_text (n mod 60000)
               else nat_text (n div 3600000) @ ''h'' @ nat_text (n div 60000 mod 60) @ ''m''
                    @ seconds_text (n mod 60000))
      in if ms < 0 then ''-'' @ t else t)"

definition nl :: string where "nl = [CHR 0x0A]"

definition summary_string :: "sync_stats \<Rightarrow> string" where
  "summary_string s =
     ''Sync Summary:'' @ nl @
     ''  Source:       '' @ st_source s @ nl @
     ''  Destination:  '' @ st_destination s @ nl @
     ''  Transferred:  '' @ int_text (st_transferred s) @ '' files ('' @ format_bytes (st_transferred_bytes s) @ '')'' @ nl @
     ''  Updated:      '' @ int_text (st_updated s) @ '' files ('' @ format_bytes (st_updated_bytes s) @ '')'' @ nl @
     ''  Conflicts:    '' @ int_text (st_conflict_files s) @ '' files moved to '' @ default_conflict_dir @ nl @
     ''  Deleted:      '' @ int_text (st_deleted s) @ '' files'' @ nl @
     ''  Skipped:      '' @ int_text (st_skipped s) @ '' files (identical)'' @ nl @
     ''  Duration:     '' @ duration_text (round_ms (st_duration s)) @ nl"

section \<open>Preparation\<close>

text \<open>The guard against a destination inside the source.\<close>

definition recursive_sync :: "'w driver \<Rightarrow> string \<Rightarrow> 'w driver \<Rightarrow> string \<Rightarrow> bool" where
  "recursive_sync sd sp dd dp =
     (case dr_local_root sd of
        Some sr \<Rightarrow>
          (case dr_local_root dd of
             Some dr \<Rightarrow>
               (case path_rel (path_clean (path_join [sr, sp])) (path_clean (path_join [dr, dp])) of
                  Some rel \<Rightarrow> \<not> has_prefix rel ''..''
                | None \<Rightarrow> False)
           | None \<Rightarrow> False)
      | None \<Rightarrow>
          dr_id sd = dr_id dd \<and>
          (dp = sp \<or> dp \<noteq> '''' \<and> (sp = '''' \<or> has_prefix dp (sp @ ''/''))))"

definition strip_base :: "string \<Rightarrow> string \<Rightarrow> string" where
  "strip_base base path =
     (if base \<noteq> '''' \<and> has_prefix path base then trim_prefix (trim_prefix path base) ''/'' else path)"

definition in_conflict_dir :: "string \<Rightarrow> string \<Rightarrow> bool" where
  "in_conflict_dir cdir rel \<longleftrightarrow> has_prefix rel default_conflict_dir \<or> has_prefix rel cdir"

definition dest_path :: "string \<Rightarrow> string \<Rightarrow> string" where
  "dest_path dp rel = (if dp \<noteq> '''' then dp @ ''/'' @ rel else rel)"

text \<open>The relative names a listing contributes, in its order.\<close>

definition relevant :: "string \<Rightarrow> string \<Rightarrow> object_info list \<Rightarrow> (string \<times> object_info) list" where
  "relevant cdir base obs =
     filter (\<lambda>(rel, ob). \<not> in_conflict_dir cdir rel)
       (map (\<lambda>ob. (strip_base base (oi_path ob), ob)) (filter (\<lambda>ob. \<not> oi_isdir ob) obs))"

definition dest_map :: "string \<Rightarrow> string \<Rightarrow> object_info list \<Rightarrow> (string \<times> object_info) list" where
  "dest_map cdir base obs = foldl (\<lambda>m (rel, ob). AList.update rel ob m) [] (relevant cdir base obs)"

record sync_task =
  tk_obj :: object_info
  tk_rel :: string
  tk_dest :: string

definition sync_tasks :: "string \<Rightarrow> string \<Rightarrow> string \<Rightarrow> object_info list \<Rightarrow> sync_task list" where
  "sync_tasks cdir sp dp obs =
     map (\<lambda>(rel, ob). \<lparr>tk_obj = ob, tk_rel = rel, tk_dest = dest_path dp rel\<rparr>) (relevant cdir sp obs)"

section \<open>Workers\<close>

text \<open>
  Where a worker is: at the channel, about to compare, about to back up the destination, about to
  read the source, about to write the destination, or gone.
\<close>

datatype stage =
    Idle
  | Comparing sync_task
  | Backing sync_task
  | Reading sync_task
  | Storing sync_task reader
  | Halted

record pool =
  pl_queue :: "sync_task list"
  pl_stats :: sync_stats
  pl_err :: "go_error option"

text \<open>\<^verbatim>\<open>errOnce.Do\<close>: the first error stays.\<close>

definition first_error :: "go_error \<Rightarrow> pool \<Rightarrow> pool" where
  "first_error e p = (if pl_err p = None then p\<lparr>pl_err := Some e\<rparr> else p)"

definition count_skipped :: "pool \<Rightarrow> pool" where
  "count_skipped p = p\<lparr>pl_stats := (pl_stats p)\<lparr>st_skipped := wrap64 (st_skipped (pl_stats p) + 1)\<rparr>\<rparr>"

definition count_conflict :: "string option \<Rightarrow> pool \<Rightarrow> pool" where
  "count_conflict path p =
     p\<lparr>pl_stats := (pl_stats p)\<lparr>st_conflict_files := wrap64 (st_conflict_files (pl_stats p) + 1),
        st_conflicts := st_conflicts (pl_stats p) @ (case path of None \<Rightarrow> [] | Some x \<Rightarrow> [x])\<rparr>\<rparr>"

definition count_done :: "bool \<Rightarrow> int \<Rightarrow> pool \<Rightarrow> pool" where
  "count_done existed n p =
     (let s = pl_stats p in
      p\<lparr>pl_stats :=
        (if existed
         then s\<lparr>st_updated := wrap64 (st_updated s + 1), st_updated_bytes := wrap64 (st_updated_bytes s + n)\<rparr>
         else s\<lparr>st_transferred := wrap64 (st_transferred s + 1),
                st_transferred_bytes := wrap64 (st_transferred_bytes s + n)\<rparr>)\<rparr>)"

record 'w sync_job =
  jb_env :: "'w sync_env"
  jb_opts :: sync_options
  jb_src :: "'w driver"
  jb_dst :: "'w driver"
  jb_dest :: "(string \<times> object_info) list"

definition jb_mode :: "'w sync_job \<Rightarrow> compare_mode" where
  "jb_mode J = (if sy_checksum (jb_opts J) then CompareModeChecksum else CompareModeSizeModTime)"

definition existing :: "'w sync_job \<Rightarrow> sync_task \<Rightarrow> object_info option" where
  "existing J t = map_of (jb_dest J) (tk_rel t)"

text \<open>What follows the backup of a task, or its absence.\<close>

definition transfer :: "'w sync_job \<Rightarrow> sync_task \<Rightarrow> pool \<Rightarrow> stage \<times> pool" where
  "transfer J t p =
     (if sy_dry_run (jb_opts J) then (Idle, count_done (existing J t \<noteq> None) (oi_size (tk_obj t)) p)
      else (Reading t, p))"

definition compared :: "'w sync_job \<Rightarrow> sync_task \<Rightarrow> diff_status res \<Rightarrow> pool \<Rightarrow> stage \<times> pool" where
  "compared J t r p =
     (case r of
        Inl e \<Rightarrow> (Halted, first_error e p)
      | Inr st \<Rightarrow>
          if st = DiffStatusIdentical then (Idle, count_skipped p)
          else if existing J t \<noteq> None \<and> (st = DiffStatusConflict \<or> st = DiffStatusModified)
                  \<and> \<not> sy_no_backup (jb_opts J)
          then (if sy_dry_run (jb_opts J) then transfer J t (count_conflict None p) else (Backing t, p))
          else transfer J t p)"

text \<open>One move of a worker; the context is the one of the calls this move makes.\<close>

fun worker_move :: "'w sync_job \<Rightarrow> ctx \<Rightarrow> stage \<Rightarrow> pool \<Rightarrow> 'w \<Rightarrow> (stage \<times> pool) \<times> 'w" where
  "worker_move J cx Idle p w =
     (case pl_queue p of
        [] \<Rightarrow> ((Halted, p), w)
      | t # q \<Rightarrow>
          ((if cx 0 \<noteq> None then Halted else Comparing t, p\<lparr>pl_queue := q\<rparr>), w))"
| "worker_move J cx (Comparing t) p w =
     (case compare (se_wide (jb_env J)) (jb_mode J) cx (jb_src J) (tk_obj t) (jb_dst J) (existing J t) w of
        (w1, r) \<Rightarrow> (compared J t r p, w1))"
| "worker_move J cx (Backing t) p w =
     (case backup_conflict (jb_env J) cx (jb_dst J) (tk_dest t) (sy_conflict_dir (jb_opts J)) w of
        (w1, Inl e) \<Rightarrow> ((Halted, first_error e p), w1)
      | (w1, Inr path) \<Rightarrow> (transfer J t (count_conflict (Some path) p), w1))"
| "worker_move J cx (Reading t) p w =
     (case dr_read (jb_src J) cx (oi_path (tk_obj t)) w of
        (w1, Inl e) \<Rightarrow>
          ((Halted, first_error (errorf_w (''failed to read source object '' @ go_quote (oi_path (tk_obj t))) e) p), w1)
      | (w1, Inr rc) \<Rightarrow> ((Storing t rc, p), w1))"
| "worker_move J cx (Storing t rc) p w =
     (case dr_write (jb_dst J) cx (tk_dest t) rc (oi_size (tk_obj t)) w of
        (w1, Inl e) \<Rightarrow>
          ((Halted, first_error (errorf_w (''failed to write destination object '' @ go_quote (tk_dest t)) e) p), w1)
      | (w1, Inr _) \<Rightarrow> ((Idle, count_done (existing J t \<noteq> None) (oi_size (tk_obj t)) p), w1))"
| "worker_move J cx Halted p w = ((Halted, p), w)"

section \<open>The pool\<close>

type_synonym 'w pool_state = "stage list \<times> pool \<times> 'w"

text \<open>A move of some worker, with a context that \<open>C\<close> allows.\<close>

inductive pool_step :: "(ctx \<Rightarrow> bool) \<Rightarrow> 'w sync_job \<Rightarrow> 'w pool_state \<Rightarrow> 'w pool_state \<Rightarrow> bool" for C J where
  move: "i < length ss \<Longrightarrow> ss ! i \<noteq> Halted \<Longrightarrow> C cx \<Longrightarrow> worker_move J cx (ss ! i) p w = ((s1, p1), w1) \<Longrightarrow>
     pool_step C J (ss, p, w) (ss[i := s1], p1, w1)"

definition all_halted :: "stage list \<Rightarrow> bool" where
  "all_halted ss \<longleftrightarrow> list_all (\<lambda>s. s = Halted) ss"

text \<open>
  The run under a schedule: at move \<open>k\<close> the worker \<open>pick k\<close>, modulo the number of workers still
  there, moves with the context \<open>cxs k\<close>.
\<close>

definition running :: "stage list \<Rightarrow> nat list" where
  "running ss = filter (\<lambda>i. ss ! i \<noteq> Halted) [0..<length ss]"

fun run_pool :: "nat \<Rightarrow> (nat \<Rightarrow> nat) \<Rightarrow> (nat \<Rightarrow> ctx) \<Rightarrow> 'w sync_job \<Rightarrow> nat \<Rightarrow> 'w pool_state \<Rightarrow> 'w pool_state" where
  "run_pool 0 pick cxs J k st = st"
| "run_pool (Suc f) pick cxs J k (ss, p, w) =
     (case running ss of
        [] \<Rightarrow> (ss, p, w)
      | l \<Rightarrow>
          (let i = l ! (pick k mod length l) in
           case worker_move J (cxs k) (ss ! i) p w of
             ((s1, p1), w1) \<Rightarrow> run_pool f pick cxs J (Suc k) (ss[i := s1], p1, w1)))"

text \<open>The moves a stage and a queue can still take.\<close>

fun stage_weight :: "stage \<Rightarrow> nat" where
  "stage_weight Idle = 1"
| "stage_weight (Comparing t) = 5"
| "stage_weight (Backing t) = 4"
| "stage_weight (Reading t) = 3"
| "stage_weight (Storing t r) = 2"
| "stage_weight Halted = 0"

definition pool_weight :: "'w pool_state \<Rightarrow> nat" where
  "pool_weight st = (case st of (ss, p, w) \<Rightarrow> 5 * length (pl_queue p) + sum_list (map stage_weight ss))"

section \<open>Sync\<close>

definition worker_count :: "int \<Rightarrow> nat \<Rightarrow> nat" where
  "worker_count n tasks =
     (let w = (if n \<le> 0 then 4 else n); c = (if int tasks < w then int tasks else w)
      in if c \<le> 0 then 1 else nat c)"

text \<open>The removal of what the source does not have; the context is asked before each file.\<close>

fun delete_phase :: "'w sync_job \<Rightarrow> ctx \<Rightarrow> nat \<Rightarrow> string list \<Rightarrow> (string \<times> object_info) list \<Rightarrow> sync_stats \<Rightarrow> 'w
    \<Rightarrow> 'w \<times> sync_stats res" where
  "delete_phase J cx k keep [] s w = (w, Ok s)"
| "delete_phase J cx k keep ((rel, ob) # m) s w =
     (case cx k of
        Some e \<Rightarrow> (w, Err e)
      | None \<Rightarrow>
          let s1 = s\<lparr>st_deleted := wrap64 (st_deleted s + 1)\<rparr> in
          if rel \<in> set keep then delete_phase J cx (Suc k) keep m s w
          else if sy_dry_run (jb_opts J) then delete_phase J cx (Suc k) keep m s1 w
          else (case dr_delete (jb_dst J) cx (oi_path ob) w of
                  (w1, Inl e) \<Rightarrow>
                    (w1, Err (errorf_w (''failed to delete extraneous file '' @ go_quote (oi_path ob)) e))
                | (w1, Inr _) \<Rightarrow> delete_phase J cx (Suc k) keep m s1 w1))"

definition conflict_dir_of :: "sync_options \<Rightarrow> string" where
  "conflict_dir_of opts = (let c0 = trim_slashes (slashed (sy_conflict_dir opts)) in
     if c0 = '''' then default_conflict_dir else c0)"

text \<open>The job and the state the workers start from, given the two listings.\<close>

definition start_job :: "'w sync_env \<Rightarrow> 'w driver \<Rightarrow> 'w driver \<Rightarrow> string \<Rightarrow> sync_options \<Rightarrow> object_info list \<Rightarrow> 'w sync_job" where
  "start_job E sd dd dprefix opts dests =
     \<lparr>jb_env = E, jb_opts = opts, jb_src = sd, jb_dst = dd,
      jb_dest = dest_map (conflict_dir_of opts) (trim_slashes (slashed dprefix)) dests\<rparr>"

definition start_tasks :: "string \<Rightarrow> string \<Rightarrow> sync_options \<Rightarrow> object_info list \<Rightarrow> sync_task list" where
  "start_tasks sprefix dprefix opts srcs =
     sync_tasks (conflict_dir_of opts) (trim_slashes (slashed sprefix)) (trim_slashes (slashed dprefix)) srcs"

definition start_pool :: "'w driver \<Rightarrow> string \<Rightarrow> 'w driver \<Rightarrow> string \<Rightarrow> sync_options \<Rightarrow> object_info list \<Rightarrow> pool" where
  "start_pool sd sprefix dd dprefix opts srcs =
     \<lparr>pl_queue = start_tasks sprefix dprefix opts srcs,
      pl_stats = new_stats (dr_name sd @ '':'' @ sprefix) (dr_name dd @ '':'' @ dprefix), pl_err = None\<rparr>"

definition start_state :: "'w driver \<Rightarrow> string \<Rightarrow> 'w driver \<Rightarrow> string \<Rightarrow> sync_options \<Rightarrow> object_info list \<Rightarrow> 'w \<Rightarrow> 'w pool_state" where
  "start_state sd sprefix dd dprefix opts srcs w =
     (replicate (worker_count (sy_workers opts) (length (start_tasks sprefix dprefix opts srcs))) Idle,
      start_pool sd sprefix dd dprefix opts srcs, w)"

text \<open>A destination that cannot be listed counts as empty.\<close>

definition listed :: "'a list res \<Rightarrow> 'a list" where
  "listed r = (case r of Inl e \<Rightarrow> [] | Inr xs \<Rightarrow> xs)"

text \<open>What follows the workers; \<open>t0\<close> is the time of the start.\<close>

definition sync_finish :: "'w sync_job \<Rightarrow> ctx \<Rightarrow> string list \<Rightarrow> int \<Rightarrow> pool \<Rightarrow> 'w \<Rightarrow> 'w \<times> sync_stats res" where
  "sync_finish J cd keep t0 p w =
     (case pl_err p of
        Some e \<Rightarrow> (w, Err e)
      | None \<Rightarrow>
          (case (if sy_delete (jb_opts J)
                 then delete_phase J cd 0 keep (se_order (jb_env J) (jb_dest J)) (pl_stats p) w
                 else (w, Ok (pl_stats p))) of
             (w1, Inl e) \<Rightarrow> (w1, Err e)
           | (w1, Inr s) \<Rightarrow> (w1, Ok (s\<lparr>st_duration := time_sub (se_now (jb_env J) w1) t0\<rparr>))))"

text \<open>
  \<^verbatim>\<open>Sync\<close>.  The contexts \<open>cl\<close>, \<open>cxs\<close> and \<open>cd\<close> are those of the listings, of the moves of the
  workers and of the removals.
\<close>

definition sync :: "'w sync_env \<Rightarrow> (nat \<Rightarrow> nat) \<Rightarrow> ctx \<Rightarrow> (nat \<Rightarrow> ctx) \<Rightarrow> ctx \<Rightarrow> 'w driver \<Rightarrow> string \<Rightarrow> 'w driver \<Rightarrow> string
    \<Rightarrow> sync_options \<Rightarrow> 'w \<Rightarrow> 'w \<times> sync_stats res" where
  "sync E pick cl cxs cd sd sprefix dd dprefix opts w =
     (if recursive_sync sd (trim_slashes (slashed sprefix)) dd (trim_slashes (slashed dprefix))
      then (w, Err ErrRecursiveSync)
      else (case dr_list sd cl sprefix w of
          (w1, Inl e) \<Rightarrow> (w1, Err (errorf_w ''failed to list source objects'' e))
        | (w1, Inr srcs) \<Rightarrow>
            (case dr_list dd cl dprefix w1 of
               (w2, dres) \<Rightarrow>
                 let J = start_job E sd dd dprefix opts (listed dres);
                     st0 = start_state sd sprefix dd dprefix opts srcs w2
                 in (case run_pool (pool_weight st0) pick cxs J 0 st0 of
                       (_, p1, w3) \<Rightarrow>
                         sync_finish J cd (map tk_rel (start_tasks sprefix dprefix opts srcs)) (se_now E w) p1 w3))))"

end
