(* ===== verification/Sync_Pool.thy ===== *)
theory Sync_Pool
  imports Sync_Engine S3_Server
begin

text \<open>
  What holds of the synchronisation for all drivers and all schedules: the workers come to an end,
  no task is lost without an error or a cancellation, a dry run only reads, a cancelled run still
  reports success.
\<close>

declare background_simp [simp del]

section \<open>Moves and the run\<close>

lemma first_error_simps [simp]:
  "pl_queue (first_error e p) = pl_queue p" "pl_stats (first_error e p) = pl_stats p"
  "pl_err (first_error e p) \<noteq> None"
  by (auto simp: first_error_def)

lemma count_simps [simp]:
  "pl_queue (count_skipped p) = pl_queue p" "pl_err (count_skipped p) = pl_err p"
  "pl_queue (count_conflict x p) = pl_queue p" "pl_err (count_conflict x p) = pl_err p"
  "pl_queue (count_done b n p) = pl_queue p" "pl_err (count_done b n p) = pl_err p"
  by (simp_all add: count_skipped_def count_conflict_def count_done_def Let_def)

lemma transfer_cases:
  obtains "transfer J t p = (Reading t, p)" "\<not> sy_dry_run (jb_opts J)"
  | "transfer J t p = (Idle, count_done (existing J t \<noteq> None) (oi_size (tk_obj t)) p)" "sy_dry_run (jb_opts J)"
  by (cases "sy_dry_run (jb_opts J)") (auto simp: transfer_def)

text \<open>What a comparison leads to: an error, nothing, a backup, or the transfer.\<close>

lemma compared_disj:
  "(\<exists>e. r = Inl e \<and> compared J t r p = (Halted, first_error e p)) \<or>
   (r = Inr DiffStatusIdentical \<and> compared J t r p = (Idle, count_skipped p)) \<or>
   (compared J t r p = (Backing t, p) \<and> \<not> sy_dry_run (jb_opts J) \<and> \<not> sy_no_backup (jb_opts J) \<and> existing J t \<noteq> None) \<or>
   (compared J t r p = transfer J t (count_conflict None p) \<and> sy_dry_run (jb_opts J) \<and> existing J t \<noteq> None) \<or>
   (compared J t r p = transfer J t p)"
  by (cases r) (auto simp: compared_def)

lemma transfer_weight: "transfer J t p = (s1, p1) \<Longrightarrow> stage_weight s1 \<le> 3 \<and> pl_queue p1 = pl_queue p"
  by (auto simp: transfer_def split: if_splits)

lemma worker_move_weight:
  assumes "worker_move J cx s p w = ((s1, p1), w1)" "s \<noteq> Halted"
  shows "stage_weight s1 + 5 * length (pl_queue p1) < stage_weight s + 5 * length (pl_queue p)"
proof (cases s)
  case Idle
  then show ?thesis using assms by (auto split: list.splits if_splits)
next
  case (Comparing t)
  then obtain r where "compared J t r p = (s1, p1)" using assms by (auto split: prod.splits)
  then show ?thesis
    using compared_disj [of r J t p] transfer_weight [of J t p s1 p1] transfer_weight [of J t "count_conflict None p" s1 p1]
      Comparing by auto
next
  case (Backing t)
  obtain w2 r where b: "backup_conflict (jb_env J) cx (jb_dst J) (tk_dest t) (sy_conflict_dir (jb_opts J)) w = (w2, r)"
    by force
  show ?thesis
  proof (cases r)
    case (Inl e)
    then show ?thesis using assms Backing b by auto
  next
    case (Inr path)
    then have "transfer J t (count_conflict (Some path) p) = (s1, p1)" using assms(1) Backing b by auto
    then show ?thesis using transfer_weight [of J t "count_conflict (Some path) p" s1 p1] Backing by simp
  qed
next
  case (Reading t)
  then show ?thesis using assms by (auto split: prod.splits sum.splits)
next
  case (Storing t r)
  then show ?thesis using assms by (auto split: prod.splits sum.splits)
qed (use assms in simp)

lemma sum_list_set:
  "i < length ss \<Longrightarrow> sum_list (map f (ss[i := x])) + f (ss ! i) = sum_list (map f ss) + (f x :: nat)"
proof (induction ss arbitrary: i)
  case (Cons a ss)
  then show ?case by (cases i) auto
qed simp

lemma pool_step_weight: "pool_step C J st st' \<Longrightarrow> pool_weight st' < pool_weight st"
proof (induction rule: pool_step.induct)
  case (move i ss cx p w s1 p1 w1)
  then show ?case
    using worker_move_weight [OF move(4,2)] sum_list_set [OF move(1), of stage_weight s1] by (simp add: pool_weight_def)
qed

lemma running_Nil: "running ss = [] \<longleftrightarrow> all_halted ss"
  by (auto simp: running_def all_halted_def filter_empty_conv list_all_length)

lemma running_nth: "i \<in> set (running ss) \<Longrightarrow> i < length ss \<and> ss ! i \<noteq> Halted"
  by (auto simp: running_def)

text \<open>One round of the run is a step of the relation.\<close>

lemma run_pool_round:
  assumes "\<not> all_halted ss" "C (cxs k)"
  obtains st where "pool_step C J (ss, p, w) st" "run_pool (Suc f) pick cxs J k (ss, p, w) = run_pool f pick cxs J (Suc k) st"
proof -
  obtain x l where l: "running ss = x # l" using assms(1) running_Nil [of ss] by (cases "running ss") auto
  let ?i = "running ss ! (pick k mod length (running ss))"
  have "?i \<in> set (running ss)" using l by (intro nth_mem) simp
  then have i: "?i < length ss" "ss ! ?i \<noteq> Halted" using running_nth by blast+
  obtain s1 p1 w1 where m: "worker_move J (cxs k) (ss ! ?i) p w = ((s1, p1), w1)"
    by (cases "worker_move J (cxs k) (ss ! ?i) p w") auto
  show ?thesis
  proof (rule that)
    show "pool_step C J (ss, p, w) (ss[?i := s1], p1, w1)"
      by (rule pool_step.move [where cx = "cxs k"]) (use i assms(2) m in simp_all)
    show "run_pool (Suc f) pick cxs J k (ss, p, w) = run_pool f pick cxs J (Suc k) (ss[?i := s1], p1, w1)"
      using l m by (simp add: Let_def)
  qed
qed

lemma run_pool_halted: "all_halted ss \<Longrightarrow> run_pool f pick cxs J k (ss, p, w) = (ss, p, w)"
  using running_Nil [of ss] by (cases f) simp_all

text \<open>Enough fuel: every worker is gone; and what the run does is a sequence of steps.\<close>

lemma run_pool_spec:
  assumes "pool_weight st \<le> f" "\<forall>i. C (cxs i)"
  shows "all_halted (fst (run_pool f pick cxs J k st)) \<and> (pool_step C J)\<^sup>*\<^sup>* st (run_pool f pick cxs J k st)"
  using assms(1)
proof (induction f arbitrary: k st)
  case 0
  obtain ss p w where st: "st = (ss, p, w)" by (cases st)
  have "\<forall>s \<in> set ss. stage_weight s = 0" using 0 by (simp add: st pool_weight_def)
  then have "all_halted ss" unfolding all_halted_def list_all_iff
    by (metis stage.exhaust stage_weight.simps zero_neq_one zero_neq_numeral)
  then show ?case by (simp add: st)
next
  case (Suc f)
  obtain ss p w where st: "st = (ss, p, w)" by (cases st)
  show ?case
  proof (cases "all_halted ss")
    case True
    then show ?thesis by (simp only: st run_pool_halted) simp
  next
    case False
    have ck: "C (cxs k)" using assms(2) by blast
    obtain st1 where 1: "pool_step C J (ss, p, w) st1"
      "run_pool (Suc f) pick cxs J k (ss, p, w) = run_pool f pick cxs J (Suc k) st1"
      by (rule run_pool_round [where C = C and cxs = cxs and k = k, OF False ck])
    have "pool_weight st1 \<le> f" using pool_step_weight [OF 1(1)] Suc.prems st by simp
    then have ih: "all_halted (fst (run_pool f pick cxs J (Suc k) st1))"
      "(pool_step C J)\<^sup>*\<^sup>* st1 (run_pool f pick cxs J (Suc k) st1)" using Suc.IH [of st1 "Suc k"] by simp_all
    show ?thesis unfolding st 1(2) using ih(1) converse_rtranclp_into_rtranclp [OF 1(1) ih(2)] by simp
  qed
qed

section \<open>Accounting\<close>

fun task_count :: "stage \<Rightarrow> nat" where
  "task_count Idle = 0"
| "task_count Halted = 0"
| "task_count s = 1"

definition done_count :: "pool \<Rightarrow> int" where
  "done_count p = st_skipped (pl_stats p) + st_updated (pl_stats p) + st_transferred (pl_stats p)"

definition counters_ok :: "pool \<Rightarrow> bool" where
  "counters_ok p \<longleftrightarrow> 0 \<le> st_skipped (pl_stats p) \<and> 0 \<le> st_updated (pl_stats p) \<and> 0 \<le> st_transferred (pl_stats p)"

lemma first_error_counts [simp]:
  "done_count (first_error e p) = done_count p" "counters_ok (first_error e p) = counters_ok p"
  by (simp_all add: done_count_def counters_ok_def)

lemma count_conflict_counts [simp]:
  "done_count (count_conflict x p) = done_count p" "counters_ok (count_conflict x p) = counters_ok p"
  by (simp_all add: done_count_def counters_ok_def count_conflict_def)

lemma wrap64_Suc: "0 \<le> x \<Longrightarrow> x + 1 < 2 ^ 63 \<Longrightarrow> wrap64 (x + 1) = x + 1"
  by (rule wrap64_id) simp_all

lemma count_skipped_counts:
  "counters_ok p \<Longrightarrow> done_count p + 1 < 2 ^ 63 \<Longrightarrow>
     counters_ok (count_skipped p) \<and> done_count (count_skipped p) = done_count p + 1"
  by (simp add: done_count_def counters_ok_def count_skipped_def wrap64_Suc)

lemma count_done_counts:
  "counters_ok p \<Longrightarrow> done_count p + 1 < 2 ^ 63 \<Longrightarrow>
     counters_ok (count_done b n p) \<and> done_count (count_done b n p) = done_count p + 1"
  by (simp add: done_count_def counters_ok_def count_done_def wrap64_Suc Let_def)

text \<open>A task stays with its worker, is counted, or is lost to an error.\<close>

definition settled :: "pool \<Rightarrow> stage \<times> pool \<Rightarrow> bool" where
  "settled p r \<longleftrightarrow> counters_ok (snd r) \<and>
     (pl_err (snd r) = pl_err p \<and> done_count (snd r) + int (task_count (fst r)) = done_count p + 1 \<or>
      pl_err (snd r) \<noteq> None \<and> done_count (snd r) + int (task_count (fst r)) \<le> done_count p)
     \<and> pl_queue (snd r) = pl_queue p"

lemma transfer_settled: "counters_ok p \<Longrightarrow> done_count p + 1 < 2 ^ 63 \<Longrightarrow> settled p (transfer J t p)"
  by (auto simp: settled_def transfer_def count_done_counts)

lemma settled_conflict: "settled (count_conflict x p) r \<Longrightarrow> settled p r"
  by (simp add: settled_def)

lemma compared_settled:
  assumes "counters_ok p" "done_count p + 1 < 2 ^ 63"
  shows "settled p (compared J t r p)"
proof -
  have "settled p (Halted, first_error e p)" for e using assms(1) by (simp add: settled_def)
  moreover have "settled p (Idle, count_skipped p)" using count_skipped_counts [OF assms] by (simp add: settled_def)
  moreover have "settled p (Backing t, p)" using assms(1) by (simp add: settled_def)
  moreover have "settled p (transfer J t p)" by (rule transfer_settled [OF assms])
  moreover have "settled p (transfer J t (count_conflict None p))"
    by (rule settled_conflict [of None], rule transfer_settled) (use assms in simp_all)
  ultimately show ?thesis using compared_disj [of r J t p] by metis
qed

lemma worker_move_settled:
  assumes "worker_move J cx s p w = ((s1, p1), w1)" "task_count s = 1"
    and "counters_ok p" "done_count p + 1 < 2 ^ 63"
  shows "settled p (s1, p1)"
proof (cases s)
  case (Comparing t)
  then obtain r where "compared J t r p = (s1, p1)" using assms(1) by (auto split: prod.splits)
  then show ?thesis using compared_settled [OF assms(3,4)] by metis
next
  case (Backing t)
  obtain w2 r where b: "backup_conflict (jb_env J) cx (jb_dst J) (tk_dest t) (sy_conflict_dir (jb_opts J)) w = (w2, r)"
    by force
  show ?thesis
  proof (cases r)
    case (Inl e)
    then show ?thesis using assms Backing b by (auto simp: settled_def)
  next
    case (Inr path)
    then have "transfer J t (count_conflict (Some path) p) = (s1, p1)" using assms(1) Backing b by auto
    then show ?thesis
      using settled_conflict [OF transfer_settled, of "Some path" p J t] assms(3,4) by simp
  qed
next
  case (Reading t)
  then show ?thesis using assms by (auto simp: settled_def split: prod.splits sum.splits)
next
  case (Storing t r)
  then show ?thesis using assms count_done_counts [OF assms(3,4)]
    by (auto simp: settled_def split: prod.splits sum.splits)
qed (use assms in simp_all)

definition accounted :: "nat \<Rightarrow> 'w pool_state \<Rightarrow> bool" where
  "accounted N st \<longleftrightarrow> (case st of (ss, p, w) \<Rightarrow>
     counters_ok p \<and>
     done_count p + int (length (pl_queue p)) + int (sum_list (map task_count ss)) \<le> int N \<and>
     (pl_err p = None \<longrightarrow>
        done_count p + int (length (pl_queue p)) + int (sum_list (map task_count ss)) = int N))"

lemma sum_list_ge: "i < length ss \<Longrightarrow> f (ss ! i) \<le> sum_list (map f ss)" for f :: "'a \<Rightarrow> nat"
  by (metis elem_le_sum_list length_map nth_map)

lemma pool_step_accounted:
  assumes "pool_step (\<lambda>cx. cx 0 = None) J st st'" "accounted N st" "int N < 2 ^ 63"
  shows "accounted N st'"
  using assms
proof (induction rule: pool_step.induct)
  case (move i ss cx p w s1 p1 w1)
  let ?q = "int (length (pl_queue p))" and ?h = "int (sum_list (map task_count ss))"
  have h: "sum_list (map task_count (ss[i := s1])) + task_count (ss ! i) = sum_list (map task_count ss) + task_count s1"
    using sum_list_set [OF move(1)] .
  have ge: "task_count (ss ! i) \<le> sum_list (map task_count ss)" by (rule sum_list_ge [OF move(1)])
  have ok: "counters_ok p" and le: "done_count p + ?q + ?h \<le> int N"
    and eq: "pl_err p = None \<longrightarrow> done_count p + ?q + ?h = int N"
    using move(5) by (auto simp: accounted_def)
  show ?case
  proof (cases "task_count (ss ! i) = 1")
    case True
    then have "done_count p + 1 < 2 ^ 63" using le ge move(6) by linarith
    then have st: "settled p (s1, p1)" using worker_move_settled [OF move(4) True ok] by blast
    then have q: "pl_queue p1 = pl_queue p" by (simp add: settled_def)
    let ?d1 = "done_count p1 + ?q + int (sum_list (map task_count (ss[i := s1])))"
    have "?d1 \<le> int N" "pl_err p1 = None \<longrightarrow> ?d1 = int N"
      using st h le eq True unfolding settled_def by auto
    then show ?thesis using st q unfolding accounted_def settled_def by simp
  next
    case False
    then have "ss ! i = Idle" using move(2) by (cases "ss ! i") auto
    then show ?thesis using move(3,4) h ok le eq
      by (auto simp: accounted_def done_count_def counters_ok_def split: list.splits)
  qed
qed

lemma pool_steps_accounted:
  assumes "(pool_step (\<lambda>cx. cx 0 = None) J)\<^sup>*\<^sup>* st st'" "accounted N st" "int N < 2 ^ 63"
  shows "accounted N st'"
  using assms(1,2) by (induction rule: rtranclp_induct) (use pool_step_accounted [OF _ _ assms(3)] in blast)+

text \<open>Without an error or a cancellation a worker leaves only when the channel is empty.\<close>

definition drained :: "'w pool_state \<Rightarrow> bool" where
  "drained st \<longleftrightarrow> (case st of (ss, p, w) \<Rightarrow> Halted \<in> set ss \<and> pl_err p = None \<longrightarrow> pl_queue p = [])"

lemma transfer_not_halted: "transfer J t p = (s1, p1) \<Longrightarrow> s1 \<noteq> Halted \<and> pl_err p1 = pl_err p \<and> pl_queue p1 = pl_queue p"
  by (auto simp: transfer_def split: if_splits)

lemma worker_move_halts:
  assumes "worker_move J cx s p w = ((s1, p1), w1)" "cx 0 = None" "s \<noteq> Halted" "pl_err p1 = None"
  shows "pl_err p = None \<and> (pl_queue p = [] \<longrightarrow> pl_queue p1 = []) \<and> (s1 = Halted \<longrightarrow> pl_queue p1 = [])"
proof (cases s)
  case Idle
  then show ?thesis using assms by (auto split: list.splits)
next
  case (Comparing t)
  then obtain r where "compared J t r p = (s1, p1)" using assms(1) by (auto split: prod.splits)
  then show ?thesis using compared_disj [of r J t p] assms(4)
      transfer_not_halted [of J t p s1 p1] transfer_not_halted [of J t "count_conflict None p" s1 p1]
    by auto
next
  case (Backing t)
  obtain w2 r where b: "backup_conflict (jb_env J) cx (jb_dst J) (tk_dest t) (sy_conflict_dir (jb_opts J)) w = (w2, r)"
    by force
  show ?thesis
  proof (cases r)
    case (Inl e)
    then show ?thesis using assms Backing b by (auto simp: first_error_def split: if_splits)
  next
    case (Inr path)
    then have "transfer J t (count_conflict (Some path) p) = (s1, p1)" using assms(1) Backing b by auto
    then show ?thesis using transfer_not_halted [of J t "count_conflict (Some path) p" s1 p1] assms(4) by auto
  qed
next
  case (Reading t)
  then show ?thesis using assms by (auto simp: first_error_def split: prod.splits sum.splits if_splits)
next
  case (Storing t r)
  then show ?thesis using assms by (auto simp: first_error_def split: prod.splits sum.splits if_splits)
qed (use assms in simp)

lemma pool_step_drained:
  assumes "pool_step (\<lambda>cx. cx 0 = None) J st st'" "drained st"
  shows "drained st'"
  using assms
proof (induction rule: pool_step.induct)
  case (move i ss cx p w s1 p1 w1)
  show ?case unfolding drained_def prod.case
  proof
    assume h: "Halted \<in> set (ss[i := s1]) \<and> pl_err p1 = None"
    then have "Halted \<in> set ss \<or> s1 = Halted" using set_update_subset_insert [of ss i s1] by auto
    then show "pl_queue p1 = []"
      using worker_move_halts [OF move(4,3,2)] h move(5) by (auto simp: drained_def)
  qed
qed

lemma pool_steps_drained:
  "(pool_step (\<lambda>cx. cx 0 = None) J)\<^sup>*\<^sup>* st st' \<Longrightarrow> drained st \<Longrightarrow> drained st'"
  by (induction rule: rtranclp_induct) (use pool_step_drained in blast)+

lemma pool_step_length: "pool_step C J st st' \<Longrightarrow> length (fst st') = length (fst st)"
  by (induction rule: pool_step.induct) simp

lemma pool_steps_length: "(pool_step C J)\<^sup>*\<^sup>* st st' \<Longrightarrow> length (fst st') = length (fst st)"
  by (induction rule: rtranclp_induct) (use pool_step_length in metis)+

lemma worker_count_pos: "0 < worker_count n m"
  by (auto simp: worker_count_def Let_def)

section \<open>Runs of Sync\<close>

lemma sync_run:
  assumes "\<not> recursive_sync sd (trim_slashes (slashed sprefix)) dd (trim_slashes (slashed dprefix))"
    and "dr_list sd cl sprefix w = (w1, Ok srcs)" "dr_list dd cl dprefix w1 = (w2, dres)"
    and "run_pool (pool_weight (start_state sd sprefix dd dprefix opts srcs w2)) pick cxs
      (start_job E sd dd dprefix opts (listed dres)) 0 (start_state sd sprefix dd dprefix opts srcs w2) = (ss, p1, w3)"
  shows "sync E pick cl cxs cd sd sprefix dd dprefix opts w =
    sync_finish (start_job E sd dd dprefix opts (listed dres)) cd
      (map tk_rel (start_tasks sprefix dprefix opts srcs)) (se_now E w) p1 w3"
  using assms by (simp add: sync_def Let_def)

lemma start_drained: "drained (start_state sd sprefix dd dprefix opts srcs w)"
  by (simp add: drained_def start_state_def)

lemma start_accounted:
  "accounted (length (start_tasks sprefix dprefix opts srcs)) (start_state sd sprefix dd dprefix opts srcs w)"
  by (simp add: accounted_def start_state_def start_pool_def counters_ok_def done_count_def new_stats_def sum_list_replicate)

lemma delete_phase_counts:
  assumes "delete_phase J cx k keep m s w = (w1, Ok s1)"
  shows "st_skipped s1 = st_skipped s \<and> st_updated s1 = st_updated s \<and> st_transferred s1 = st_transferred s"
  using assms
proof (induction m arbitrary: k s w)
  case (Cons x m)
  obtain rel ob where x: "x = (rel, ob)" by (cases x)
  have "cx k = None" using Cons.prems x by (cases "cx k") auto
  moreover obtain w2 r where "dr_delete (jb_dst J) cx (oi_path ob) w = (w2, r)" by force
  ultimately show ?case using Cons.prems Cons.IH [of "Suc k"] x
    by (cases r) (auto simp: Let_def split: if_splits dest!: Cons.IH)
qed simp

lemma sync_finish_Ok:
  assumes "sync_finish J cd keep t0 p w = (w1, Ok s)"
  shows "pl_err p = None" "st_skipped s = st_skipped (pl_stats p)" "st_updated s = st_updated (pl_stats p)"
    "st_transferred s = st_transferred (pl_stats p)"
proof -
  show e: "pl_err p = None" using assms by (auto simp: sync_finish_def split: option.splits)
  obtain w2 s2 where 2: "(if sy_delete (jb_opts J)
      then delete_phase J cd 0 keep (se_order (jb_env J) (jb_dest J)) (pl_stats p) w
      else (w, Ok (pl_stats p))) = (w2, Ok s2)" "s = s2\<lparr>st_duration := time_sub (se_now (jb_env J) w2) t0\<rparr>"
    using assms e by (auto simp: sync_finish_def split: prod.splits sum.splits)
  then have "st_skipped s2 = st_skipped (pl_stats p) \<and> st_updated s2 = st_updated (pl_stats p)
      \<and> st_transferred s2 = st_transferred (pl_stats p)"
    using delete_phase_counts [of J cd 0 keep "se_order (jb_env J) (jb_dest J)" "pl_stats p" w w2 s2]
    by (cases "sy_delete (jb_opts J)") simp_all
  then show "st_skipped s = st_skipped (pl_stats p)" "st_updated s = st_updated (pl_stats p)"
    "st_transferred s = st_transferred (pl_stats p)" using 2(2) by simp_all
qed

lemma all_halted_no_tasks: "all_halted ss \<Longrightarrow> sum_list (map task_count ss) = 0"
  unfolding all_halted_def by (induction ss) auto

lemma relevant_length: "length (relevant cdir base obs) \<le> length obs"
proof -
  have "length (relevant cdir base obs) \<le> length (filter (\<lambda>ob. \<not> oi_isdir ob) obs)"
    unfolding relevant_def by (rule order_trans [OF length_filter_le]) simp
  then show ?thesis using length_filter_le order_trans by blast
qed

section \<open>A small world\<close>

text \<open>Two buckets of one server, for the witnesses: \<open>a\<close> holds three objects, \<open>b\<close> two.\<close>

definition bucket_driver :: "string \<Rightarrow> nat \<Rightarrow> s3_server driver" where
  "bucket_driver b i = s3_driver (s3_new_with_client (server_client (\<lambda>_. '''') 0) b []) i"

definition two_buckets :: s3_server where
  "two_buckets = new_s3_server\<lparr>sv_buckets := [(''a'', [(''x'', [1, 2]), (''y'', [7]), (''z'', [5])]), (''b'', [(''y'', [8, 9]), (''z'', [6])])]\<rparr>"

definition bucket_env :: "s3_server sync_env" where
  "bucket_env = \<lparr>se_os = (\<lambda>_. empty_fs), se_put_os = (\<lambda>_ w. w), se_now = (\<lambda>_. 0), se_stamp = (\<lambda>_. ''20260101T000000Z''),
     se_wide = 0, se_order = (\<lambda>m. m)\<rparr>"

definition plain_opts :: sync_options where
  "plain_opts = \<lparr>sy_checksum = False, sy_delete = False, sy_dry_run = False, sy_conflict_dir = '''',
     sy_no_backup = False, sy_exclude = [], sy_include = [], sy_workers = 2\<rparr>"

section \<open>Properties\<close>

text \<open>C14: The workers of a synchronisation come to an end under every schedule, with every driver and
  every context: no infinite sequence of moves exists, and the bound of the run is enough for all
  workers to be gone.
\<close>

theorem sync_pool_terminates:
  "wfp (\<lambda>st' st. pool_step C J st st') \<and> all_halted (fst (run_pool (pool_weight st) pick cxs J k st))"
proof
  show "wfp (\<lambda>st' st. pool_step C J st st')"
    by (rule wfp_if_convertible_to_nat [where f = pool_weight]) (rule pool_step_weight)
  show "all_halted (fst (run_pool (pool_weight st) pick cxs J k st))"
    using run_pool_spec [OF order_refl, where cxs = cxs and C = "\<lambda>_. True" and st = st and pick = pick and J = J and k = k] by simp
qed

text \<open>C15: When no worker sees its context cancelled, a synchronisation that reports success has dealt
  with every file of the source outside the conflict directory exactly once, whatever the drivers do
  and however the workers interleave: the skipped, updated and transferred files add up to them.
\<close>

theorem sync_accounts_for_all:
  assumes "dr_list sd cl sprefix w = (w1, Ok srcs)" "\<forall>k. cxs k 0 = None" "int (length srcs) < 2 ^ 63"
    and "sync E pick cl cxs cd sd sprefix dd dprefix opts w = (w', Ok s)"
  shows "st_skipped s + st_updated s + st_transferred s
    = int (length (relevant (conflict_dir_of opts) (trim_slashes (slashed sprefix)) srcs))"
proof -
  let ?sp = "trim_slashes (slashed sprefix)" and ?dp = "trim_slashes (slashed dprefix)"
  let ?N = "length (start_tasks sprefix dprefix opts srcs)"
  have nr: "\<not> recursive_sync sd ?sp dd ?dp" using assms(4) by (auto simp: sync_def)
  obtain w2 dres where 2: "dr_list dd cl dprefix w1 = (w2, dres)" by force
  let ?J = "start_job E sd dd dprefix opts (listed dres)" and ?st = "start_state sd sprefix dd dprefix opts srcs w2"
  obtain ss p1 w3 where r: "run_pool (pool_weight ?st) pick cxs ?J 0 ?st = (ss, p1, w3)"
    by (rule prod_cases3)
  note fin = sync_finish_Ok [OF sync_run [OF nr assms(1) 2 r, of cd, unfolded assms(4), symmetric]]
  have sp: "all_halted ss" "(pool_step (\<lambda>cx. cx 0 = None) ?J)\<^sup>*\<^sup>* ?st (ss, p1, w3)"
    using run_pool_spec [OF order_refl, where cxs = cxs and C = "\<lambda>cx. cx 0 = None" and st = ?st and pick = pick and J = ?J and k = 0]
      assms(2) unfolding r by simp_all
  have N: "?N = length (relevant (conflict_dir_of opts) ?sp srcs)" by (simp add: start_tasks_def sync_tasks_def)
  also have "\<dots> \<le> length srcs" by (rule relevant_length)
  finally have "int ?N \<le> int (length srcs)" by (simp only: of_nat_le_iff)
  then have "int ?N < 2 ^ 63" by (rule le_less_trans [OF _ assms(3)])
  then have ac: "accounted ?N (ss, p1, w3)" using pool_steps_accounted [OF sp(2) start_accounted] by blast
  have "drained (ss, p1, w3)" by (rule pool_steps_drained [OF sp(2) start_drained])
  moreover have "length ss = length (fst ?st)" using pool_steps_length [OF sp(2)] by simp
  then have "ss \<noteq> []"
    using worker_count_pos [of "sy_workers opts" "length (start_tasks sprefix dprefix opts srcs)"] by (auto simp: start_state_def)
  then have "Halted \<in> set ss" using sp(1) by (cases ss) (auto simp: all_halted_def)
  ultimately have "pl_queue p1 = []" using fin(1) by (simp add: drained_def)
  then have "done_count p1 = int ?N" using ac fin(1) all_halted_no_tasks [OF sp(1)] by (simp add: accounted_def)
  then show ?thesis using N fin(2-4) by (simp add: done_count_def)
qed

lemma sync_accounts_for_all_witness:
  "\<exists>w' s. sync bucket_env (\<lambda>k. k) background (\<lambda>_. background) background (bucket_driver ''a'' 0) '''' (bucket_driver ''b'' 1) '''' plain_opts two_buckets = (w', Ok s)
    \<and> st_skipped s + st_updated s + st_transferred s = 3"
proof -
  let ?a = "bucket_driver ''a'' 0" and ?b = "bucket_driver ''b'' 1"
  let ?r = "sync bucket_env (\<lambda>k. k) background (\<lambda>_. background) background ?a '''' ?b '''' plain_opts two_buckets"
  have "isl (snd ?r) = False" by code_simp
  then obtain w' s where r: "?r = (w', Ok s)" by (cases ?r, cases "snd ?r") auto
  have "isl (snd (dr_list ?a background '''' two_buckets)) = False" by code_simp
  then obtain w1 srcs where l: "dr_list ?a background '''' two_buckets = (w1, Ok srcs)"
    by (cases "dr_list ?a background '''' two_buckets", cases "snd (dr_list ?a background '''' two_buckets)") auto
  have "length (projr (snd (dr_list ?a background '''' two_buckets))) = 3 \<and>
    length (relevant (conflict_dir_of plain_opts) (trim_slashes (slashed '''')) (projr (snd (dr_list ?a background '''' two_buckets)))) = 3"
    by code_simp
  then have n: "length srcs = 3" "length (relevant (conflict_dir_of plain_opts) (trim_slashes (slashed '''')) srcs) = 3"
    using l by simp_all
  have "st_skipped s + st_updated s + st_transferred s = int (length (relevant (conflict_dir_of plain_opts) (trim_slashes (slashed '''')) srcs))"
    by (rule sync_accounts_for_all [OF l _ _ r]) (simp_all add: background_def n(1))
  then show ?thesis using n(2) r by auto
qed

lemma pool_steps_untouched:
  assumes "(pool_step (\<lambda>cx. cx 0 \<noteq> None) J)\<^sup>*\<^sup>* st st'"
    and "set (fst st) \<subseteq> {Idle, Halted}"
  shows "set (fst st') \<subseteq> {Idle, Halted} \<and> pl_stats (fst (snd st')) = pl_stats (fst (snd st))
    \<and> pl_err (fst (snd st')) = pl_err (fst (snd st)) \<and> snd (snd st') = snd (snd st)"
  using assms
proof (induction rule: rtranclp_induct)
  case (step b c)
  from step(2) step(3) [OF step(4)] show ?case
  proof (induction rule: pool_step.induct)
    case (move i ss cx p w s1 p1 w1)
    have "ss ! i \<in> {Idle, Halted}" using nth_mem [OF move(1)] move(5) by auto
    then have "ss ! i = Idle" using move(2) by simp
    then have "s1 = Halted \<and> pl_stats p1 = pl_stats p \<and> pl_err p1 = pl_err p \<and> w1 = w"
      using move(3,4) by (auto split: list.splits)
    then show ?case using move(5) set_update_subset_insert [of ss i s1] by auto
  qed
qed simp

text \<open>C37: A context that is cancelled after the listings and before the first transfer makes the
  synchronisation report success, without having transferred, updated or skipped a single file.
\<close>

theorem sync_cancelled_reports_success:
  assumes "\<not> recursive_sync sd (trim_slashes (slashed sprefix)) dd (trim_slashes (slashed dprefix))"
    and "dr_list sd cl sprefix w = (w1, Ok srcs)" "dr_list dd cl dprefix w1 = (w2, dres)"
    and "\<forall>k. cxs k 0 \<noteq> None" "\<not> sy_delete opts"
  shows "\<exists>s. sync E pick cl cxs cd sd sprefix dd dprefix opts w = (w2, Ok s)
    \<and> st_skipped s = 0 \<and> st_updated s = 0 \<and> st_transferred s = 0"
proof -
  let ?J = "start_job E sd dd dprefix opts (listed dres)" and ?st = "start_state sd sprefix dd dprefix opts srcs w2"
  obtain ss p1 w3 where r: "run_pool (pool_weight ?st) pick cxs ?J 0 ?st = (ss, p1, w3)"
    by (rule prod_cases3)
  have "(pool_step (\<lambda>cx. cx 0 \<noteq> None) ?J)\<^sup>*\<^sup>* ?st (ss, p1, w3)"
    using run_pool_spec [OF order_refl, where cxs = cxs and C = "\<lambda>cx. cx 0 \<noteq> None" and st = ?st and pick = pick and J = ?J and k = 0]
      assms(4) unfolding r by simp
  moreover have "set (fst ?st) \<subseteq> {Idle, Halted}" by (auto simp: start_state_def)
  ultimately have "pl_stats p1 = pl_stats (start_pool sd sprefix dd dprefix opts srcs)" "pl_err p1 = None" "w3 = w2"
    using pool_steps_untouched [of ?J ?st "(ss, p1, w3)"] by (simp_all add: start_state_def start_pool_def)
  then show ?thesis using sync_run [OF assms(1-3) r, of cd] assms(5)
    by (auto simp: sync_finish_def start_pool_def new_stats_def start_job_def)
qed

lemma sync_cancelled_reports_success_witness:
  "\<exists>w' s. sync bucket_env (\<lambda>k. k) background (\<lambda>_ _. Some ErrCanceled) background (bucket_driver ''a'' 0) '''' (bucket_driver ''b'' 1) '''' plain_opts two_buckets = (w', Ok s)
    \<and> st_skipped s = 0 \<and> st_updated s = 0 \<and> st_transferred s = 0"
proof -
  let ?a = "bucket_driver ''a'' 0" and ?b = "bucket_driver ''b'' 1"
  have nr: "\<not> recursive_sync ?a (trim_slashes (slashed '''')) ?b (trim_slashes (slashed ''''))" by code_simp
  have "isl (snd (dr_list ?a background '''' two_buckets)) = False" by code_simp
  then obtain w1 srcs where l: "dr_list ?a background '''' two_buckets = (w1, Ok srcs)"
    by (cases "dr_list ?a background '''' two_buckets", cases "snd (dr_list ?a background '''' two_buckets)") auto
  obtain w2 dres where 2: "dr_list ?b background '''' w1 = (w2, dres)" by force
  show ?thesis
    using sync_cancelled_reports_success [OF nr l 2, of "\<lambda>_ _. Some ErrCanceled" plain_opts bucket_env "\<lambda>k. k" background]
    by (auto simp: plain_opts_def)
qed

section \<open>Dry runs\<close>

text \<open>A relation between worlds that the reads of both drivers keep.\<close>

definition reads_keep :: "('w \<Rightarrow> 'w \<Rightarrow> bool) \<Rightarrow> 'w driver \<Rightarrow> bool" where
  "reads_keep R D \<longleftrightarrow> (\<forall>cx p w. R w (fst (dr_read D cx p w)) \<and> R w (fst (dr_list D cx p w)))"

lemma compute_sha256_keeps: "reads_keep R D \<Longrightarrow> R w (fst (compute_sha256 cx D p w))"
proof -
  assume k: "reads_keep R D"
  obtain w1 r where r: "dr_read D cx p w = (w1, r)" by force
  then have "R w w1" using k unfolding reads_keep_def by (metis fst_conv)
  then show ?thesis using r by (cases r) (simp_all add: compute_sha256_def)
qed

lemma compare_keeps:
  assumes "reflp R" "transp R" "reads_keep R sd" "reads_keep R dd"
  shows "R w (fst (compare wide mode cx sd s dd d w))"
proof -
  obtain w1 a where a: "compute_sha256 cx sd (oi_path s) w = (w1, a)" by force
  have 1: "R w w1" using compute_sha256_keeps [OF assms(3), of w cx "oi_path s"] a by simp
  have rf: "R w w" by (rule reflpD [OF assms(1)])
  show ?thesis
  proof (cases d)
    case (Some di)
    obtain w2 b where b: "compute_sha256 cx dd (oi_path di) w1 = (w2, b)" by force
    have "R w w2" using transpD [OF assms(2) 1 compute_sha256_keeps [OF assms(4), of w1 cx "oi_path di"]] b by simp
    then show ?thesis using 1 rf a b Some by (cases mode; cases a; cases b) (simp_all add: compare_def)
  qed (simp add: compare_def rf)
qed

lemma dry_run_step:
  assumes "pool_step C J st st'" "sy_dry_run (jb_opts J)" "reflp R" "transp R"
    and "reads_keep R (jb_src J)" "reads_keep R (jb_dst J)"
    and "\<forall>s \<in> set (fst st). s = Idle \<or> s = Halted \<or> (\<exists>t. s = Comparing t)" "R w0 (snd (snd st))"
  shows "(\<forall>s \<in> set (fst st'). s = Idle \<or> s = Halted \<or> (\<exists>t. s = Comparing t)) \<and> R w0 (snd (snd st'))"
  using assms
proof (induction rule: pool_step.induct)
  case (move i ss cx p w s1 p1 w1)
  have s: "ss ! i = Idle \<or> (\<exists>t. ss ! i = Comparing t)" using move(10) nth_mem [OF move(1)] move(2) by auto
  have "(s1 = Idle \<or> s1 = Halted \<or> (\<exists>t. s1 = Comparing t)) \<and> R w w1"
  proof (cases "ss ! i")
    case Idle
    then show ?thesis using move(4) reflpD [OF move(6), of w] by (auto split: list.splits if_splits)
  next
    case (Comparing t)
    let ?c = "compare (se_wide (jb_env J)) (jb_mode J) cx (jb_src J) (tk_obj t) (jb_dst J) (existing J t) w"
    obtain r where r: "?c = (w1, r)" "compared J t r p = (s1, p1)" using move(4) Comparing by (auto split: prod.splits)
    have "R w w1" using compare_keeps [OF move(6-9), of w "se_wide (jb_env J)" "jb_mode J" cx "tk_obj t" "existing J t"] r(1) by simp
    moreover have "s1 = Idle \<or> s1 = Halted"
      using r(2) move(5) by (auto simp: compared_def transfer_def split: sum.splits if_splits)
    ultimately show ?thesis by blast
  qed (use s in auto)
  then show ?case using move(10,11) transpD [OF move(7)] set_update_subset_insert [of ss i s1] by auto
qed

lemma delete_phase_dry:
  "sy_dry_run (jb_opts J) \<Longrightarrow> fst (delete_phase J cx k keep m s w) = w"
proof (induction m arbitrary: k s)
  case (Cons x m)
  obtain rel ob where "x = (rel, ob)" by (cases x)
  then show ?case using Cons by (auto simp: Let_def split: option.split)
qed simp

text \<open>C13: A dry run only reads: any relation between worlds that holds from a world to itself, composes,
  and is kept by the reads and listings of both drivers also holds between the world before and the
  world after a dry run, with and without removals, under every schedule and every context.
\<close>

theorem sync_dry_run_only_reads:
  assumes "sy_dry_run opts" "reflp R" "transp R" "reads_keep R sd" "reads_keep R dd"
  shows "R w (fst (sync E pick cl cxs cd sd sprefix dd dprefix opts w))"
proof (cases "recursive_sync sd (trim_slashes (slashed sprefix)) dd (trim_slashes (slashed dprefix))")
  case True
  then show ?thesis using reflpD [OF assms(2)] by (simp add: sync_def)
next
  case False
  obtain w1 a where 1: "dr_list sd cl sprefix w = (w1, a)" by force
  have R1: "R w w1" using assms(4) 1 unfolding reads_keep_def by (metis fst_conv)
  show ?thesis
  proof (cases a)
    case (Inl e)
    then show ?thesis using False 1 R1 by (simp add: sync_def)
  next
    case (Inr srcs)
    obtain w2 dres where 2: "dr_list dd cl dprefix w1 = (w2, dres)" by force
    have R2: "R w w2" using assms(5) 2 transpD [OF assms(3) R1] unfolding reads_keep_def by (metis fst_conv)
    let ?J = "start_job E sd dd dprefix opts (listed dres)" and ?st = "start_state sd sprefix dd dprefix opts srcs w2"
    have J: "jb_opts ?J = opts" "jb_src ?J = sd" "jb_dst ?J = dd" by (simp_all add: start_job_def)
    obtain ss p1 w3 where r: "run_pool (pool_weight ?st) pick cxs ?J 0 ?st = (ss, p1, w3)"
      by (rule prod_cases3)
    have "(pool_step (\<lambda>_. True) ?J)\<^sup>*\<^sup>* ?st (ss, p1, w3)"
      using run_pool_spec [OF order_refl, where cxs = cxs and C = "\<lambda>_. True" and st = ?st and pick = pick and J = ?J and k = 0]
      unfolding r by simp
    then have "(\<forall>s \<in> set (fst (ss, p1, w3)). s = Idle \<or> s = Halted \<or> (\<exists>t. s = Comparing t)) \<and> R w (snd (snd (ss, p1, w3)))"
    proof (induction rule: rtranclp_induct)
      case base
      show ?case using R2 by (simp add: start_state_def)
    next
      case (step b c)
      then show ?case using dry_run_step [OF step(2), of R w] assms J by simp
    qed
    then have "R w w3" by simp
    moreover have "fst (sync_finish ?J cd keep t0 p1 w3) = w3" for keep t0
      using delete_phase_dry [of ?J cd 0 keep "se_order (jb_env ?J) (jb_dest ?J)" "pl_stats p1" w3] assms(1) J(1)
      by (auto simp: sync_finish_def split: option.split sum.split prod.split)
    ultimately show ?thesis using sync_run [OF False _ 2 r, of w cd] 1 Inr by simp
  qed
qed

text \<open>Apart from the counter of failures, the server: what the reads of a bucket that is there keep.\<close>

definition same_content :: "s3_server \<Rightarrow> s3_server \<Rightarrow> bool" where
  "same_content s t \<longleftrightarrow> sv_uploads t = sv_uploads s \<and> (\<forall>b k. map_of (bucket_of t b) k = map_of (bucket_of s b) k)"

lemma same_content_refl [simp]: "same_content s s"
  by (simp add: same_content_def)

lemma same_content_trans: "same_content a b \<Longrightarrow> same_content b c \<Longrightarrow> same_content a c"
  by (simp add: same_content_def)

lemma retry_loop_keeps:
  assumes "\<And>w. same_content w (fst (act w))"
  shows "same_content w (fst (retry_loop n i cx act w))"
proof (induction n arbitrary: i w)
  case 0
  obtain w1 r where "act w = (w1, r)" by force
  then show ?case using assms [of w] by (cases r) (auto simp: retry_loop_simps [of 0] split: option.split)
next
  case (Suc n)
  obtain w1 r where a: "act w = (w1, r)" by force
  then show ?case using assms [of w] same_content_trans [OF _ Suc.IH [of w1 "Suc i"]]
    by (cases r) (auto simp: retry_loop_simps [of "Suc n"] split: option.split)
qed

lemma served_keeps:
  "(\<And>s. fst (h s) = s) \<Longrightarrow> same_content s (fst (served b h s))"
  by (auto simp: served_def Let_def same_content_def create_bucket_def bucket_of_def split: option.split)

lemma bucket_reads_keep: "reads_keep same_content (bucket_driver b i)"
proof -
  let ?C = "server_client (\<lambda>_. '''') 0"
  have g: "same_content w (fst (sc_get ?C b k w))" for w k
    by (auto simp: server_client_def keyed_def intro!: served_keeps simp: handle_get_def)
  have l: "same_content w (fst (sc_list ?C b q w))" for w q
    by (auto simp: server_client_def intro!: served_keeps simp: handle_list_def Let_def)
  have er: "same_content w (fst (execute_with_retry cx cfg act w))" if "\<And>w. same_content w (fst (act w))" for w cx cfg and act :: "s3_server \<Rightarrow> s3_server \<times> 'a res"
    using retry_loop_keeps [OF that] by (simp add: execute_with_retry_def)
  show ?thesis unfolding reads_keep_def bucket_driver_def s3_driver_def
  proof (intro allI conjI)
    fix cx p w
    let ?d = "s3_new_with_client ?C b []"
    have d: "s3_client ?d = ?C" "s3_bucket ?d = b" by (simp_all add: s3_new_with_client_def)
    obtain w1 r where r: "execute_with_retry cx (s3_retry ?d) (sc_get ?C b (s3_clean_key p)) w = (w1, r)" by force
    have "same_content w w1" using er [of "sc_get ?C b (s3_clean_key p)" w cx "s3_retry ?d"] g r by simp
    then show "same_content w (fst (dr_read \<lparr>dr_name = ''s3'', dr_id = i, dr_local_root = None, dr_advanced = True, dr_nil_lists = False,
      dr_read = s3_read ?d, dr_write = s3_write ?d, dr_list = s3_list ?d, dr_delete = s3_delete ?d,
      dr_stat = s3_stat ?d, dr_stream = s3_stream ?d,
      dr_write_opts = s3_write_with_options ?d, dr_list_opts = s3_list_with_options ?d\<rparr> cx p w))"
      using r by (auto simp: s3_read_def d split: sum.split option.split)
    let ?q = "s3_list_request (list_all_under p)"
    obtain w2 q where q: "execute_with_retry cx (s3_retry ?d) (sc_list ?C b ?q) w = (w2, q)" by force
    have "same_content w w2" using er [of "sc_list ?C b ?q" w cx "s3_retry ?d"] l q by simp
    then show "same_content w (fst (dr_list \<lparr>dr_name = ''s3'', dr_id = i, dr_local_root = None, dr_advanced = True, dr_nil_lists = False,
      dr_read = s3_read ?d, dr_write = s3_write ?d, dr_list = s3_list ?d, dr_delete = s3_delete ?d,
      dr_stat = s3_stat ?d, dr_stream = s3_stream ?d,
      dr_write_opts = s3_write_with_options ?d, dr_list_opts = s3_list_with_options ?d\<rparr> cx p w))"
      using q by (auto simp: s3_list_def s3_list_with_options_def d split: sum.split option.split)
  qed
qed

lemma sync_dry_run_only_reads_witness:
  "same_content two_buckets (fst (sync bucket_env (\<lambda>k. k) background (\<lambda>_. background) background
     (bucket_driver ''a'' 0) '''' (bucket_driver ''b'' 1) '''' (plain_opts\<lparr>sy_dry_run := True, sy_delete := True\<rparr>) two_buckets))"
  by (rule sync_dry_run_only_reads)
    (auto simp: reflp_def bucket_reads_keep intro: transpI same_content_trans)

end
