(* ===== verification/Sync_Stores.thy ===== *)
theory Sync_Stores
  imports Sync_Pool Local_Driver "HOL-Library.Multiset"
begin

text \<open>
  The synchronisation between two drivers that keep the contract \<open>object_store\<close>: in the locale
  \<open>sync_stores\<close>, which adds that the two stores do not disturb each other, that the destination
  has room for the names of the run and which times the listings show, every schedule ends without
  an error, with every source file that the comparison does not take for identical in the
  destination, every displaced file in a backup and every other file untouched.
\<close>

declare background_simp [simp del]

section \<open>Two stores in one world\<close>

locale sync_stores =
  src: object_store S inv_s key_s pre_s view_s plain_s small_s + dst: object_store D inv_d key_d pre_d view_d plain_d small_d
  for S :: "'w driver" and inv_s and key_s and pre_s and view_s and plain_s and small_s
    and D :: "'w driver" and inv_d and key_d and pre_d and view_d and plain_d and small_d +
  fixes room :: "'w \<Rightarrow> string set \<Rightarrow> bool"
    and stamp_s stamp_d :: "'w \<Rightarrow> string \<Rightarrow> int"
  assumes src_reads: "inv_s w \<Longrightarrow> inv_d w \<Longrightarrow>
      dr_read S background p w = (w1, r) \<or> dr_list S background p w = (w1, l) \<Longrightarrow>
      inv_d w1 \<and> view_d w1 = view_d w \<and> room w1 = room w \<and> stamp_d w1 = stamp_d w"
    and dst_reads: "inv_s w \<Longrightarrow> inv_d w \<Longrightarrow>
      dr_read D background p w = (w1, r) \<or> dr_list D background p w = (w1, l) \<or> dr_stat D background p w = (w1, i) \<Longrightarrow>
      inv_s w1 \<and> view_s w1 = view_s w \<and> room w1 = room w"
    and dst_writes: "inv_s w \<Longrightarrow> inv_d w \<Longrightarrow>
      dr_write D background p rd n w = (w1, u) \<or> dr_delete D background p w = (w1, u) \<Longrightarrow>
      inv_s w1 \<and> view_s w1 = view_s w"
    and room_plain: "inv_d w \<Longrightarrow> room w K \<Longrightarrow> k \<in> K \<Longrightarrow> plain_d w k"
    and room_write: "inv_d w \<Longrightarrow> room w K \<Longrightarrow> key_d p = Some k \<Longrightarrow> k \<in> K \<Longrightarrow> small_d d \<Longrightarrow>
      dr_write D background p (bytes_reader d) (int (length d)) w = (w1, u) \<Longrightarrow> room w1 K"
    and room_delete: "inv_d w \<Longrightarrow> room w K \<Longrightarrow> key_d p = Some k \<Longrightarrow> k \<in> K \<Longrightarrow>
      dr_delete D background p w = (w1, u) \<Longrightarrow> room w1 K"
    and src_stamps: "inv_s w \<Longrightarrow> dr_list S background '''' w = (w1, Ok obs) \<Longrightarrow> ob \<in> set obs \<Longrightarrow> \<not> oi_isdir ob \<Longrightarrow>
      oi_modtime ob = stamp_s w (oi_path ob)"
    and dst_stamps: "inv_d w \<Longrightarrow> dr_list D background '''' w = (w1, Ok obs) \<Longrightarrow> ob \<in> set obs \<Longrightarrow> \<not> oi_isdir ob \<Longrightarrow>
      oi_modtime ob = stamp_d w (oi_path ob)"
begin

text \<open>Both stores in order, and what the calls do to the pair.\<close>

definition both :: "string set \<Rightarrow> 'w \<Rightarrow> bool" where
  "both K w \<longleftrightarrow> inv_s w \<and> inv_d w \<and> room w K"

definition calm :: "'w \<Rightarrow> 'w \<Rightarrow> bool" where
  "calm w w1 \<longleftrightarrow> view_s w1 = view_s w \<and> view_d w1 = view_d w"

lemma calm_refl: "calm w w" and calm_trans: "calm a b \<Longrightarrow> calm b c \<Longrightarrow> calm a c"
  by (simp_all add: calm_def)

lemma read_source:
  assumes "both K w" "view_s w k = Some d"
  shows "\<exists>w1. dr_read S background k w = (w1, Ok (bytes_reader d)) \<and> both K w1 \<and> calm w w1"
proof -
  have s: "inv_s w" "inv_d w" "room w K" using assms(1) by (simp_all add: both_def)
  obtain w1 where 1: "dr_read S background k w = (w1, Ok (bytes_reader d))" "inv_s w1" "view_s w1 = view_s w"
    using src.read_hit [OF s(1) src.stored_key [OF s(1) assms(2)] assms(2)] by blast
  then show ?thesis using src_reads [OF s(1,2) disjI1 [OF 1(1)]] s(3) by (simp add: both_def calm_def)
qed

lemma read_dest:
  assumes "both K w" "view_d w k = Some d"
  shows "\<exists>w1. dr_read D background k w = (w1, Ok (bytes_reader d)) \<and> both K w1 \<and> calm w w1"
proof -
  have s: "inv_s w" "inv_d w" "room w K" using assms(1) by (simp_all add: both_def)
  obtain w1 where 1: "dr_read D background k w = (w1, Ok (bytes_reader d))" "inv_d w1" "view_d w1 = view_d w"
    using dst.read_hit [OF s(2) dst.stored_key [OF s(2) assms(2)] assms(2)] by blast
  then show ?thesis using dst_reads [OF s(1,2) disjI1 [OF 1(1)]] s(3) by (simp add: both_def calm_def)
qed

lemma stat_dest:
  assumes "both K w" "view_d w k = Some d"
  shows "\<exists>w1 oi. dr_stat D background k w = (w1, Ok oi) \<and> oi_size oi = int (length d) \<and> both K w1 \<and> calm w w1"
proof -
  have s: "inv_s w" "inv_d w" "room w K" using assms(1) by (simp_all add: both_def)
  obtain w1 oi where 1: "dr_stat D background k w = (w1, Ok oi)" "oi_size oi = int (length d)" "inv_d w1" "view_d w1 = view_d w"
    using dst.stat_hit [OF s(2) dst.stored_key [OF s(2) assms(2)] assms(2)] by blast
  then show ?thesis using dst_reads [OF s(1,2) disjI2 [OF disjI2 [OF 1(1)]]] s(3) by (simp add: both_def calm_def)
qed

lemma write_dest:
  assumes "both K w" "key_d k = Some k" "k \<in> K" "small_d d"
  shows "\<exists>w1. dr_write D background k (bytes_reader d) (int (length d)) w = (w1, Ok ()) \<and> both K w1
    \<and> view_s w1 = view_s w \<and> view_d w1 = (view_d w)(k \<mapsto> d)"
proof -
  have s: "inv_s w" "inv_d w" "room w K" using assms(1) by (simp_all add: both_def)
  obtain w1 where 1: "dr_write D background k (bytes_reader d) (int (length d)) w = (w1, Ok ())"
    "inv_d w1" "view_d w1 = (view_d w)(k \<mapsto> d)"
    using dst.write_full [OF s(2) assms(2) room_plain [OF s(2,3) assms(3)] assms(4)] by blast
  then show ?thesis
    using dst_writes [OF s(1,2) disjI1 [OF 1(1)]] room_write [OF s(2,3) assms(2-4) 1(1)] by (simp add: both_def)
qed

lemma delete_dest:
  assumes "both K w" "view_d w k = Some d" "k \<in> K"
  shows "\<exists>w1. dr_delete D background k w = (w1, Ok ()) \<and> both K w1
    \<and> view_s w1 = view_s w \<and> view_d w1 = (view_d w)(k := None)"
proof -
  have s: "inv_s w" "inv_d w" "room w K" using assms(1) by (simp_all add: both_def)
  have k: "key_d k = Some k" by (rule dst.stored_key [OF s(2) assms(2)])
  obtain w1 where 1: "dr_delete D background k w = (w1, Ok ())" "inv_d w1" "view_d w1 = (view_d w)(k := None)"
    using dst.delete_plain [OF s(2) k dst.stored_plain [OF s(2) assms(2)]] by blast
  then show ?thesis
    using dst_writes [OF s(1,2) disjI2 [OF 1(1)]] room_delete [OF s(2,3) k assms(3) 1(1)] by (simp add: both_def)
qed

end

section \<open>One task\<close>

text \<open>Where the backup of a destination file goes when the directory is not an absolute path.\<close>

definition backup_dir :: "sync_options \<Rightarrow> string" where
  "backup_dir opts = (if sy_conflict_dir opts = '''' then default_conflict_dir else sy_conflict_dir opts)"

definition backup_name :: "sync_options \<Rightarrow> string \<Rightarrow> string \<Rightarrow> string" where
  "backup_name opts k stamp = trim_slashes (slashed (backup_dir opts)) @ ''/'' @ conflict_name k stamp"

definition backup_path :: "'w sync_job \<Rightarrow> sync_task \<Rightarrow> 'w \<Rightarrow> string" where
  "backup_path J t w = backup_name (jb_opts J) (tk_dest t) (se_stamp (jb_env J) w)"

definition keeps_backup :: "'w sync_job \<Rightarrow> sync_task \<Rightarrow> bool" where
  "keeps_backup J t \<longleftrightarrow> existing J t \<noteq> None \<and> \<not> sy_no_backup (jb_opts J)"

text \<open>
  Options under which backups are files of the destination outside the names of the source; the time
  stamps have one length and the order of a traversal is a permutation.
\<close>

definition good_opts :: "'w sync_env \<Rightarrow> sync_options \<Rightarrow> bool" where
  "good_opts E opts \<longleftrightarrow> \<not> sy_dry_run opts \<and> \<not> rooted (backup_dir opts) \<and>
     trim_slashes (slashed (backup_dir opts)) \<noteq> '''' \<and>
     (\<forall>m. mset (se_order E m) = mset m) \<and> (\<forall>u v. length (se_stamp E u) = length (se_stamp E v))"

context sync_stores
begin

text \<open>
  What the run relies on: \<open>w0\<close> is the world after the listings, the source objects are the tasks',
  the destination objects are those of the map, the names the run writes are names of the
  destination for which there is room, backups never meet destination files or other backups.
\<close>

definition good_job :: "'w sync_job \<Rightarrow> sync_task list \<Rightarrow> 'w \<Rightarrow> string set \<Rightarrow> bool" where
  "good_job J tasks w0 K \<longleftrightarrow>
     jb_src J = S \<and> jb_dst J = D \<and> \<not> sy_dry_run (jb_opts J) \<and> \<not> rooted (backup_dir (jb_opts J)) \<and>
     distinct (map tk_dest tasks) \<and> both K w0 \<and>
     (\<forall>t \<in> set tasks.
        (\<exists>d. view_s w0 (oi_path (tk_obj t)) = Some d \<and> oi_size (tk_obj t) = int (length d) \<and> small_d d) \<and>
        key_d (tk_dest t) = Some (tk_dest t) \<and> tk_dest t \<in> K \<and>
        (case existing J t of
           None \<Rightarrow> view_d w0 (tk_dest t) = None
         | Some di \<Rightarrow> oi_path di = tk_dest t \<and> (\<exists>d. view_d w0 (tk_dest t) = Some d \<and> small_d d)) \<and>
        (keeps_backup J t \<longrightarrow> (\<forall>w. key_d (backup_path J t w) = Some (backup_path J t w) \<and> backup_path J t w \<in> K \<and>
           (\<forall>t' \<in> set tasks. backup_path J t w \<noteq> tk_dest t' \<and> (t' \<noteq> t \<longrightarrow> (\<forall>w'. backup_path J t w \<noteq> backup_path J t' w'))))))"

lemma good_jobD:
  assumes "good_job J tasks w0 K"
  shows "jb_src J = S" "jb_dst J = D" "\<not> sy_dry_run (jb_opts J)" "\<not> rooted (backup_dir (jb_opts J))"
    "distinct (map tk_dest tasks)" "both K w0"
  using assms by (simp_all add: good_job_def)

lemma good_task:
  assumes "good_job J tasks w0 K" "t \<in> set tasks"
  shows "\<exists>d. view_s w0 (oi_path (tk_obj t)) = Some d \<and> oi_size (tk_obj t) = int (length d) \<and> small_d d"
    "key_d (tk_dest t) = Some (tk_dest t)" "tk_dest t \<in> K"
    "existing J t = None \<Longrightarrow> view_d w0 (tk_dest t) = None"
    "existing J t = Some di \<Longrightarrow> oi_path di = tk_dest t \<and> (\<exists>d. view_d w0 (tk_dest t) = Some d \<and> small_d d)"
    "keeps_backup J t \<Longrightarrow> key_d (backup_path J t w) = Some (backup_path J t w) \<and> backup_path J t w \<in> K"
    "keeps_backup J t \<Longrightarrow> t' \<in> set tasks \<Longrightarrow> backup_path J t w \<noteq> tk_dest t'"
    "keeps_backup J t \<Longrightarrow> t' \<in> set tasks \<Longrightarrow> t' \<noteq> t \<Longrightarrow> backup_path J t w \<noteq> backup_path J t' w'"
  using assms unfolding good_job_def by (auto split: option.splits)

text \<open>The source content of a task, and when the comparison calls the two sides identical.\<close>

definition content :: "'w \<Rightarrow> sync_task \<Rightarrow> bytes" where
  "content w0 t = the (view_s w0 (oi_path (tk_obj t)))"

definition same :: "'w sync_job \<Rightarrow> 'w \<Rightarrow> sync_task \<Rightarrow> bool" where
  "same J w0 t \<longleftrightarrow> (\<exists>di. existing J t = Some di \<and>
     (if sy_checksum (jb_opts J) then sha256 (content w0 t) = sha256 (the (view_d w0 (tk_dest t)))
      else compare_meta (se_wide (jb_env J)) (tk_obj t) di = DiffStatusIdentical))"

lemma hash_ok:
  assumes "both K w" "view_s w k = Some d"
  shows "\<exists>w1. compute_sha256 background S k w = (w1, Ok (hex_encode (sha256 d))) \<and> both K w1 \<and> calm w w1"
  using read_source [OF assms] by (auto simp: compute_sha256_def)

lemma hash_dest_ok:
  assumes "both K w" "view_d w k = Some d"
  shows "\<exists>w1. compute_sha256 background D k w = (w1, Ok (hex_encode (sha256 d))) \<and> both K w1 \<and> calm w w1"
  using read_dest [OF assms] by (auto simp: compute_sha256_def)

text \<open>A comparison succeeds, changes nothing, and says identical exactly for what counts as the same.\<close>

lemma compare_ok:
  assumes good: "good_job J tasks w0 K" "t \<in> set tasks"
    and w: "both K w" "view_s w = view_s w0" "view_d w (tk_dest t) = view_d w0 (tk_dest t)"
  shows "\<exists>w1 st. compare (se_wide (jb_env J)) (jb_mode J) background S (tk_obj t) D (existing J t) w = (w1, Ok st)
    \<and> both K w1 \<and> calm w w1 \<and> (st = DiffStatusIdentical \<longleftrightarrow> same J w0 t)
    \<and> (st = DiffStatusNew \<longleftrightarrow> existing J t = None)"
proof (cases "existing J t")
  case None
  then show ?thesis using w(1) calm_refl by (auto simp: compare_def same_def)
next
  case (Some di)
  obtain d where d: "view_s w0 (oi_path (tk_obj t)) = Some d" using good_task(1) [OF good] by blast
  obtain e where e: "oi_path di = tk_dest t" "view_d w0 (tk_dest t) = Some e" using good_task(5) [OF good Some] by blast
  show ?thesis
  proof (cases "sy_checksum (jb_opts J)")
    case True
    obtain w1 where 1: "compute_sha256 background S (oi_path (tk_obj t)) w = (w1, Ok (hex_encode (sha256 d)))"
      "both K w1" "calm w w1" using hash_ok [OF w(1)] d w(2) by force
    then have "view_d w1 (oi_path di) = Some e" using w(3) e by (simp add: calm_def)
    then obtain w2 where 2: "compute_sha256 background D (oi_path di) w1 = (w2, Ok (hex_encode (sha256 e)))"
      "both K w2" "calm w1 w2" using hash_dest_ok [OF 1(2)] by blast
    have "hex_encode (sha256 d) = hex_encode (sha256 e) \<longleftrightarrow> sha256 d = sha256 e" by (simp add: hex_encode_inject)
    then show ?thesis using 1 2 Some True d e calm_trans [OF 1(3) 2(3)]
      by (simp add: compare_def jb_mode_def same_def content_def)
  next
    case False
    have "compare_meta (se_wide (jb_env J)) (tk_obj t) di \<noteq> DiffStatusNew"
      by (auto simp: compare_meta_def Let_def)
    then show ?thesis using Some False w(1) calm_refl
      by (simp add: compare_def jb_mode_def same_def)
  qed
qed

lemma backup_ok:
  assumes good: "good_job J tasks w0 K" "t \<in> set tasks" "keeps_backup J t"
    and w: "both K w" "view_d w (tk_dest t) = Some e" "small_d e"
  shows "\<exists>w1. backup_conflict (jb_env J) background D (tk_dest t) (sy_conflict_dir (jb_opts J)) w = (w1, Ok (backup_path J t w))
    \<and> both K w1 \<and> view_s w1 = view_s w \<and> view_d w1 = (view_d w)(backup_path J t w \<mapsto> e)"
proof -
  obtain w1 oi where 1: "dr_stat D background (tk_dest t) w = (w1, Ok oi)" "oi_size oi = int (length e)" "both K w1" "calm w w1"
    using stat_dest [OF w(1,2)] by blast
  have "view_d w1 (tk_dest t) = Some e" using 1(4) w(2) by (simp add: calm_def)
  then obtain w2 where 2: "dr_read D background (tk_dest t) w1 = (w2, Ok (bytes_reader e))" "both K w2" "calm w1 w2"
    using read_dest [OF 1(3)] by blast
  obtain w3 where 3: "dr_write D background (backup_path J t w) (bytes_reader e) (int (length e)) w2 = (w3, Ok ())" "both K w3"
    "view_s w3 = view_s w2" "view_d w3 = (view_d w2)(backup_path J t w \<mapsto> e)"
    using write_dest [OF 2(2)] good_task(6) [OF good(1,2,3)] w(3) by blast
  have nr: "\<not> rooted (backup_dir (jb_opts J))" by (rule good_jobD(4) [OF good(1)])
  have "backup_conflict (jb_env J) background D (tk_dest t) (sy_conflict_dir (jb_opts J)) w = (w3, Ok (backup_path J t w))"
    using 1(1,2) 2(1) 3(1) nr
    by (simp add: backup_conflict_def Let_def backup_dir_def [symmetric] backup_path_def backup_name_def)
  then show ?thesis using 2(3) 1(4) 3(2-4) by (simp add: calm_def)
qed

end

section \<open>The invariant of the run\<close>

fun stage_task :: "stage \<Rightarrow> sync_task option" where
  "stage_task (Comparing t) = Some t"
| "stage_task (Backing t) = Some t"
| "stage_task (Reading t) = Some t"
| "stage_task (Storing t r) = Some t"
| "stage_task s = None"

text \<open>How often a task is in the channel or with a worker.\<close>

definition pending :: "sync_task \<Rightarrow> stage list \<Rightarrow> pool \<Rightarrow> nat" where
  "pending t ss p = sum_list (map (\<lambda>s. if stage_task s = Some t then 1 else 0) ss) + count_list (pl_queue p) t"

lemma pending_move:
  assumes "i < length ss"
  shows "pending t (ss[i := s1]) p1 + (if stage_task (ss ! i) = Some t then 1 else 0) + count_list (pl_queue p) t
    = pending t ss p + (if stage_task s1 = Some t then 1 else 0) + count_list (pl_queue p1) t"
  using sum_list_set [OF assms, of "\<lambda>s. if stage_task s = Some t then 1 else 0" s1] by (simp add: pending_def)

lemma pending_held: "s \<in> set ss \<Longrightarrow> stage_task s = Some t \<Longrightarrow> 0 < pending t ss p"
  unfolding pending_def by (induction ss) auto

lemma held_once:
  assumes "pending t ss p \<le> 1" "i < length ss" "stage_task (ss ! i) = Some t" "j < length ss" "j \<noteq> i"
  shows "stage_task (ss ! j) \<noteq> Some t"
proof
  assume j: "stage_task (ss ! j) = Some t"
  have "pending t (ss[i := Idle]) p + 1 = pending t ss p"
    using pending_move [OF assms(2), of t Idle p p] assms(3) by simp
  moreover have "ss[i := Idle] ! j \<in> set (ss[i := Idle])" by (rule nth_mem) (simp add: assms(4))
  then have "0 < pending t (ss[i := Idle]) p" using pending_held j assms(5) by fastforce
  ultimately show False using assms(1) by simp
qed

context sync_stores
begin

definition untouched :: "'w \<Rightarrow> sync_task \<Rightarrow> 'w \<Rightarrow> bool" where
  "untouched w0 t w \<longleftrightarrow> view_d w (tk_dest t) = view_d w0 (tk_dest t)"

definition backed :: "'w sync_job \<Rightarrow> 'w \<Rightarrow> sync_task \<Rightarrow> 'w \<Rightarrow> bool" where
  "backed J w0 t w \<longleftrightarrow> (keeps_backup J t \<longrightarrow> (\<exists>v. view_d w (backup_path J t v) = view_d w0 (tk_dest t)))"

definition finished :: "'w sync_job \<Rightarrow> 'w \<Rightarrow> sync_task \<Rightarrow> 'w \<Rightarrow> bool" where
  "finished J w0 t w \<longleftrightarrow>
     view_d w (tk_dest t) = Some (content w0 t) \<and> backed J w0 t w \<and> \<not> same J w0 t \<or> untouched w0 t w \<and> same J w0 t"

fun stage_ok :: "'w sync_job \<Rightarrow> 'w \<Rightarrow> 'w \<Rightarrow> stage \<Rightarrow> bool" where
  "stage_ok J w0 w (Backing t) \<longleftrightarrow> keeps_backup J t \<and> \<not> same J w0 t"
| "stage_ok J w0 w (Reading t) \<longleftrightarrow> backed J w0 t w \<and> \<not> same J w0 t"
| "stage_ok J w0 w (Storing t r) \<longleftrightarrow> r = bytes_reader (content w0 t) \<and> backed J w0 t w \<and> \<not> same J w0 t"
| "stage_ok J w0 w s \<longleftrightarrow> True"

text \<open>The names the run may write.\<close>

definition run_names :: "'w sync_job \<Rightarrow> sync_task list \<Rightarrow> string set" where
  "run_names J tasks = tk_dest ` set tasks \<union> {backup_path J t v |t v. t \<in> set tasks \<and> keeps_backup J t}"

definition run_inv :: "'w sync_job \<Rightarrow> sync_task list \<Rightarrow> 'w \<Rightarrow> string set \<Rightarrow> 'w pool_state \<Rightarrow> bool" where
  "run_inv J tasks w0 K st \<longleftrightarrow> (case st of (ss, p, w) \<Rightarrow>
     both K w \<and> view_s w = view_s w0 \<and> pl_err p = None \<and>
     (\<forall>t. pending t ss p \<le> 1 \<and> (0 < pending t ss p \<longrightarrow> t \<in> set tasks \<and> untouched w0 t w)) \<and>
     (\<forall>t \<in> set tasks. pending t ss p = 0 \<longrightarrow> finished J w0 t w) \<and>
     (\<forall>s \<in> set ss. stage_ok J w0 w s) \<and>
     (\<forall>k. k \<notin> run_names J tasks \<longrightarrow> view_d w k = view_d w0 k))"

text \<open>Two worlds that differ for one task only.\<close>

definition apart :: "'w sync_job \<Rightarrow> sync_task list \<Rightarrow> sync_task \<Rightarrow> 'w \<Rightarrow> 'w \<Rightarrow> bool" where
  "apart J tasks tt w w1 \<longleftrightarrow> (\<forall>k. k \<notin> run_names J tasks \<longrightarrow> view_d w1 k = view_d w k) \<and>
     (\<forall>t \<in> set tasks. t \<noteq> tt \<longrightarrow> view_d w1 (tk_dest t) = view_d w (tk_dest t) \<and>
        (keeps_backup J t \<longrightarrow> (\<forall>v. view_d w1 (backup_path J t v) = view_d w (backup_path J t v))))"

lemma apart_calm: "calm w w1 \<Longrightarrow> apart J tasks tt w w1"
  by (simp add: apart_def calm_def)

lemma apart_keeps:
  assumes "apart J tasks tt w w1" "t \<in> set tasks" "t \<noteq> tt"
  shows "untouched w0 t w \<Longrightarrow> untouched w0 t w1" "backed J w0 t w \<Longrightarrow> backed J w0 t w1"
    "finished J w0 t w \<Longrightarrow> finished J w0 t w1"
  using assms by (auto simp: apart_def untouched_def backed_def finished_def)

lemma apart_stage:
  assumes "apart J tasks tt w w1" "stage_ok J w0 w s" "stage_task s \<noteq> Some tt"
    "\<And>t. stage_task s = Some t \<Longrightarrow> t \<in> set tasks"
  shows "stage_ok J w0 w1 s"
  using assms(2-4) apart_keeps(2) [OF assms(1)] by (cases s) auto

lemma apart_backup:
  assumes "good_job J tasks w0 K" "tt \<in> set tasks" "keeps_backup J tt"
    "view_d w1 = (view_d w)(backup_path J tt v \<mapsto> x)"
  shows "apart J tasks tt w w1"
proof -
  have "backup_path J tt v \<in> run_names J tasks" using assms(2,3) by (auto simp: run_names_def)
  then have "k \<noteq> backup_path J tt v" if "k \<notin> run_names J tasks" for k using that by blast
  moreover have "tk_dest t \<noteq> backup_path J tt v" if "t \<in> set tasks" for t
    using good_task(7) [OF assms(1-3) that] by metis
  moreover have "backup_path J t u \<noteq> backup_path J tt v" if "t \<in> set tasks" "t \<noteq> tt" for t u
    using good_task(8) [OF assms(1-3) that] by metis
  ultimately show ?thesis unfolding apart_def assms(4) by simp
qed

lemma apart_dest:
  assumes "good_job J tasks w0 K" "tt \<in> set tasks" "view_d w1 = (view_d w)(tk_dest tt \<mapsto> x)"
  shows "apart J tasks tt w w1"
proof -
  have "tk_dest tt \<in> run_names J tasks" using assms(2) by (auto simp: run_names_def)
  then have "k \<noteq> tk_dest tt" if "k \<notin> run_names J tasks" for k using that by blast
  moreover have "tk_dest t \<noteq> tk_dest tt" if "t \<in> set tasks" "t \<noteq> tt" for t
    using good_jobD(5) [OF assms(1)] that assms(2) unfolding distinct_map inj_on_def by blast
  moreover have "backup_path J t u \<noteq> tk_dest tt" if "t \<in> set tasks" "keeps_backup J t" for t u
    by (rule good_task(7) [OF assms(1) that assms(2)])
  ultimately show ?thesis unfolding apart_def assms(3) by simp
qed

text \<open>One move: the moving task apart, everything stays; the moving task is accounted for.\<close>

lemma run_inv_move:
  assumes inv: "run_inv J tasks w0 K (ss, p, w)" and i: "i < length ss"
    and tt: "\<And>t. stage_task (ss ! i) = Some t \<Longrightarrow> t = tt"
    and w1: "both K w1" "view_s w1 = view_s w" "pl_err p1 = None" "apart J tasks tt w w1"
    and pend: "\<And>t. pending t (ss[i := s1]) p1 \<le> pending t ss p"
    and gone: "\<And>t. pending t (ss[i := s1]) p1 = 0 \<Longrightarrow> 0 < pending t ss p \<Longrightarrow> t = tt \<and> finished J w0 tt w1"
    and stays: "0 < pending tt (ss[i := s1]) p1 \<Longrightarrow> untouched w0 tt w1"
    and ttin: "0 < pending tt ss p" and ok: "stage_ok J w0 w1 s1"
    and alone: "\<And>j. j < length ss \<Longrightarrow> j \<noteq> i \<Longrightarrow> stage_task (ss ! j) \<noteq> Some tt"
  shows "run_inv J tasks w0 K (ss[i := s1], p1, w1)"
proof -
  note I = inv [unfolded run_inv_def, simplified]
  have in_tasks: "0 < pending t ss p \<Longrightarrow> t \<in> set tasks" for t using I by blast
  have held_in: "t \<in> set tasks" if "j < length ss" "stage_task (ss ! j) = Some t" for j t
    using in_tasks pending_held [OF nth_mem [OF that(1)] that(2)] by blast
  have le: "pending t (ss[i := s1]) p1 \<le> Suc 0" for t
    by (rule order_trans [OF pend [of t]]) (use I in blast)
  have un: "t \<in> set tasks \<and> untouched w0 t w1" if "0 < pending t (ss[i := s1]) p1" for t
  proof (cases "t = tt")
    case True
    then show ?thesis using stays that in_tasks [OF ttin] by blast
  next
    case False
    have "0 < pending t ss p" using that pend [of t] by simp
    then show ?thesis using I apart_keeps(1) [OF w1(4) _ False] by blast
  qed
  have fin: "finished J w0 t w1" if "t \<in> set tasks" "pending t (ss[i := s1]) p1 = 0" for t
  proof (cases "0 < pending t ss p")
    case True
    then show ?thesis using gone [OF that(2)] by blast
  next
    case False
    then have "t \<noteq> tt" using ttin by blast
    then show ?thesis using I that(1) False apart_keeps(3) [OF w1(4) that(1)] by blast
  qed
  have st: "stage_ok J w0 w1 s" if mem: "s \<in> set (ss[i := s1])" for s
  proof -
    obtain j where j: "j < length ss" "s = ss[i := s1] ! j" using mem by (auto simp: in_set_conv_nth)
    show ?thesis
    proof (cases "j = i")
      case True
      then show ?thesis using j i ok by simp
    next
      case False
      then have s: "s = ss ! j" using j by simp
      show ?thesis unfolding s
        by (rule apart_stage [OF w1(4)]) (use I nth_mem [OF j(1)] alone [OF j(1) False] held_in [OF j(1)] in auto)
    qed
  qed
  show ?thesis using w1 le un fin st I by (auto simp: run_inv_def apart_def)
qed

end

context sync_stores
begin

text \<open>A move that changes no view and no task's place.\<close>

lemma run_inv_quiet:
  assumes inv: "run_inv J tasks w0 K (ss, p, w)" and i: "i < length ss"
    and w1: "both K w1" "calm w w1" "pl_err p1 = None"
    and pend: "\<And>t. pending t (ss[i := s1]) p1 = pending t ss p" and ok: "stage_ok J w0 w s1"
  shows "run_inv J tasks w0 K (ss[i := s1], p1, w1)"
proof -
  have v: "untouched w0 t w1 = untouched w0 t w" "backed J w0 t w1 = backed J w0 t w"
    "finished J w0 t w1 = finished J w0 t w" for t
    using w1(2) by (simp_all add: untouched_def backed_def finished_def calm_def)
  have st: "stage_ok J w0 w1 s = stage_ok J w0 w s" for s by (cases s) (simp_all add: v)
  have "\<forall>s \<in> set (ss[i := s1]). stage_ok J w0 w1 s"
    using inv ok st set_update_subset_insert [of ss i s1] by (auto simp: run_inv_def)
  then show ?thesis using inv w1 v pend by (simp add: run_inv_def calm_def)
qed

lemma run_inv_facts:
  assumes "run_inv J tasks w0 K (ss, p, w)" "i < length ss"
  shows "both K w" "view_s w = view_s w0" "pl_err p = None" "stage_ok J w0 w (ss ! i)"
    "stage_task (ss ! i) = Some t \<Longrightarrow> t \<in> set tasks \<and> untouched w0 t w \<and> 0 < pending t ss p"
    "stage_task (ss ! i) = Some t \<Longrightarrow> j < length ss \<Longrightarrow> j \<noteq> i \<Longrightarrow> stage_task (ss ! j) \<noteq> Some t"
  using assms pending_held [OF nth_mem [OF assms(2)], of t p] held_once [OF _ assms(2), of t p j]
  by (auto simp: run_inv_def)

lemma step_comparing:
  assumes good: "good_job J tasks w0 K" and inv: "run_inv J tasks w0 K (ss, p, w)"
    and i: "i < length ss" "ss ! i = Comparing t" and m: "worker_move J background (ss ! i) p w = ((s1, p1), w1)"
  shows "run_inv J tasks w0 K (ss[i := s1], p1, w1)"
proof -
  have tk: "stage_task (ss ! i) = Some t" using i(2) by simp
  note f = run_inv_facts [OF inv i(1)]
  have t: "t \<in> set tasks" "untouched w0 t w" "0 < pending t ss p" using f(5) [OF tk] by blast+
  obtain v st where c: "compare (se_wide (jb_env J)) (jb_mode J) background S (tk_obj t) D (existing J t) w = (v, Ok st)"
    "both K v" "calm w v" "st = DiffStatusIdentical \<longleftrightarrow> same J w0 t" "st = DiffStatusNew \<longleftrightarrow> existing J t = None"
    using compare_ok [OF good t(1) f(1,2)] t(2) by (auto simp: untouched_def)
  then have r: "compared J t (Ok st) p = (s1, p1)" "w1 = v"
    using m i(2) good_jobD(1,2) [OF good] by auto
  have nd: "\<not> sy_dry_run (jb_opts J)" by (rule good_jobD(3) [OF good])
  show ?thesis
  proof (cases "st = DiffStatusIdentical")
    case True
    then have s1: "s1 = Idle" "p1 = count_skipped p" using r(1) by (auto simp: compared_def)
    have pm: "pending x (ss[i := s1]) p1 + (if t = x then 1 else 0) = pending x ss p" for x
      using pending_move [OF i(1), of x s1 p1 p] i(2) s1 by simp
    show ?thesis
    proof (rule run_inv_move [OF inv i(1), where tt = t])
      fix x assume z: "pending x (ss[i := s1]) p1 = 0" "0 < pending x ss p"
      have "x = t" using pm [of x] z by (simp split: if_splits)
      moreover have "finished J w0 t w1"
        using c(3,4) True t(2) r(2) by (simp add: finished_def untouched_def calm_def)
      ultimately show "x = t \<and> finished J w0 t w1" by simp
    next
      show "pending x (ss[i := s1]) p1 \<le> pending x ss p" for x using pm [of x] by linarith
      show "untouched w0 t w1" if "0 < pending t (ss[i := s1]) p1"
        using t(2) c(3) r(2) by (simp add: untouched_def calm_def)
      show "stage_task (ss ! j) \<noteq> Some t" if "j < length ss" "j \<noteq> i" for j using f(6) [OF tk that] .
    qed (use c t f s1 r(2) tk apart_calm in \<open>auto simp: calm_def\<close>)
  next
    case False
    then have cs: "s1 = Backing t \<and> p1 = p \<and> keeps_backup J t \<or> s1 = Reading t \<and> p1 = p \<and> \<not> keeps_backup J t"
      using r(1) nd c(5) by (cases st) (auto simp: compared_def transfer_def keeps_backup_def split: if_splits)
    show ?thesis
    proof (rule run_inv_quiet [OF inv i(1)])
      show "pending x (ss[i := s1]) p1 = pending x ss p" for x
        using pending_move [OF i(1), of x s1 p1 p] i(2) cs by auto
      show "stage_ok J w0 w s1" using cs c(4) False by (auto simp: backed_def)
    qed (use c r(2) f(3) cs in auto)
  qed
qed

lemma step_backing:
  assumes good: "good_job J tasks w0 K" and inv: "run_inv J tasks w0 K (ss, p, w)"
    and i: "i < length ss" "ss ! i = Backing t" and m: "worker_move J background (ss ! i) p w = ((s1, p1), w1)"
  shows "run_inv J tasks w0 K (ss[i := s1], p1, w1)"
proof -
  have tk: "stage_task (ss ! i) = Some t" using i(2) by simp
  note f = run_inv_facts [OF inv i(1)]
  have t: "t \<in> set tasks" "untouched w0 t w" "0 < pending t ss p" using f(5) [OF tk] by blast+
  have kb: "keeps_backup J t" and ns: "\<not> same J w0 t" using f(4) i(2) by simp_all
  then obtain e where e: "view_d w0 (tk_dest t) = Some e" "small_d e"
    using good_task(5) [OF good t(1)] by (auto simp: keeps_backup_def)
  then have we: "view_d w (tk_dest t) = Some e" using t(2) by (simp add: untouched_def)
  obtain v where v: "backup_conflict (jb_env J) background D (tk_dest t) (sy_conflict_dir (jb_opts J)) w = (v, Ok (backup_path J t w))"
    "both K v" "view_s v = view_s w" "view_d v = (view_d w)(backup_path J t w \<mapsto> e)"
    using backup_ok [OF good t(1) kb f(1) we e(2)] by blast
  have r: "s1 = Reading t" "p1 = count_conflict (Some (backup_path J t w)) p" "w1 = v"
    using m i(2) v(1) good_jobD(2,3) [OF good] by (auto simp: transfer_def)
  have pm: "pending x (ss[i := s1]) p1 = pending x ss p" for x
    using pending_move [OF i(1), of x s1 p1 p] i(2) r by auto
  have dn: "tk_dest t \<noteq> backup_path J t w" using good_task(7) [OF good t(1) kb t(1)] by metis
  show ?thesis
  proof (rule run_inv_move [OF inv i(1), where tt = t])
    show "apart J tasks t w w1" using apart_backup [OF good t(1) kb v(4)] r(3) by simp
    show "pending x (ss[i := s1]) p1 \<le> pending x ss p" for x using pm by simp
    show "x = t \<and> finished J w0 t w1" if "pending x (ss[i := s1]) p1 = 0" "0 < pending x ss p" for x using that pm by simp
    show "untouched w0 t w1" if "0 < pending t (ss[i := s1]) p1" using t(2) v(4) r(3) dn by (simp add: untouched_def)
    show "stage_ok J w0 w1 s1" using v(4) r(1,3) e ns by (auto simp: backed_def)
    show "stage_task (ss ! j) \<noteq> Some t" if "j < length ss" "j \<noteq> i" for j using f(6) [OF tk that] .
  qed (use v t f r tk in auto)
qed

lemma step_storing:
  assumes good: "good_job J tasks w0 K" and inv: "run_inv J tasks w0 K (ss, p, w)"
    and i: "i < length ss" "ss ! i = Storing t rd" and m: "worker_move J background (ss ! i) p w = ((s1, p1), w1)"
  shows "run_inv J tasks w0 K (ss[i := s1], p1, w1)"
proof -
  have tk: "stage_task (ss ! i) = Some t" using i(2) by simp
  note f = run_inv_facts [OF inv i(1)]
  have t: "t \<in> set tasks" "untouched w0 t w" "0 < pending t ss p" using f(5) [OF tk] by blast+
  have rd: "rd = bytes_reader (content w0 t)" "backed J w0 t w" "\<not> same J w0 t" using f(4) i(2) by auto
  obtain d where d: "view_s w0 (oi_path (tk_obj t)) = Some d" "oi_size (tk_obj t) = int (length d)" "small_d d"
    using good_task(1) [OF good t(1)] by blast
  then have cd: "content w0 t = d" by (simp add: content_def)
  obtain v where v: "dr_write D background (tk_dest t) (bytes_reader d) (int (length d)) w = (v, Ok ())"
    "both K v" "view_s v = view_s w" "view_d v = (view_d w)(tk_dest t \<mapsto> d)"
    using write_dest [OF f(1) good_task(2,3) [OF good t(1)] d(3)] by blast
  have r: "s1 = Idle" "p1 = count_done (existing J t \<noteq> None) (oi_size (tk_obj t)) p" "w1 = v"
    using m i(2) v(1) good_jobD(2) [OF good] rd(1) cd d(2) by auto
  have pm: "pending x (ss[i := s1]) p1 + (if t = x then 1 else 0) = pending x ss p" for x
    using pending_move [OF i(1), of x s1 p1 p] i(2) r by simp
  have "backup_path J t u \<noteq> tk_dest t" if "keeps_backup J t" for u by (rule good_task(7) [OF good t(1) that t(1)])
  then have fin: "finished J w0 t w1" using rd(2,3) v(4) r(3) cd by (auto simp: finished_def backed_def)
  have le: "pending t ss p \<le> 1" using inv by (simp add: run_inv_def)
  show ?thesis
  proof (rule run_inv_move [OF inv i(1), where tt = t])
    show "apart J tasks t w w1" using apart_dest [OF good t(1) v(4)] r(3) by simp
    show "pending x (ss[i := s1]) p1 \<le> pending x ss p" for x using pm [of x] by linarith
    show "x = t \<and> finished J w0 t w1" if "pending x (ss[i := s1]) p1 = 0" "0 < pending x ss p" for x
      using that pm [of x] fin by (simp split: if_splits)
    show "untouched w0 t w1" if "0 < pending t (ss[i := s1]) p1" using that pm [of t] le by simp
    show "stage_task (ss ! j) \<noteq> Some t" if "j < length ss" "j \<noteq> i" for j using f(6) [OF tk that] .
  qed (use v t f r tk in auto)
qed

lemma step_reading:
  assumes good: "good_job J tasks w0 K" and inv: "run_inv J tasks w0 K (ss, p, w)"
    and i: "i < length ss" "ss ! i = Reading t" and m: "worker_move J background (ss ! i) p w = ((s1, p1), w1)"
  shows "run_inv J tasks w0 K (ss[i := s1], p1, w1)"
proof -
  have tk: "stage_task (ss ! i) = Some t" using i(2) by simp
  note f = run_inv_facts [OF inv i(1)]
  have t: "t \<in> set tasks" using f(5) [OF tk] by blast
  obtain d where d: "view_s w0 (oi_path (tk_obj t)) = Some d" using good_task(1) [OF good t] by blast
  then obtain v where v: "dr_read S background (oi_path (tk_obj t)) w = (v, Ok (bytes_reader d))" "both K v" "calm w v"
    using read_source [OF f(1)] f(2) by force
  have r: "s1 = Storing t (bytes_reader d)" "p1 = p" "w1 = v" using m i(2) v(1) good_jobD(1) [OF good] by auto
  show ?thesis
  proof (rule run_inv_quiet [OF inv i(1)])
    show "pending x (ss[i := s1]) p1 = pending x ss p" for x
      using pending_move [OF i(1), of x s1 p1 p] i(2) r by auto
    show "stage_ok J w0 w s1" using r(1) d f(4) i(2) by (simp add: content_def)
  qed (use v r f(3) in auto)
qed

lemma step_idle:
  assumes inv: "run_inv J tasks w0 K (ss, p, w)"
    and i: "i < length ss" "ss ! i = Idle" and m: "worker_move J background (ss ! i) p w = ((s1, p1), w1)"
  shows "run_inv J tasks w0 K (ss[i := s1], p1, w1)"
proof (rule run_inv_quiet [OF inv i(1)])
  note f = run_inv_facts [OF inv i(1)]
  show "both K w1" "calm w w1" "pl_err p1 = None" "stage_ok J w0 w s1"
    using m i(2) f(1,3) calm_refl by (auto simp: background_def split: list.splits)
  show "pending x (ss[i := s1]) p1 = pending x ss p" for x
    using pending_move [OF i(1), of x s1 p1 p] m i(2) by (auto simp: background_def split: list.splits if_splits)
qed

lemma run_inv_step:
  assumes "pool_step (\<lambda>cx. cx = background) J st st'" "good_job J tasks w0 K" "run_inv J tasks w0 K st"
  shows "run_inv J tasks w0 K st'"
  using assms
proof (induction rule: pool_step.induct)
  case (move i ss cx p w s1 p1 w1)
  then have m: "worker_move J background (ss ! i) p w = ((s1, p1), w1)" by simp
  show ?case
    using step_idle [OF move(6,1) _ m] step_comparing [OF move(5,6,1) _ m] step_backing [OF move(5,6,1) _ m]
      step_reading [OF move(5,6,1) _ m] step_storing [OF move(5,6,1) _ m] move(2)
    by (cases "ss ! i") auto
qed

lemma run_inv_steps:
  assumes "(pool_step (\<lambda>cx. cx = background) J)\<^sup>*\<^sup>* st st'" "good_job J tasks w0 K" "run_inv J tasks w0 K st"
  shows "run_inv J tasks w0 K st'"
  using assms(1,3) by (induction rule: rtranclp_induct) (use run_inv_step [OF _ assms(2)] in blast)+

end

section \<open>The whole run\<close>

lemma pending_none: "all_halted ss \<Longrightarrow> pl_queue p = [] \<Longrightarrow> pending t ss p = 0"
  by (induction ss) (auto simp: pending_def all_halted_def)

lemma pending_start: "pl_queue p = tasks \<Longrightarrow> pending t (replicate n Idle) p = count_list tasks t"
  by (simp add: pending_def sum_list_replicate)

context sync_stores
begin

lemma run_inv_start:
  assumes "good_job J tasks w0 K" "pl_queue p = tasks" "pl_err p = None"
  shows "run_inv J tasks w0 K (replicate n Idle, p, w0)"
proof -
  have d: "distinct tasks" using good_jobD(5) [OF assms(1)] unfolding distinct_map by blast
  have c: "count_list tasks t \<le> Suc 0" "0 < count_list tasks t \<longleftrightarrow> t \<in> set tasks" for t
  proof -
    show "count_list tasks t \<le> Suc 0" using d by (induction tasks) auto
    show "0 < count_list tasks t \<longleftrightarrow> t \<in> set tasks" by (metis count_notin count_list_0_iff not_gr_zero)
  qed
  have "finished J w0 t w0" if "t \<in> set tasks" "count_list tasks t = 0" for t
    using c(2) [of t] that by simp
  then show ?thesis using good_jobD(6) [OF assms(1)] assms(3) pending_start [OF assms(2)] c
    by (auto simp: run_inv_def untouched_def)
qed

lemma run_mirrors:
  assumes good: "good_job J tasks w0 K" and "\<forall>k. cxs k = background" "0 < n"
    and "pl_queue p = tasks" "pl_err p = None"
    and run: "run_pool (pool_weight (replicate n Idle, p, w0)) pick cxs J 0 (replicate n Idle, p, w0) = (ss, p1, w1)"
  shows "pl_err p1 = None" "both K w1" "view_s w1 = view_s w0" "t \<in> set tasks \<Longrightarrow> finished J w0 t w1"
    "k \<notin> run_names J tasks \<Longrightarrow> view_d w1 k = view_d w0 k"
proof -
  let ?st = "(replicate n Idle, p, w0)"
  have a: "all_halted ss" "(pool_step (\<lambda>cx. cx = background) J)\<^sup>*\<^sup>* ?st (ss, p1, w1)"
    using run_pool_spec [OF order_refl, where cxs = cxs and C = "\<lambda>cx. cx = background" and st = ?st and pick = pick and J = J and k = 0]
      assms(2) unfolding run by simp_all
  have b: "(pool_step (\<lambda>cx. cx 0 = None) J)\<^sup>*\<^sup>* ?st (ss, p1, w1)"
    using run_pool_spec [OF order_refl, where cxs = cxs and C = "\<lambda>cx. cx 0 = None" and st = ?st and pick = pick and J = J and k = 0]
      assms(2) unfolding run by (simp add: background_def)
  have inv: "run_inv J tasks w0 K (ss, p1, w1)" by (rule run_inv_steps [OF a(2) good run_inv_start [OF good assms(4,5)]])
  then show e: "pl_err p1 = None" "both K w1" "view_s w1 = view_s w0" "k \<notin> run_names J tasks \<Longrightarrow> view_d w1 k = view_d w0 k"
    by (simp_all add: run_inv_def)
  have "drained (ss, p1, w1)" by (rule pool_steps_drained [OF b]) (simp add: drained_def)
  moreover have "length ss = n" using pool_steps_length [OF b] by simp
  then have "Halted \<in> set ss" using a(1) assms(3) by (cases ss) (auto simp: all_halted_def)
  ultimately have "pl_queue p1 = []" using e(1) by (simp add: drained_def)
  then have "pending t ss p1 = 0" by (rule pending_none [OF a(1)])
  then show "t \<in> set tasks \<Longrightarrow> finished J w0 t w1" using inv by (simp add: run_inv_def)
qed

text \<open>The removals: exactly the listed names that are not kept go.\<close>

lemma delete_phase_ok:
  assumes "both K w" "distinct (map fst m)"
    and "\<And>rel ob. (rel, ob) \<in> set m \<Longrightarrow> oi_path ob = rel \<and> view_d w rel \<noteq> None \<and> rel \<in> K"
    and J: "jb_dst J = D" "\<not> sy_dry_run (jb_opts J)"
  shows "\<exists>w1 s1. delete_phase J background k keep m s w = (w1, Ok s1) \<and> both K w1 \<and> view_s w1 = view_s w
    \<and> (\<forall>x. view_d w1 x = (if x \<in> set (map fst m) - set keep then None else view_d w x))"
  using assms(1-3)
proof (induction m arbitrary: k s w)
  case Nil
  then show ?case by simp
next
  case (Cons a m)
  obtain rel ob where a: "a = (rel, ob)" by (cases a)
  have h: "oi_path ob = rel" "view_d w rel \<noteq> None" "rel \<in> K" using Cons.prems(3) [of rel ob] a by auto
  show ?case
  proof (cases "rel \<in> set keep")
    case True
    have dm: "distinct (map fst m)" "\<And>r o'. (r, o') \<in> set m \<Longrightarrow> oi_path o' = r \<and> view_d w r \<noteq> None \<and> r \<in> K"
      using Cons.prems(2) by simp (use Cons.prems(3) in auto)
    obtain w1 s1 where 1: "delete_phase J background (Suc k) keep m s w = (w1, Ok s1)" "both K w1" "view_s w1 = view_s w"
      "\<forall>x. view_d w1 x = (if x \<in> set (map fst m) - set keep then None else view_d w x)"
      using Cons.IH [OF Cons.prems(1) dm, of "Suc k" s] by blast
    have "delete_phase J background k keep (a # m) s w = (w1, Ok s1)"
      using 1(1) True a by (simp add: background_def Let_def)
    then show ?thesis using 1(2-4) a True by (intro exI [of _ w1] exI [of _ s1]) auto
  next
    case False
    obtain d where d: "view_d w rel = Some d" using h(2) by blast
    obtain v where v: "dr_delete D background rel w = (v, Ok ())" "both K v" "view_s v = view_s w"
      "view_d v = (view_d w)(rel := None)" using delete_dest [OF Cons.prems(1) d h(3)] by blast
    have nr: "rel \<notin> set (map fst m)" using Cons.prems(2) a by simp
    let ?s = "s\<lparr>st_deleted := wrap64 (st_deleted s + 1)\<rparr>"
    have "\<And>r o'. (r, o') \<in> set m \<Longrightarrow> oi_path o' = r \<and> view_d v r \<noteq> None \<and> r \<in> K"
      using Cons.prems(3) nr v(4) by force
    then obtain w1 s1 where 1: "delete_phase J background (Suc k) keep m ?s v = (w1, Ok s1)" "both K w1" "view_s w1 = view_s v"
      "\<forall>x. view_d w1 x = (if x \<in> set (map fst m) - set keep then None else view_d v x)"
      using Cons.IH [OF v(2), of "Suc k" ?s] Cons.prems(2) by auto
    have "delete_phase J background k keep (a # m) s w = (w1, Ok s1)"
      using 1(1) v(1) False a h(1) J by (simp add: background_def Let_def)
    then show ?thesis using 1(2-4) v(3,4) a False by (intro exI [of _ w1] exI [of _ s1]) auto
  qed
qed

end

lemma map_of_updates:
  "distinct (map fst xs) \<Longrightarrow> fst ` set xs \<inter> dom (map_of m) = {} \<Longrightarrow>
     map_of (foldl (\<lambda>m (rel, ob). AList.update rel ob m) m xs) k = (case map_of xs k of None \<Rightarrow> map_of m k | Some v \<Rightarrow> Some v)"
proof (induction xs arbitrary: m)
  case (Cons x xs)
  obtain r v where x: "x = (r, v)" by (cases x)
  have "r \<notin> fst ` set xs" using Cons.prems(1) x by simp
  moreover have "dom (map_of (AList.update r v m)) = insert r (dom (map_of m))" by (auto split: if_splits)
  ultimately have dj: "fst ` set xs \<inter> dom (map_of (AList.update r v m)) = {}" using Cons.prems(2) x by auto
  have dx: "distinct (map fst xs)" using Cons.prems(1) by simp
  have ih: "map_of (foldl (\<lambda>m (rel, ob). AList.update rel ob m) (AList.update r v m) xs) k
      = (case map_of xs k of None \<Rightarrow> map_of (AList.update r v m) k | Some v \<Rightarrow> Some v)"
    by (rule Cons.IH [OF dx dj])
  have "k = r \<Longrightarrow> map_of xs k = None" using \<open>r \<notin> fst ` set xs\<close> by (simp add: map_of_eq_None_iff)
  then show ?case using ih x by (auto split: option.split)
qed simp

lemma distinct_updates:
  "distinct (map fst m) \<Longrightarrow> distinct (map fst (foldl (\<lambda>m (rel, ob). AList.update rel ob m) m xs))"
  by (induction xs arbitrary: m) (auto simp: distinct_update)

lemma relevant_root:
  "relevant cdir '''' obs = map (\<lambda>ob. (oi_path ob, ob)) (filter (\<lambda>ob. \<not> oi_isdir ob \<and> \<not> in_conflict_dir cdir (oi_path ob)) obs)"
  by (induction obs) (auto simp: relevant_def strip_base_def)

lemma dest_map_root:
  assumes "distinct (map oi_path obs)"
  shows "map_of (dest_map cdir '''' obs) k = Some ob \<longleftrightarrow>
      ob \<in> set obs \<and> oi_path ob = k \<and> \<not> oi_isdir ob \<and> \<not> in_conflict_dir cdir k"
    and "distinct (map fst (dest_map cdir '''' obs))"
proof -
  let ?r = "relevant cdir '''' obs"
  have "map fst ?r = map oi_path (filter (\<lambda>ob. \<not> oi_isdir ob \<and> \<not> in_conflict_dir cdir (oi_path ob)) obs)"
    by (simp add: relevant_root comp_def)
  then have d: "distinct (map fst ?r)" using assms by (metis distinct_map_filter)
  have "map_of (dest_map cdir '''' obs) k = map_of ?r k"
    using map_of_updates [OF d, of "[]" k] by (simp add: dest_map_def split: option.split)
  then show "map_of (dest_map cdir '''' obs) k = Some ob \<longleftrightarrow>
      ob \<in> set obs \<and> oi_path ob = k \<and> \<not> oi_isdir ob \<and> \<not> in_conflict_dir cdir k"
    using d by (auto simp: map_of_eq_Some_iff relevant_root)
  show "distinct (map fst (dest_map cdir '''' obs))" unfolding dest_map_def by (rule distinct_updates) simp
qed

text \<open>Backups of different files have different names when the time stamps have one length.\<close>

lemma conflict_name_inject:
  assumes "conflict_name a s = conflict_name b t" "length s = length t"
    and "CHR 0x5C \<notin> set a" "\<not> has_prefix a ''/''" "CHR 0x5C \<notin> set b" "\<not> has_prefix b ''/''"
  shows "a = b"
  using assms by (simp add: conflict_name_def replace_char_id trim_prefix_other)

lemma backup_in_conflict_dir:
  assumes "trim_slashes (slashed (backup_dir opts)) \<noteq> ''''"
  shows "in_conflict_dir (conflict_dir_of opts) (backup_name opts k s)"
proof -
  have "conflict_dir_of opts = trim_slashes (slashed (backup_dir opts))"
  proof (cases "sy_conflict_dir opts = ''''")
    case True
    have "trim_slashes (slashed default_conflict_dir) = default_conflict_dir" "trim_slashes (slashed '''') = ''''"
      by code_simp+
    then show ?thesis using True by (simp add: conflict_dir_of_def backup_dir_def)
  next
    case False
    then show ?thesis using assms by (simp add: conflict_dir_of_def backup_dir_def Let_def)
  qed
  then show ?thesis by (simp add: in_conflict_dir_def backup_name_def)
qed

lemma pairs_iff:
  assumes "{(f ob, g ob) |ob. ob \<in> A \<and> \<not> P ob} = {(k, h d) |k d. v k = Some d \<and> Q k}" "\<And>k. Q k"
  shows "(\<exists>ob \<in> A. \<not> P ob \<and> f ob = k \<and> g ob = n) \<longleftrightarrow> (\<exists>d. v k = Some d \<and> n = h d)"
proof -
  have "(\<exists>ob \<in> A. \<not> P ob \<and> f ob = k \<and> g ob = n) \<longleftrightarrow> (k, n) \<in> {(f ob, g ob) |ob. ob \<in> A \<and> \<not> P ob}" by blast
  also have "\<dots> \<longleftrightarrow> (\<exists>d. v k = Some d \<and> n = h d)" unfolding assms(1) using assms(2) by blast
  finally show ?thesis .
qed

context sync_stores
begin

text \<open>The names of a synchronisation of whole stores: those of the source outside the conflict directory.\<close>

definition source_names :: "sync_options \<Rightarrow> 'w \<Rightarrow> string set" where
  "source_names opts w = {k. view_s w k \<noteq> None \<and> \<not> in_conflict_dir (conflict_dir_of opts) k}"

definition good_names :: "'w sync_env \<Rightarrow> sync_options \<Rightarrow> 'w \<Rightarrow> string set \<Rightarrow> bool" where
  "good_names E opts w K \<longleftrightarrow> dom (view_d w) \<subseteq> K \<and>
     (\<forall>k \<in> source_names opts w. key_d k = Some k \<and> k \<in> K \<and> small_d (the (view_s w k)) \<and>
        (\<forall>e. view_d w k = Some e \<longrightarrow> small_d e) \<and> CHR 0x5C \<notin> set k \<and> \<not> has_prefix k ''/'' \<and>
        (\<forall>v. key_d (backup_name opts k (se_stamp E v)) = Some (backup_name opts k (se_stamp E v)) \<and>
             backup_name opts k (se_stamp E v) \<in> K))"

lemma files_of_listing:
  assumes "inv_s w" "inv_d w" "room w K" "pre_s '''' = ''''" "pre_d '''' = ''''"
  shows "\<exists>w1 w2 srcs dsts. dr_list S background '''' w = (w1, Ok srcs) \<and> dr_list D background '''' w1 = (w2, Ok dsts)
    \<and> both K w2 \<and> calm w w2 \<and> distinct (map oi_path srcs) \<and> distinct (map oi_path dsts)
    \<and> (\<forall>k n. (\<exists>ob \<in> set srcs. \<not> oi_isdir ob \<and> oi_path ob = k \<and> oi_size ob = n) \<longleftrightarrow> (\<exists>d. view_s w k = Some d \<and> n = int (length d)))
    \<and> (\<forall>k n. (\<exists>ob \<in> set dsts. \<not> oi_isdir ob \<and> oi_path ob = k \<and> oi_size ob = n) \<longleftrightarrow> (\<exists>d. view_d w k = Some d \<and> n = int (length d)))
    \<and> (\<forall>ob \<in> set srcs. \<not> oi_isdir ob \<longrightarrow> oi_modtime ob = stamp_s w (oi_path ob))
    \<and> (\<forall>ob \<in> set dsts. \<not> oi_isdir ob \<longrightarrow> oi_modtime ob = stamp_d w (oi_path ob))"
proof -
  obtain w1 srcs where 1: "dr_list S background '''' w = (w1, Ok srcs)" "inv_s w1" "view_s w1 = view_s w"
    "distinct (map oi_path srcs)" and
    s: "{(oi_path ob, oi_size ob) |ob. ob \<in> set srcs \<and> \<not> oi_isdir ob} = {(k, int (length d)) |k d. view_s w k = Some d \<and> has_prefix k (pre_s '''')}"
    using src.list_files [OF assms(1), of "''''"] by blast
  have f1: "inv_d w1 \<and> view_d w1 = view_d w \<and> room w1 = room w \<and> stamp_d w1 = stamp_d w" by (rule src_reads [OF assms(1,2) disjI2 [OF 1(1)]])
  then obtain w2 dsts where 2: "dr_list D background '''' w1 = (w2, Ok dsts)" "inv_d w2" "view_d w2 = view_d w1"
    "distinct (map oi_path dsts)" and
    d: "{(oi_path ob, oi_size ob) |ob. ob \<in> set dsts \<and> \<not> oi_isdir ob} = {(k, int (length d)) |k d. view_d w1 k = Some d \<and> has_prefix k (pre_d '''')}"
    using dst.list_files [of w1 "''''"] by blast
  have f2: "inv_s w2 \<and> view_s w2 = view_s w1 \<and> room w2 = room w1"
    using dst_reads [OF 1(2) conjunct1 [OF f1] disjI2 [OF disjI1 [OF 2(1)]]] .
  have bc: "both K w2" "calm w w2" using f1 f2 1 2 assms(3) by (simp_all add: both_def calm_def)
  have vs: "(\<exists>ob \<in> set srcs. \<not> oi_isdir ob \<and> oi_path ob = k \<and> oi_size ob = n) \<longleftrightarrow> (\<exists>d. view_s w k = Some d \<and> n = int (length d))" for k n
    by (rule pairs_iff [OF s]) (simp add: assms(4))
  have d': "{(oi_path ob, oi_size ob) |ob. ob \<in> set dsts \<and> \<not> oi_isdir ob} = {(k, int (length d)) |k d. view_d w k = Some d \<and> has_prefix k (pre_d '''')}"
    using d f1 by metis
  have vd: "(\<exists>ob \<in> set dsts. \<not> oi_isdir ob \<and> oi_path ob = k \<and> oi_size ob = n) \<longleftrightarrow> (\<exists>d. view_d w k = Some d \<and> n = int (length d))" for k n
    by (rule pairs_iff [OF d']) (simp add: assms(5))
  have ts: "(\<forall>ob \<in> set srcs. \<not> oi_isdir ob \<longrightarrow> oi_modtime ob = stamp_s w (oi_path ob))" using src_stamps [OF assms(1) 1(1)] by blast
  have td: "(\<forall>ob \<in> set dsts. \<not> oi_isdir ob \<longrightarrow> oi_modtime ob = stamp_d w (oi_path ob))" using dst_stamps [OF conjunct1 [OF f1] 2(1)] f1 by metis
  show ?thesis
    by (rule exI [of _ w1], rule exI [of _ w2], rule exI [of _ srcs], rule exI [of _ dsts], intro conjI allI)
      (rule 1 2 bc vs vd ts td)+
qed

lemma start_good:
  assumes "good_opts E opts" "good_names E opts w K" "both K w2" "calm w w2"
    and "distinct (map oi_path srcs)" "distinct (map oi_path dsts)"
    and src: "\<And>k n. (\<exists>ob \<in> set srcs. \<not> oi_isdir ob \<and> oi_path ob = k \<and> oi_size ob = n) \<longleftrightarrow> (\<exists>d. view_s w k = Some d \<and> n = int (length d))"
    and dst: "\<And>k n. (\<exists>ob \<in> set dsts. \<not> oi_isdir ob \<and> oi_path ob = k \<and> oi_size ob = n) \<longleftrightarrow> (\<exists>d. view_d w k = Some d \<and> n = int (length d))"
    and times: "(\<forall>ob \<in> set srcs. \<not> oi_isdir ob \<longrightarrow> oi_modtime ob = stamp_s w (oi_path ob))"
      "(\<forall>ob \<in> set dsts. \<not> oi_isdir ob \<longrightarrow> oi_modtime ob = stamp_d w (oi_path ob))"
  defines "J \<equiv> start_job E S D '''' opts dsts" and "tasks \<equiv> start_tasks '''' '''' opts srcs"
  shows "good_job J tasks w2 K"
    and "tk_dest ` set tasks = source_names opts w"
    and "t \<in> set tasks \<Longrightarrow> oi_path (tk_obj t) = tk_dest t \<and> tk_rel t = tk_dest t"
    and "t \<in> set tasks \<Longrightarrow> existing J t = Some di \<Longrightarrow> view_d w (tk_dest t) = Some e \<Longrightarrow> oi_size di = int (length e)"
    and "t \<in> set tasks \<Longrightarrow> existing J t = None \<longleftrightarrow> view_d w (tk_dest t) = None"
    and "t \<in> set tasks \<Longrightarrow> oi_modtime (tk_obj t) = stamp_s w (tk_dest t)"
    and "t \<in> set tasks \<Longrightarrow> existing J t = Some di \<Longrightarrow> oi_modtime di = stamp_d w (tk_dest t)"
proof -
  let ?c = "conflict_dir_of opts"
  have e0: "trim_slashes (slashed '''') = ''''" by code_simp
  have opts: "jb_opts J = opts" "jb_env J = E" "jb_src J = S" "jb_dst J = D" by (simp_all add: J_def start_job_def)
  have tasks: "tasks = map (\<lambda>ob. \<lparr>tk_obj = ob, tk_rel = oi_path ob, tk_dest = oi_path ob\<rparr>)
      (filter (\<lambda>ob. \<not> oi_isdir ob \<and> \<not> in_conflict_dir ?c (oi_path ob)) srcs)"
    by (simp add: tasks_def start_tasks_def sync_tasks_def e0 relevant_root dest_path_def)
  have ex: "existing J t = Some di \<longleftrightarrow> di \<in> set dsts \<and> oi_path di = tk_rel t \<and> \<not> oi_isdir di \<and> \<not> in_conflict_dir ?c (tk_rel t)" for t di
    using dest_map_root(1) [OF assms(6)] by (simp add: existing_def J_def start_job_def e0)
  show t: "t \<in> set tasks \<Longrightarrow> oi_path (tk_obj t) = tk_dest t \<and> tk_rel t = tk_dest t" for t using tasks by auto
  have nc: "t \<in> set tasks \<Longrightarrow> \<not> in_conflict_dir ?c (tk_dest t)" for t using tasks by auto
  have size: "t \<in> set tasks \<Longrightarrow> \<exists>d. view_s w (tk_dest t) = Some d \<and> oi_size (tk_obj t) = int (length d)" for t
    using tasks src [of "tk_dest t" "oi_size (tk_obj t)"] by auto
  show "t \<in> set tasks \<Longrightarrow> oi_modtime (tk_obj t) = stamp_s w (tk_dest t)" for t using tasks times(1) by auto
  show "t \<in> set tasks \<Longrightarrow> existing J t = Some di \<Longrightarrow> oi_modtime di = stamp_d w (tk_dest t)" for t di
    using ex [of t di] t [of t] times(2) by auto
  show names: "tk_dest ` set tasks = source_names opts w"
  proof (intro set_eqI iffI)
    fix k assume "k \<in> tk_dest ` set tasks"
    then show "k \<in> source_names opts w" using size nc by (force simp: source_names_def)
  next
    fix k assume k: "k \<in> source_names opts w"
    then obtain d where "view_s w k = Some d" by (auto simp: source_names_def)
    then obtain ob where "ob \<in> set srcs" "\<not> oi_isdir ob" "oi_path ob = k" using src by blast
    then show "k \<in> tk_dest ` set tasks" using k tasks by (force simp: source_names_def)
  qed
  show esize: "t \<in> set tasks \<Longrightarrow> existing J t = Some di \<Longrightarrow> view_d w (tk_dest t) = Some e \<Longrightarrow> oi_size di = int (length e)" for t di e
    using ex [of t di] t [of t] dst [of "tk_dest t" "oi_size di"] by auto
  show enone: "t \<in> set tasks \<Longrightarrow> existing J t = None \<longleftrightarrow> view_d w (tk_dest t) = None" for t
  proof -
    assume tt: "t \<in> set tasks"
    show "existing J t = None \<longleftrightarrow> view_d w (tk_dest t) = None"
    proof
      assume n: "existing J t = None"
      show "view_d w (tk_dest t) = None"
      proof (rule ccontr)
        assume "view_d w (tk_dest t) \<noteq> None"
        then obtain e where "view_d w (tk_dest t) = Some e" by blast
        then obtain ob where "ob \<in> set dsts" "\<not> oi_isdir ob" "oi_path ob = tk_dest t" using dst by blast
        then have "existing J t = Some ob" using ex [of t ob] t [OF tt] nc [OF tt] by simp
        then show False using n by simp
      qed
    next
      assume n: "view_d w (tk_dest t) = None"
      show "existing J t = None"
      proof (cases "existing J t")
        case (Some di)
        then show ?thesis using ex [of t di] t [OF tt] dst [of "tk_dest t" "oi_size di"] n by auto
      qed
    qed
  qed
  have vd: "view_d w2 = view_d w" "view_s w2 = view_s w" using assms(4) by (simp_all add: calm_def)
  have gn: "t \<in> set tasks \<Longrightarrow> key_d (tk_dest t) = Some (tk_dest t) \<and> tk_dest t \<in> K \<and> small_d (the (view_s w (tk_dest t)))
      \<and> (\<forall>e. view_d w (tk_dest t) = Some e \<longrightarrow> small_d e) \<and> CHR 0x5C \<notin> set (tk_dest t) \<and> \<not> has_prefix (tk_dest t) ''/''
      \<and> (\<forall>v. key_d (backup_path J t v) = Some (backup_path J t v) \<and> backup_path J t v \<in> K)" for t
    using assms(2) names unfolding good_names_def backup_path_def opts by blast
  have bd: "backup_path J t v \<noteq> tk_dest t'" if "t' \<in> set tasks" for t t' v
  proof -
    have "in_conflict_dir ?c (backup_path J t v)"
      using backup_in_conflict_dir assms(1) by (simp add: backup_path_def opts good_opts_def)
    then show ?thesis using nc [OF that] by metis
  qed
  have dt: "distinct (map tk_dest tasks)"
  proof -
    have "map tk_dest tasks = map oi_path (filter (\<lambda>ob. \<not> oi_isdir ob \<and> \<not> in_conflict_dir ?c (oi_path ob)) srcs)"
      by (simp add: tasks comp_def)
    then show ?thesis using assms(5) by (metis distinct_map_filter)
  qed
  have bb: "backup_path J t v \<noteq> backup_path J t' v'" if h: "t \<in> set tasks" "t' \<in> set tasks" "t' \<noteq> t" for t t' v v'
  proof
    assume "backup_path J t v = backup_path J t' v'"
    then have "conflict_name (tk_dest t) (se_stamp E v) = conflict_name (tk_dest t') (se_stamp E v')"
      by (simp add: backup_path_def backup_name_def opts)
    moreover have "length (se_stamp E v) = length (se_stamp E v')" using assms(1) unfolding good_opts_def by blast
    ultimately have "tk_dest t = tk_dest t'" using conflict_name_inject gn [OF h(1)] gn [OF h(2)] by blast
    then show False using dt h unfolding distinct_map inj_on_def by blast
  qed
  have task: "(\<exists>d. view_s w2 (oi_path (tk_obj t)) = Some d \<and> oi_size (tk_obj t) = int (length d) \<and> small_d d) \<and>
        (case existing J t of
           None \<Rightarrow> view_d w2 (tk_dest t) = None
         | Some di \<Rightarrow> oi_path di = tk_dest t \<and> (\<exists>d. view_d w2 (tk_dest t) = Some d \<and> small_d d))" if tt: "t \<in> set tasks" for t
    using size [OF tt] t [OF tt] enone [OF tt] ex [of t] vd gn [OF tt] by (auto split: option.split)
  show "good_job J tasks w2 K"
    using assms(1,3) dt task gn bd bb unfolding good_job_def opts good_opts_def by blast
qed

end

lemma dest_order:
  assumes d: "distinct (map oi_path obs)" and m: "mset m = mset (dest_map cdir '''' obs)"
  shows "distinct (map fst m)"
    and "(k, ob) \<in> set m \<longleftrightarrow> ob \<in> set obs \<and> oi_path ob = k \<and> \<not> oi_isdir ob \<and> \<not> in_conflict_dir cdir k"
proof -
  have dd: "distinct (map fst (dest_map cdir '''' obs))" by (rule dest_map_root(2) [OF d])
  then show "distinct (map fst m)" using mset_eq_imp_distinct_iff [of "map fst m"] m by (metis mset_map)
  show "(k, ob) \<in> set m \<longleftrightarrow> ob \<in> set obs \<and> oi_path ob = k \<and> \<not> oi_isdir ob \<and> \<not> in_conflict_dir cdir k"
    unfolding mset_eq_setD [OF m] dest_map_root(1) [OF d, symmetric] by (rule map_of_eq_Some_iff [OF dd, symmetric])
qed

context sync_stores
begin

text \<open>
  When a source file and the destination file of its name count as identical: the same sum, or the
  same length and modification times at most a second apart.  All others are copied.
\<close>

definition identical :: "sync_options \<Rightarrow> 'w \<Rightarrow> string \<Rightarrow> bool" where
  "identical opts w k \<longleftrightarrow> (\<exists>d e. view_s w k = Some d \<and> view_d w k = Some e \<and>
     (if sy_checksum opts then sha256 d = sha256 e
      else length d = length e \<and> \<bar>stamp_s w k - stamp_d w k\<bar> \<le> 1000000000))"

definition mirrored :: "sync_options \<Rightarrow> 'w \<Rightarrow> 'w \<Rightarrow> string \<Rightarrow> bool" where
  "mirrored opts w w' k \<longleftrightarrow> view_d w' k = (if identical opts w k then view_d w k else view_s w k)"

definition preserved :: "'w sync_env \<Rightarrow> sync_options \<Rightarrow> 'w \<Rightarrow> 'w \<Rightarrow> string \<Rightarrow> bool" where
  "preserved E opts w w' k \<longleftrightarrow> (\<forall>e. view_d w k = Some e \<longrightarrow>
     view_d w' k = Some e \<or> (\<exists>v. view_d w' (backup_name opts k (se_stamp E v)) = Some e))"

text \<open>What the two listings of whole stores give.\<close>

definition listings :: "string set \<Rightarrow> 'w \<Rightarrow> 'w \<Rightarrow> object_info list \<Rightarrow> object_info list \<Rightarrow> bool" where
  "listings K w w2 srcs dsts \<longleftrightarrow>
     both K w2 \<and> calm w w2 \<and> distinct (map oi_path srcs) \<and> distinct (map oi_path dsts) \<and>
     (\<forall>k n. (\<exists>ob \<in> set srcs. \<not> oi_isdir ob \<and> oi_path ob = k \<and> oi_size ob = n) \<longleftrightarrow>
        (\<exists>d. view_s w k = Some d \<and> n = int (length d))) \<and>
     (\<forall>k n. (\<exists>ob \<in> set dsts. \<not> oi_isdir ob \<and> oi_path ob = k \<and> oi_size ob = n) \<longleftrightarrow>
        (\<exists>d. view_d w k = Some d \<and> n = int (length d))) \<and>
     (\<forall>ob \<in> set srcs. \<not> oi_isdir ob \<longrightarrow> oi_modtime ob = stamp_s w (oi_path ob)) \<and>
     (\<forall>ob \<in> set dsts. \<not> oi_isdir ob \<longrightarrow> oi_modtime ob = stamp_d w (oi_path ob))"

lemma listingsD:
  assumes "listings K w w2 srcs dsts"
  shows "both K w2" "calm w w2" "distinct (map oi_path srcs)" "distinct (map oi_path dsts)"
    "(\<exists>ob \<in> set srcs. \<not> oi_isdir ob \<and> oi_path ob = k \<and> oi_size ob = n) \<longleftrightarrow> (\<exists>d. view_s w k = Some d \<and> n = int (length d))"
    "(\<exists>ob \<in> set dsts. \<not> oi_isdir ob \<and> oi_path ob = k \<and> oi_size ob = n) \<longleftrightarrow> (\<exists>d. view_d w k = Some d \<and> n = int (length d))"
    "(\<forall>ob \<in> set srcs. \<not> oi_isdir ob \<longrightarrow> oi_modtime ob = stamp_s w (oi_path ob))"
    "(\<forall>ob \<in> set dsts. \<not> oi_isdir ob \<longrightarrow> oi_modtime ob = stamp_d w (oi_path ob))"
  using assms unfolding listings_def by blast+

text \<open>A finished task leaves its file mirrored and the displaced file preserved.\<close>

lemma task_mirrored:
  assumes go: "good_opts E opts" and gn: "good_names E opts w K" and ls: "listings K w w2 srcs dsts"
    and fin: "\<And>t. t \<in> set (start_tasks '''' '''' opts srcs) \<Longrightarrow> finished (start_job E S D '''' opts dsts) w2 t w3"
    and k: "k \<in> source_names opts w" and near: "\<bar>stamp_s w k - stamp_d w k\<bar> < 2 ^ 62"
  shows "mirrored opts w w3 k \<and> view_d w3 k \<noteq> None \<and> (\<not> sy_no_backup opts \<longrightarrow> preserved E opts w w3 k)"
proof -
  let ?J = "start_job E S D '''' opts dsts" and ?T = "start_tasks '''' '''' opts srcs"
  note sg = start_good [OF go gn listingsD [OF ls]]
  have opts: "jb_opts ?J = opts" "jb_env ?J = E" by (simp_all add: start_job_def)
  have v2: "view_s w2 = view_s w" "view_d w2 = view_d w" using listingsD(2) [OF ls] by (simp_all add: calm_def)
  obtain t where t: "t \<in> set ?T" "k = tk_dest t" using k sg(2) by auto
  obtain d where d: "view_s w k = Some d" using k by (auto simp: source_names_def)
  have ct: "content w2 t = d" using sg(3) [OF t(1)] t(2) d v2 by (simp add: content_def)
  have id: "same ?J w2 t \<longleftrightarrow> identical opts w k"
  proof (cases "existing ?J t")
    case None
    then show ?thesis using sg(5) [OF t(1)] t(2) by (auto simp: same_def identical_def)
  next
    case (Some di)
    then obtain e where e: "view_d w k = Some e" using sg(5) [OF t(1)] t(2) by auto
    have z: "oi_size di = int (length e)" "oi_size (tk_obj t) = int (length d)"
      using sg(4) [OF t(1) Some] e t(2) good_task(1) [OF sg(1) t(1)] sg(3) [OF t(1)] d v2 by auto
    have m: "oi_modtime di = stamp_d w k" "oi_modtime (tk_obj t) = stamp_s w k"
      using sg(7) [OF t(1) Some] sg(6) [OF t(1)] t(2) by simp_all
    have "compare_meta (se_wide E) (tk_obj t) di = DiffStatusIdentical \<longleftrightarrow> length d = length e \<and> \<bar>stamp_s w k - stamp_d w k\<bar> \<le> 1000000000"
      using compare_meta_identical [of "tk_obj t" di "se_wide E"] near z m by simp
    then show ?thesis using Some e d ct t(2) v2 by (simp add: same_def identical_def opts)
  qed
  consider (new) "view_d w3 k = Some d" "backed ?J w2 t w3" "\<not> same ?J w2 t" | (old) "view_d w3 k = view_d w k" "same ?J w2 t"
    using fin [OF t(1)] t(2) ct v2 by (auto simp: finished_def untouched_def)
  then show ?thesis
  proof cases
    case new
    have "preserved E opts w w3 k" if nb: "\<not> sy_no_backup opts"
      unfolding preserved_def
    proof (intro allI impI)
      fix e assume e: "view_d w k = Some e"
      then have "keeps_backup ?J t" using sg(5) [OF t(1)] t(2) nb by (simp add: keeps_backup_def opts)
      then obtain v where "view_d w3 (backup_path ?J t v) = view_d w2 (tk_dest t)" using new(2) by (auto simp: backed_def)
      then show "view_d w3 k = Some e \<or> (\<exists>v. view_d w3 (backup_name opts k (se_stamp E v)) = Some e)"
        using e t(2) v2 by (auto simp: backup_path_def opts)
    qed
    then show ?thesis using new(1,3) d id by (simp add: mirrored_def)
  next
    case old
    then show ?thesis using id by (auto simp: mirrored_def preserved_def identical_def)
  qed
qed

text \<open>What the workers do not write stays.\<close>

lemma run_names_only:
  assumes "good_opts E opts" "tk_dest ` set T = source_names opts w"
    and "k \<in> run_names (start_job E S D '''' opts dsts) T" "\<not> in_conflict_dir (conflict_dir_of opts) k"
  shows "k \<in> source_names opts w"
proof -
  have "in_conflict_dir (conflict_dir_of opts) (backup_name opts x s)" for x s
    using backup_in_conflict_dir assms(1) by (simp add: good_opts_def)
  then show ?thesis using assms(2-4) by (auto simp: run_names_def backup_path_def start_job_def)
qed

text \<open>The removals after the run.\<close>

lemma removals_ok:
  assumes go: "good_opts E opts" and gn: "good_names E opts w K" and ls: "listings K w w2 srcs dsts"
    and keep: "set keep = source_names opts w" and b: "both K w3"
    and here: "\<And>k. k \<in> source_names opts w \<Longrightarrow> view_d w3 k \<noteq> None"
    and off: "\<And>k. k \<notin> source_names opts w \<Longrightarrow> \<not> in_conflict_dir (conflict_dir_of opts) k \<Longrightarrow> view_d w3 k = view_d w k"
  defines "J \<equiv> start_job E S D '''' opts dsts"
  shows "\<exists>w4 s4. (if sy_delete opts then delete_phase J background 0 keep (se_order E (jb_dest J)) st w3 else (w3, Ok st)) = (w4, Ok s4)
    \<and> both K w4 \<and> view_s w4 = view_s w3
    \<and> (\<forall>x. view_d w4 x = (if sy_delete opts \<and> view_d w x \<noteq> None \<and> \<not> in_conflict_dir (conflict_dir_of opts) x \<and> x \<notin> source_names opts w
          then None else view_d w3 x))"
proof (cases "sy_delete opts")
  case True
  let ?c = "conflict_dir_of opts" and ?dm = "se_order E (jb_dest J)"
  have e0: "trim_slashes (slashed '''') = ''''" by code_simp
  have J: "jb_dst J = D" "\<not> sy_dry_run (jb_opts J)" using go by (simp_all add: J_def start_job_def good_opts_def)
  have "mset ?dm = mset (dest_map ?c '''' dsts)" using go by (simp add: good_opts_def J_def start_job_def e0)
  note dm = dest_order [OF listingsD(4) [OF ls] this]
  have dkeys: "k \<in> set (map fst ?dm) \<longleftrightarrow> view_d w k \<noteq> None \<and> \<not> in_conflict_dir ?c k" for k
  proof -
    have "k \<in> set (map fst ?dm) \<longleftrightarrow> (\<exists>ob. (k, ob) \<in> set ?dm)" by force
    also have "\<dots> \<longleftrightarrow> (\<exists>n. \<exists>ob \<in> set dsts. \<not> oi_isdir ob \<and> oi_path ob = k \<and> oi_size ob = n) \<and> \<not> in_conflict_dir ?c k"
      unfolding dm(2) by blast
    also have "\<dots> \<longleftrightarrow> view_d w k \<noteq> None \<and> \<not> in_conflict_dir ?c k" unfolding listingsD(6) [OF ls] by blast
    finally show ?thesis .
  qed
  have dok: "oi_path ob = rel \<and> view_d w3 rel \<noteq> None \<and> rel \<in> K" if "(rel, ob) \<in> set ?dm" for rel ob
  proof -
    have k: "view_d w rel \<noteq> None" "\<not> in_conflict_dir ?c rel" using dkeys [of rel] that by force+
    have "view_d w3 rel \<noteq> None" using here off [OF _ k(2)] k(1) by (cases "rel \<in> source_names opts w") simp_all
    moreover have "rel \<in> K" using k(1) gn unfolding good_names_def by blast
    ultimately show ?thesis using that dm(2) by blast
  qed
  obtain w4 s4 where "delete_phase J background 0 keep ?dm st w3 = (w4, Ok s4)" "both K w4" "view_s w4 = view_s w3"
    "\<forall>x. view_d w4 x = (if x \<in> set (map fst ?dm) - set keep then None else view_d w3 x)"
    using delete_phase_ok [OF b dm(1) dok J, of 0 keep st] by blast
  then show ?thesis using True unfolding Diff_iff dkeys keep by (intro exI [of _ w4] exI [of _ s4]) simp
next
  case False
  then show ?thesis using b by (intro exI [of _ w3] exI [of _ st]) simp
qed

text \<open>
  The synchronisation of whole stores under any schedule: it returns without an error, the source
  is as it was, and each destination name is mirrored, preserved, removed or left alone.
\<close>

lemma sync_mirrors:
  assumes w: "inv_s w" "inv_d w" "room w K" "pre_s '''' = ''''" "pre_d '''' = ''''"
    and nr: "\<not> recursive_sync S '''' D ''''" and go: "good_opts E opts" and gn: "good_names E opts w K"
    and near: "\<forall>k \<in> source_names opts w. \<bar>stamp_s w k - stamp_d w k\<bar> < 2 ^ 62"
    and cx: "\<forall>k. cxs k = background"
  shows "\<exists>w' s. sync E pick background cxs background S '''' D '''' opts w = (w', Ok s) \<and> both K w' \<and> view_s w' = view_s w
    \<and> (\<forall>k \<in> source_names opts w. mirrored opts w w' k \<and> (\<not> sy_no_backup opts \<longrightarrow> preserved E opts w w' k))
    \<and> (\<forall>k. k \<notin> source_names opts w \<and> \<not> in_conflict_dir (conflict_dir_of opts) k \<longrightarrow>
          view_d w' k = (if sy_delete opts then None else view_d w k))"
proof -
  obtain w1 w2 srcs dsts where l: "dr_list S background '''' w = (w1, Ok srcs)" "dr_list D background '''' w1 = (w2, Ok dsts)"
    and ls: "listings K w w2 srcs dsts" using files_of_listing [OF w] unfolding listings_def by blast
  let ?c = "conflict_dir_of opts"
  let ?J = "start_job E S D '''' opts dsts" and ?T = "start_tasks '''' '''' opts srcs" and ?st = "start_state S '''' D '''' opts srcs w2"
  note sg = start_good [OF go gn listingsD [OF ls]]
  have e0: "trim_slashes (slashed '''') = ''''" by code_simp
  have opts: "jb_opts ?J = opts" "jb_env ?J = E" by (simp_all add: start_job_def)
  have v2: "view_s w2 = view_s w" "view_d w2 = view_d w" using listingsD(2) [OF ls] by (simp_all add: calm_def)
  obtain ss p1 w3 where r: "run_pool (pool_weight ?st) pick cxs ?J 0 ?st = (ss, p1, w3)" by (rule prod_cases3)
  have st: "?st = (replicate (worker_count (sy_workers opts) (length ?T)) Idle, start_pool S '''' D '''' opts srcs, w2)"
    "pl_queue (start_pool S '''' D '''' opts srcs) = ?T" "pl_err (start_pool S '''' D '''' opts srcs) = None"
    by (simp_all add: start_state_def start_pool_def)
  note m = run_mirrors [OF sg(1) cx worker_count_pos st(2,3) r [unfolded st(1)]]
  have mir: "mirrored opts w w3 k" "view_d w3 k \<noteq> None" "\<not> sy_no_backup opts \<Longrightarrow> preserved E opts w w3 k"
    if "k \<in> source_names opts w" for k
    using task_mirrored [OF go gn ls m(4) that] near that by blast+
  have off: "view_d w3 k = view_d w k" if "k \<notin> source_names opts w" "\<not> in_conflict_dir ?c k" for k
    using m(5) [of k] run_names_only [OF go sg(2), of k] that v2(2) by auto
  have "tk_rel ` set ?T = tk_dest ` set ?T" by (rule image_cong [OF refl]) (rule conjunct2 [OF sg(3)])
  then have keep: "set (map tk_rel ?T) = source_names opts w" using sg(2) by simp
  obtain w4 s4 where d4: "(if sy_delete opts then delete_phase ?J background 0 (map tk_rel ?T) (se_order E (jb_dest ?J)) (pl_stats p1) w3
      else (w3, Ok (pl_stats p1))) = (w4, Ok s4)"
    and b4: "both K w4" "view_s w4 = view_s w3"
    and v4: "\<And>x. view_d w4 x = (if sy_delete opts \<and> view_d w x \<noteq> None \<and> \<not> in_conflict_dir ?c x \<and> x \<notin> source_names opts w then None else view_d w3 x)"
    using removals_ok [OF go gn ls keep m(2) mir(2) off] by blast
  have "sync E pick background cxs background S '''' D '''' opts w =
      (w4, Ok (s4\<lparr>st_duration := time_sub (se_now E w4) (se_now E w)\<rparr>))"
    using nr l r m(1) d4 by (simp add: sync_def e0 Sync_Engine.listed_def sync_finish_def opts split: if_splits)
  moreover have "view_s w4 = view_s w" using b4(2) m(3) v2(1) by simp
  moreover have "mirrored opts w w4 k \<and> (\<not> sy_no_backup opts \<longrightarrow> preserved E opts w w4 k)" if k: "k \<in> source_names opts w" for k
  proof -
    have "in_conflict_dir ?c (backup_name opts k s)" for s using backup_in_conflict_dir go by (simp add: good_opts_def)
    then have "view_d w4 k = view_d w3 k" "view_d w4 (backup_name opts k s) = view_d w3 (backup_name opts k s)" for s
      using v4 k by simp_all
    then show ?thesis using mir(1,3) [OF k] by (simp add: mirrored_def preserved_def)
  qed
  moreover have "view_d w4 k = (if sy_delete opts then None else view_d w k)"
    if "k \<notin> source_names opts w" "\<not> in_conflict_dir ?c k" for k
    using v4 [of k] off [OF that] that by auto
  ultimately show ?thesis using b4(1) by blast
qed

end

end
