(* ===== verification/Sync_Upload.thy ===== *)
theory Sync_Upload
  imports Sync_Stores
begin

text \<open>
  A driver put into a larger world, and \<open>sync_stores\<close> on the model's own drivers: the local driver
  over a directory as the source and the S3 driver over a bucket of the server as the destination.
\<close>

declare background_simp [simp del]

section \<open>A driver in a larger world\<close>

lemma on_part_ok: "f (get w) = (a, r) \<Longrightarrow> on_part get put f w = (put a w, r)"
  by (simp add: on_part_def)

lemma on_part_frame: "on_part get put f w = (w1, r) \<Longrightarrow> \<exists>a. f (get w) = (a, r) \<and> w1 = put a w"
  by (auto simp: on_part_def split: prod.splits)

lemma embed_object_store:
  assumes "object_store D I key pre view plain small" and gp: "\<And>a w. get (put a w) = a"
  shows "object_store (embed get put D) (\<lambda>w. I (get w)) key pre (\<lambda>w. view (get w)) (\<lambda>w. plain (get w)) small"
proof -
  note os = assms(1)
  note laws = object_store.stored_key [OF os] object_store.stored_plain [OF os]
  show ?thesis
  proof (unfold_locales, goal_cases)
    case (1 w k d)
    then show ?case by (rule laws)
  next
    case (2 w k d)
    then show ?case by (rule laws)
  next
    case (3 w p k d)
    from object_store.read_hit [OF os 3] show ?case by (fastforce simp: embed_def gp dest: on_part_ok [where put = put])
  next
    case (4 w p k)
    from object_store.read_miss [OF os 4] show ?case by (fastforce simp: embed_def gp dest: on_part_ok [where put = put])
  next
    case (5 w p k d)
    from object_store.stat_hit [OF os 5] show ?case by (fastforce simp: embed_def gp dest: on_part_ok [where put = put])
  next
    case (6 w p k)
    from object_store.stat_miss [OF os 6] show ?case by (fastforce simp: embed_def gp dest: on_part_ok [where put = put])
  next
    case (7 w p k d)
    from object_store.write_full [OF os 7] show ?case by (fastforce simp: embed_def gp dest: on_part_ok [where put = put])
  next
    case (8 w p k)
    from object_store.delete_plain [OF os 8] show ?case by (fastforce simp: embed_def gp dest: on_part_ok [where put = put])
  next
    case (9 w p)
    from object_store.list_files [OF os 9, of p] obtain a obs where
      "dr_list D background p (get w) = (a, Ok obs)" "I a" "view a = view (get w)" "distinct (map oi_path obs)"
      "{(oi_path ob, oi_size ob) |ob. ob \<in> set obs \<and> \<not> oi_isdir ob} = {(k, int (length d)) |k d. view (get w) k = Some d \<and> has_prefix k (pre p)}"
      by blast
    then show ?case by (intro exI [of _ "put a w"] exI [of _ obs]) (simp add: embed_def gp on_part_ok [where put = put])
  qed
qed

section \<open>From a directory to a bucket\<close>

type_synonym upload_world = "fs \<times> s3_server"

definition dir_driver :: "string list \<Rightarrow> nat \<Rightarrow> upload_world driver" where
  "dir_driver r i = embed fst (\<lambda>a w. (a, snd w)) (local_driver (abs_path r) i)"

definition bucket_client :: "(bytes \<Rightarrow> string) \<Rightarrow> int \<Rightarrow> string \<Rightarrow> retry_config list \<Rightarrow> s3_server s3" where
  "bucket_client md5 t b rs = s3_new_with_client (server_client md5 t) b rs"

definition s3_half :: "s3_server s3 \<Rightarrow> nat \<Rightarrow> upload_world driver" where
  "s3_half d j = embed snd (\<lambda>a w. (fst w, a)) (s3_driver d j)"

text \<open>
  The bucket as the listing needs it, within one page, and the room for more names.  A content can
  be uploaded when the numbers of its parts do not wrap around: up to 32 PiB.
\<close>

definition uploadable :: "bytes \<Rightarrow> bool" where
  "uploadable x \<longleftrightarrow> part_count (nat multipart_threshold) (length x) < 2 ^ 31"

lemma uploadable_size: "length x < 2 ^ 54 \<Longrightarrow> uploadable x"
  by (simp add: uploadable_def part_count_def multipart_threshold_def less_mult_imp_div_less)

definition bucket_inv :: "s3_server s3 \<Rightarrow> string \<Rightarrow> s3_server \<Rightarrow> bool" where
  "bucket_inv d b s \<longleftrightarrow> server_live s \<and> int (server_busy s) \<le> rc_max_retries (s3_retry d) \<and> finite (dom (server_objs b s))
     \<and> card (dom (server_objs b s)) \<le> 1000 \<and> (\<forall>k x. server_objs b s k = Some x \<longrightarrow> s3_key k = Some k)"

definition bucket_plain :: "string \<Rightarrow> s3_server \<Rightarrow> string \<Rightarrow> bool" where
  "bucket_plain b s k \<longleftrightarrow> card (insert k (dom (server_objs b s))) \<le> 1000"

definition bucket_room :: "string \<Rightarrow> s3_server \<Rightarrow> string set \<Rightarrow> bool" where
  "bucket_room b s K \<longleftrightarrow> finite K \<and> card (dom (server_objs b s) \<union> K) \<le> 1000"

lemma bucket_room_plain: "bucket_inv d b s \<Longrightarrow> bucket_room b s K \<Longrightarrow> k \<in> K \<Longrightarrow> bucket_plain b s k"
proof -
  assume h: "bucket_inv d b s" "bucket_room b s K" "k \<in> K"
  then have "card (insert k (dom (server_objs b s))) \<le> card (dom (server_objs b s) \<union> K)"
    by (intro card_mono) (auto simp: bucket_inv_def bucket_room_def)
  then show "bucket_plain b s k" using h(2) by (simp add: bucket_room_def bucket_plain_def)
qed

lemma storable_no_limits: "storable no_limits th x \<longleftrightarrow> part_count th (length x) < 2 ^ 31"
  by (simp add: storable_def no_limits_def)

lemma bucket_store:
  "object_store (s3_driver (bucket_client md5 t b rs) j) (bucket_inv (bucket_client md5 t b rs) b) s3_key s3_clean_key
     (server_objs b) (bucket_plain b) uploadable"
proof -
  have th: "s3_threshold (s3_new_with_client (server_client md5 t) b rs) = multipart_threshold"
    by (simp add: s3_new_with_client_def)
  have sm: "storable no_limits (nat multipart_threshold) = uploadable"
    by (simp add: fun_eq_iff storable_no_limits uploadable_def)
  have lk: "lim_key no_limits = \<infinity>" by (simp add: no_limits_def)
  have vk: "valid_key no_limits k \<longleftrightarrow> k \<noteq> ''''" for k by (simp add: valid_key_def no_limits_def)
  have "suited no_limits multipart_threshold" by (simp add: suited_def no_limits_def multipart_threshold_def)
  then have "s3_fs.store_inv md5 t b rs = bucket_inv (bucket_client md5 t b rs) b"
    unfolding s3_fs.store_inv_def srv.patient_def bucket_inv_def page_limit_def th sm vk bucket_client_def
    by (auto simp: s3_new_with_client_def fun_eq_iff s3_key_Some)
  moreover have "s3_store.store_plain no_limits (server_objs b) = bucket_plain b"
    by (simp add: s3_fs.store_plain_def page_limit_def fun_eq_iff lk bucket_plain_def)
  ultimately show ?thesis using s3_fs.is_object_store [of md5 t b rs j] by (simp add: bucket_client_def th sm)
qed

lemma bucket_room_write:
  assumes "bucket_inv (bucket_client md5 t b rs) b s" "bucket_room b s K" "s3_key p = Some k" "k \<in> K" "uploadable d"
    and "s3_write (bucket_client md5 t b rs) background p (bytes_reader d) (int (length d)) s = (s1, u)"
  shows "bucket_room b s1 K"
proof -
  have pl: "bucket_plain b s k" by (rule bucket_room_plain [OF assms(1,2,4)])
  obtain v where "s3_write (bucket_client md5 t b rs) background p (bytes_reader d) (int (length d)) s = (v, Ok ())"
    "server_objs b v = (server_objs b s)(k \<mapsto> d)"
    using object_store.write_full [OF bucket_store assms(1,3) pl assms(5)] by (auto simp: s3_driver_def)
  then have "server_objs b s1 = (server_objs b s)(k \<mapsto> d)" using assms(6) by simp
  then show ?thesis using assms(2,4) by (simp add: bucket_room_def insert_absorb)
qed

lemma bucket_room_delete:
  assumes "bucket_inv (bucket_client md5 t b rs) b s" "bucket_room b s K" "s3_key p = Some k" "k \<in> K"
    and "s3_delete (bucket_client md5 t b rs) background p s = (s1, u)"
  shows "bucket_room b s1 K"
proof -
  have pl: "bucket_plain b s k" by (rule bucket_room_plain [OF assms(1,2,4)])
  obtain v where "s3_delete (bucket_client md5 t b rs) background p s = (v, Ok ())"
    "server_objs b v = (server_objs b s)(k := None)"
    using object_store.delete_plain [OF bucket_store assms(1,3) pl] by (auto simp: s3_driver_def)
  then have "server_objs b s1 = (server_objs b s)(k := None)" using assms(5) by simp
  then have "dom (server_objs b s1) \<union> K \<subseteq> dom (server_objs b s) \<union> K" by auto
  moreover have "finite (dom (server_objs b s) \<union> K)" using assms(1,2) by (simp add: bucket_inv_def bucket_room_def)
  ultimately have "card (dom (server_objs b s1) \<union> K) \<le> card (dom (server_objs b s) \<union> K)" by (rule card_mono [rotated])
  then show ?thesis using assms(2) by (simp add: bucket_room_def)
qed

lemma execute_keeps:
  "(\<And>w. same_content w (fst (act w))) \<Longrightarrow> same_content w (fst (execute_with_retry cx cfg act w))"
  using retry_loop_keeps [of act] by (simp add: execute_with_retry_def)

lemma server_asks:
  "same_content w (fst (sc_get (server_client md5 t) b k w))"
  "same_content w (fst (sc_head (server_client md5 t) b k w))"
  "same_content w (fst (sc_list (server_client md5 t) b q w))"
  by (auto simp: server_client_def keyed_def handle_get_def handle_head_def handle_list_def Let_def intro!: served_keeps)

lemma bucket_asks:
  "same_content s (fst (s3_read (bucket_client md5 t b rs) cx p s))"
  "same_content s (fst (s3_stat (bucket_client md5 t b rs) cx p s))"
  "same_content s (fst (s3_list (bucket_client md5 t b rs) cx p s))"
proof -
  let ?d = "bucket_client md5 t b rs"
  have d: "s3_client ?d = server_client md5 t" "s3_bucket ?d = b" by (simp_all add: bucket_client_def s3_new_with_client_def)
  have "fst (s3_read ?d cx p s) = fst (execute_with_retry cx (s3_retry ?d) (sc_get (s3_client ?d) (s3_bucket ?d) (s3_clean_key p)) s)"
    by (auto simp: s3_read_def split: prod.split sum.split option.split)
  then show "same_content s (fst (s3_read ?d cx p s))" by (simp add: d execute_keeps server_asks)
  have "fst (s3_stat ?d cx p s) = fst (execute_with_retry cx (s3_retry ?d) (sc_head (s3_client ?d) (s3_bucket ?d) (s3_clean_key p)) s)"
    by (auto simp: s3_stat_def Let_def split: prod.split sum.split option.split)
  then show "same_content s (fst (s3_stat ?d cx p s))" by (simp add: d execute_keeps server_asks)
  have "fst (s3_list ?d cx p s) = fst (execute_with_retry cx (s3_retry ?d) (sc_list (s3_client ?d) (s3_bucket ?d) (s3_list_request (list_all_under p))) s)"
    by (auto simp: s3_list_def s3_list_with_options_def split: prod.split sum.split option.split)
  then show "same_content s (fst (s3_list ?d cx p s))" by (simp add: d execute_keeps server_asks)
qed

lemma same_content_objs: "same_content s u \<Longrightarrow> server_objs b u = server_objs b s"
  by (simp add: same_content_def server_objs_def fun_eq_iff)

text \<open>The times the listings show: those of the files, and the one of the bucket's listing.\<close>

definition local_time :: "string list \<Rightarrow> fs \<Rightarrow> string \<Rightarrow> int" where
  "local_time r w k = (case map_of (nodes w) (r @ split_on (CHR ''/'') k) of Some nd \<Rightarrow> node_mtime nd | None \<Rightarrow> 0)"

lemma local_list_times:
  assumes "local_inv r w" "local_list (abs_path r) background p w = (w1, Ok obs)" "ob \<in> set obs"
  shows "oi_modtime ob = local_time r w (oi_path ob)"
proof -
  note pw = local_invD(1) [OF assms(1)]
  have "is_dir (node_at (nodes w) r)" using plain_worldD(4) [OF pw] by (auto simp: real_dir_def)
  then have nr: "node_at (nodes w) r \<noteq> None" by (cases "node_at (nodes w) r") simp_all
  have "obs = sort_objects (local_objects r (list_prefix p) (nodes w))"
    using local_list_plain [OF assms(1), of p] assms(2) by auto
  then have "ob \<in> set (local_objects r (list_prefix p) (nodes w))" using assms(3) by (simp add: sort_objects_def)
  then obtain cs m where x: "cs \<noteq> []" "map_of (nodes w) (r @ cs) = Some m" "ob = node_object r (r @ cs, m)"
    unfolding local_objects_set [OF plain_worldD(1) [OF pw] nr] by blast
  have "split_on (CHR ''/'') (join_with ''/'' cs) = cs" by (rule key_comps [OF local_invD(2) [OF assms(1) x(2)] x(1)])
  then show ?thesis using x by (simp add: local_time_def node_object_def)
qed

lemma bucket_list_times:
  assumes "s3_list (bucket_client md5 t b rs) background p s = (s1, Ok obs)" "ob \<in> set obs"
  shows "oi_modtime ob = t"
proof -
  let ?d = "bucket_client md5 t b rs"
  let ?op = "sc_list (server_client md5 t) b (s3_list_request (list_all_under p))"
  have d: "s3_client ?d = server_client md5 t" "s3_bucket ?d = b" by (simp_all add: bucket_client_def s3_new_with_client_def)
  obtain out where out: "execute_with_retry background (s3_retry ?d) ?op s = (s1, Ok (Some out))"
    "obs = map s3_listed_object (so_contents out) @ map s3_prefix_object (so_prefixes out)"
    using assms(1) d by (auto simp: s3_list_def s3_list_with_options_def split: prod.splits sum.splits option.splits)
  then obtain v where "?op v = (s1, Ok out)"
    using retry_loop_result [of _ 0 background ?op s s1 "Some out"] by (auto simp: execute_with_retry_def split: if_splits)
  then have "so_prefixes out = []" "\<forall>c \<in> set (so_contents out). sl_modtime c = Some t"
    by (auto simp: server_client_def served_def handle_list_def Let_def split: if_splits)
  then show ?thesis using assms(2) out(2) by (auto simp: s3_listed_object_def)
qed

interpretation up: sync_stores "dir_driver r i" "\<lambda>w. local_inv r (fst w)" local_key list_prefix
    "\<lambda>w. local_view r (fst w)" "\<lambda>w. local_plain r (fst w)" "\<lambda>x. True"
    "s3_half (bucket_client md5 t b rs) j" "\<lambda>w. bucket_inv (bucket_client md5 t b rs) b (snd w)" s3_key s3_clean_key
    "\<lambda>w. server_objs b (snd w)" "\<lambda>w. bucket_plain b (snd w)" uploadable "\<lambda>w. bucket_room b (snd w)"
    "\<lambda>w. local_time r (fst w)" "\<lambda>w k. t"
  for r i md5 t b rs j
proof (intro sync_stores.intro sync_stores_axioms.intro, goal_cases)
  case 1
  show ?case unfolding dir_driver_def by (rule embed_object_store [OF local_object_store]) simp
next
  case 2
  show ?case unfolding s3_half_def by (rule embed_object_store [OF bucket_store]) simp
next
  case (3 w p w1 q l)
  then show ?case by (auto simp: dir_driver_def embed_def dest!: on_part_frame)
next
  case (4 w p w1 q l m)
  have "fst w1 = fst w \<and> same_content (snd w) (snd w1)"
    using 4(3) bucket_asks [of "snd w" md5 t b rs background p]
    by (auto simp: s3_half_def s3_driver_def embed_def dest!: on_part_frame)
  moreover from this have "server_objs b (snd w1) = server_objs b (snd w)" using same_content_objs by blast
  ultimately show ?case using 4(1) by (auto intro!: ext simp: bucket_room_def)
next
  case (5 w p rd n w1 u)
  then show ?case by (auto simp: s3_half_def embed_def dest!: on_part_frame)
next
  case (6 w K k)
  then show ?case by (rule bucket_room_plain)
next
  case (7 w K p k d w1 u)
  then show ?case by (auto simp: s3_half_def s3_driver_def embed_def dest!: on_part_frame intro: bucket_room_write)
next
  case (8 w K p k w1 u)
  then show ?case by (auto simp: s3_half_def s3_driver_def embed_def dest!: on_part_frame intro: bucket_room_delete)
next
  case (9 w w1 obs ob)
  then show ?case by (auto simp: dir_driver_def embed_def local_driver_def dest!: on_part_frame local_list_times)
next
  case (10 w w1 obs ob)
  then show ?case by (auto simp: s3_half_def s3_driver_def embed_def dest!: on_part_frame bucket_list_times)
qed

lemma s3_key_plain:
  assumes "s3_key k = Some k"
  shows "CHR 0x5C \<notin> set k" "\<not> has_prefix k ''/''"
proof -
  have k: "trim_prefix (slashed k) ''/'' = k" using assms by (simp add: s3_key_Some s3_clean_key_def)
  have "CHR 0x5C \<notin> set (slashed k)" by (auto simp: replace_char_def)
  moreover have "set (trim_prefix (slashed k) ''/'') \<subseteq> set (slashed k)" by (simp add: trim_prefix_def set_drop_subset)
  ultimately show "CHR 0x5C \<notin> set k" unfolding k by blast
  then have "slashed k = k" by (rule replace_char_id)
  then show "\<not> has_prefix k ''/''" using k by (cases k) (auto simp: trim_prefix_def has_prefix_def split: if_splits)
qed

text \<open>The names a synchronisation of the directory writes are keys of the bucket with room for them, and the contents can be uploaded.\<close>

definition upload_names :: "upload_world sync_env \<Rightarrow> sync_options \<Rightarrow> string list \<Rightarrow> string \<Rightarrow> string set \<Rightarrow> upload_world \<Rightarrow> bool" where
  "upload_names E opts r b K w \<longleftrightarrow> bucket_room b (snd w) K \<and> dom (server_objs b (snd w)) \<subseteq> K \<and>
     (\<forall>k. local_view r (fst w) k \<noteq> None \<and> \<not> in_conflict_dir (conflict_dir_of opts) k \<longrightarrow> s3_key k = Some k \<and> k \<in> K \<and>
        uploadable (the (local_view r (fst w) k)) \<and> (\<forall>e. server_objs b (snd w) k = Some e \<longrightarrow> uploadable e) \<and>
        (\<forall>v. s3_key (backup_name opts k (se_stamp E v)) = Some (backup_name opts k (se_stamp E v)) \<and>
             backup_name opts k (se_stamp E v) \<in> K))"

text \<open>A directory with the file \<open>a/f\<close> and a bucket with another one and an old object, busy for two requests.\<close>

definition upload_start :: upload_world where
  "upload_start = (plain_fs, simulate_transient_failures 2
     (new_s3_server\<lparr>sv_buckets := [(''b'', [(''a/f'', [9, 9]), (''old'', [3])])]\<rparr>))"

definition upload_env :: "upload_world sync_env" where
  "upload_env = \<lparr>se_os = fst, se_put_os = (\<lambda>f w. (f, snd w)), se_now = (\<lambda>_. 0), se_stamp = (\<lambda>_. ''20260101T000000Z''),
     se_wide = 0, se_order = (\<lambda>m. m)\<rparr>"

lemma plain_fs_view: "local_view [''srv''] plain_fs k = (if k = ''a/f'' then Some [1, 2] else None)"
proof -
  have m: "map_of (nodes plain_fs) = [[''srv''] \<mapsto> Dir 488 0, [''srv'', ''a''] \<mapsto> Dir 488 0,
      [''srv'', ''a'', ''f''] \<mapsto> File [1, 2] 0 384]"
    by (auto simp: plain_fs_def fun_eq_iff)
  have "split_on (CHR ''/'') ''a/f'' = [''a'', ''f'']" by code_simp
  moreover have "split_on (CHR ''/'') k \<noteq> [''a'', ''f'']" if "k \<noteq> ''a/f''"
  proof
    assume "split_on (CHR ''/'') k = [''a'', ''f'']"
    then have "k = join_with ''/'' [''a'', ''f'']" using join_split [of "CHR ''/''" k] by metis
    then show False using that by simp
  qed
  ultimately show ?thesis unfolding local_view_def m by (cases "k = ''a/f''") simp_all
qed

lemma upload_start_bucket:
  "server_objs ''b'' (snd upload_start) = [''a/f'' \<mapsto> [9, 9], ''old'' \<mapsto> [3]]"
  "bucket_inv (bucket_client md5 t ''b'' []) ''b'' (snd upload_start)"
proof -
  show o: "server_objs ''b'' (snd upload_start) = [''a/f'' \<mapsto> [9, 9], ''old'' \<mapsto> [3]]"
    by (auto simp: server_objs_def bucket_of_def upload_start_def simulate_transient_failures_def new_s3_server_def)
  have "server_live (snd upload_start)" "server_busy (snd upload_start) = 2"
    by (simp_all add: upload_start_def simulate_transient_failures_def new_s3_server_def server_live_def one_each_def
        given_out_def numbered_def server_busy_def)
  moreover have "s3_key ''a/f'' = Some ''a/f''" "s3_key ''old'' = Some ''old''" by code_simp+
  ultimately show "bucket_inv (bucket_client md5 t ''b'' []) ''b'' (snd upload_start)"
    by (simp add: bucket_inv_def o bucket_client_def s3_new_with_client_def default_retry_config_def)
qed

section \<open>Properties\<close>

text \<open>C5: A synchronisation of a whole directory into a bucket, under every schedule of the workers and
  through as many transient refusals as the retries allow, returns without an error and leaves the
  directory as it was.  Every file of the directory is then in the bucket under its name; the object
  the bucket had there stays only when it counts as identical: with \<open>--checksum\<close> when the SHA-256 sums
  are equal, else when the lengths are equal and the time the listing of the bucket shows is within a
  second of the file's.  What a file displaced is in the conflict directory, unless backups are off;
  and with \<open>--delete\<close> the bucket has nothing else outside the conflict directory, without it every
  other object is as before.
\<close>

theorem sync_uploads_directory:
  assumes "local_inv r (fst w)" "bucket_inv (bucket_client md5 t b rs) b (snd w)"
    and "good_opts E opts" "upload_names E opts r b K w" "\<forall>k. cxs k = background"
    and "\<forall>k. local_view r (fst w) k \<noteq> None \<longrightarrow> \<bar>local_time r (fst w) k - t\<bar> < 2 ^ 62"
  shows "\<exists>w' s. sync E pick background cxs background (dir_driver r i) '''' (s3_half (bucket_client md5 t b rs) j) '''' opts w = (w', Ok s)
    \<and> local_view r (fst w') = local_view r (fst w)
    \<and> (\<forall>k x. local_view r (fst w) k = Some x \<and> \<not> in_conflict_dir (conflict_dir_of opts) k \<longrightarrow>
        server_objs b (snd w') k = Some (case server_objs b (snd w) k of
            None \<Rightarrow> x
          | Some e \<Rightarrow>
              if (if sy_checksum opts then sha256 x = sha256 e
                  else length x = length e \<and> \<bar>local_time r (fst w) k - t\<bar> \<le> 1000000000) then e else x) \<and>
        (\<not> sy_no_backup opts \<longrightarrow> (\<forall>e. server_objs b (snd w) k = Some e \<longrightarrow>
           server_objs b (snd w') k = Some e \<or> (\<exists>v. server_objs b (snd w') (backup_name opts k (se_stamp E v)) = Some e))))
    \<and> (\<forall>k. local_view r (fst w) k = None \<and> \<not> in_conflict_dir (conflict_dir_of opts) k \<longrightarrow>
        server_objs b (snd w') k = (if sy_delete opts then None else server_objs b (snd w) k))"
proof -
  have nr: "\<not> recursive_sync (dir_driver r i) '''' (s3_half (bucket_client md5 t b rs) j) ''''"
    by (simp add: recursive_sync_def dir_driver_def s3_half_def embed_def local_driver_def s3_driver_def)
  have pre: "list_prefix '''' = ''''" "s3_clean_key '''' = ''''" by code_simp+
  have gn: "up.good_names r b E opts w K"
    using assms(4) s3_key_plain unfolding up.good_names_def up.source_names_def upload_names_def by blast
  have room: "bucket_room b (snd w) K" using assms(4) by (simp add: upload_names_def)
  have near: "\<forall>k \<in> up.source_names r opts w. \<bar>local_time r (fst w) k - t\<bar> < 2 ^ 62"
    using assms(6) by (simp add: up.source_names_def)
  obtain w' s where
    1: "sync E pick background cxs background (dir_driver r i) '''' (s3_half (bucket_client md5 t b rs) j) '''' opts w = (w', Ok s)"
      "local_view r (fst w') = local_view r (fst w)"
    and 2: "\<forall>k \<in> up.source_names r opts w. up.mirrored r b t opts w w' k \<and> (\<not> sy_no_backup opts \<longrightarrow> up.preserved b E opts w w' k)"
    and 3: "\<forall>k. k \<notin> up.source_names r opts w \<and> \<not> in_conflict_dir (conflict_dir_of opts) k \<longrightarrow>
        server_objs b (snd w') k = (if sy_delete opts then None else server_objs b (snd w) k)"
    using up.sync_mirrors [OF assms(1,2) room pre nr assms(3) gn near assms(5)] by blast
  have 4: "server_objs b (snd w') k = Some (case server_objs b (snd w) k of
            None \<Rightarrow> x
          | Some e \<Rightarrow>
              if (if sy_checksum opts then sha256 x = sha256 e
                  else length x = length e \<and> \<bar>local_time r (fst w) k - t\<bar> \<le> 1000000000) then e else x) \<and>
        (\<not> sy_no_backup opts \<longrightarrow> (\<forall>e. server_objs b (snd w) k = Some e \<longrightarrow>
           server_objs b (snd w') k = Some e \<or> (\<exists>v. server_objs b (snd w') (backup_name opts k (se_stamp E v)) = Some e)))"
    if k: "local_view r (fst w) k = Some x" "\<not> in_conflict_dir (conflict_dir_of opts) k" for k x
  proof -
    have kn: "k \<in> up.source_names r opts w" using k by (simp add: up.source_names_def)
    then have m: "server_objs b (snd w') k = (if up.identical r b t opts w k then server_objs b (snd w) k else Some x)"
      using 2 k(1) unfolding up.mirrored_def by force
    have "\<not> sy_no_backup opts \<Longrightarrow> up.preserved b E opts w w' k" using 2 kn by blast
    moreover have "up.identical r b t opts w k \<longleftrightarrow> (\<exists>e. server_objs b (snd w) k = Some e \<and>
        (if sy_checksum opts then sha256 x = sha256 e else length x = length e \<and> \<bar>local_time r (fst w) k - t\<bar> \<le> 1000000000))"
      using k(1) unfolding up.identical_def by simp
    ultimately show ?thesis using m unfolding up.preserved_def by (auto split: option.splits)
  qed
  have 5: "server_objs b (snd w') k = (if sy_delete opts then None else server_objs b (snd w) k)"
    if "local_view r (fst w) k = None" "\<not> in_conflict_dir (conflict_dir_of opts) k" for k
    using 3 that by (simp add: up.source_names_def)
  show ?thesis using 1 4 5 by blast
qed

text \<open>A run over a file of the length of the object it replaces, which a comparison of lengths alone would keep.\<close>

lemma sync_uploads_directory_witness:
  "\<exists>w' s. sync upload_env (\<lambda>k. 0) background (\<lambda>_. background) background (dir_driver [''srv''] 0) ''''
      (s3_half (bucket_client (\<lambda>_. '''') 5000000000 ''b'' []) 1) '''' (plain_opts\<lparr>sy_delete := True\<rparr>) upload_start = (w', Ok s)
    \<and> server_objs ''b'' (snd w') ''a/f'' = Some [1, 2] \<and> server_objs ''b'' (snd w') ''old'' = None
    \<and> server_objs ''b'' (snd w') ''.conflicts/a/f.20260101T000000Z.conflict'' = Some [9, 9]"
proof -
  let ?o = "plain_opts\<lparr>sy_delete := True\<rparr>" and ?b = "''.conflicts/a/f.20260101T000000Z.conflict''"
  have bn: "backup_name ?o ''a/f'' ''20260101T000000Z'' = ?b" "s3_key ''a/f'' = Some ''a/f''" "s3_key ?b = Some ?b"
    "\<not> in_conflict_dir (conflict_dir_of ?o) ''a/f''" "\<not> in_conflict_dir (conflict_dir_of ?o) ''old''"
    by code_simp+
  have go: "good_opts upload_env ?o"
  proof -
    have "\<not> sy_dry_run ?o" "\<not> rooted (backup_dir ?o)" "trim_slashes (slashed (backup_dir ?o)) \<noteq> ''''" by code_simp+
    then show ?thesis by (simp add: good_opts_def upload_env_def)
  qed
  have st: "se_stamp upload_env v = ''20260101T000000Z''" for v by (simp add: upload_env_def)
  have fs: "fst upload_start = plain_fs" by (simp add: upload_start_def)
  have un: "upload_names upload_env ?o [''srv''] ''b'' {''a/f'', ''old'', ?b} upload_start"
    unfolding upload_names_def bucket_room_def upload_start_bucket st fs plain_fs_view
    using bn by (auto simp: card_insert_if uploadable_size)
  have tm: "local_time [''srv''] (fst upload_start) ''a/f'' = 0"
    unfolding fs by code_simp
  then have near: "\<forall>k. local_view [''srv''] (fst upload_start) k \<noteq> None \<longrightarrow>
      \<bar>local_time [''srv''] (fst upload_start) k - 5000000000\<bar> < 2 ^ 62"
    by (simp add: fs plain_fs_view)
  have "local_inv [''srv''] (fst upload_start)" by (simp add: fs plain_fs_inv)
  from sync_uploads_directory [OF this upload_start_bucket(2) [of "\<lambda>_. ''''" 5000000000] go un _ near, where cxs = "\<lambda>_. background" and pick = "\<lambda>k. 0" and i = 0 and j = 1]
  obtain w' s where r: "sync upload_env (\<lambda>k. 0) background (\<lambda>_. background) background (dir_driver [''srv''] 0) ''''
      (s3_half (bucket_client (\<lambda>_. '''') 5000000000 ''b'' []) 1) '''' ?o upload_start = (w', Ok s)"
    and a: "\<forall>k x. local_view [''srv''] (fst upload_start) k = Some x \<and> \<not> in_conflict_dir (conflict_dir_of ?o) k \<longrightarrow>
        server_objs ''b'' (snd w') k = Some (case server_objs ''b'' (snd upload_start) k of
            None \<Rightarrow> x
          | Some e \<Rightarrow>
              if (if sy_checksum ?o then sha256 x = sha256 e
                  else length x = length e \<and> \<bar>local_time [''srv''] (fst upload_start) k - 5000000000\<bar> \<le> 1000000000) then e else x) \<and>
        (\<not> sy_no_backup ?o \<longrightarrow> (\<forall>e. server_objs ''b'' (snd upload_start) k = Some e \<longrightarrow>
           server_objs ''b'' (snd w') k = Some e \<or> (\<exists>v. server_objs ''b'' (snd w') (backup_name ?o k (se_stamp upload_env v)) = Some e)))"
    and d: "\<forall>k. local_view [''srv''] (fst upload_start) k = None \<and> \<not> in_conflict_dir (conflict_dir_of ?o) k \<longrightarrow>
        server_objs ''b'' (snd w') k = (if sy_delete ?o then None else server_objs ''b'' (snd upload_start) k)"
    by blast
  have co: "\<not> sy_checksum ?o" "\<not> sy_no_backup ?o" "sy_delete ?o" by (simp_all add: plain_opts_def)
  have v: "local_view [''srv''] (fst upload_start) ''a/f'' = Some [1, 2]" "local_view [''srv''] (fst upload_start) ''old'' = None"
    by (simp_all add: fs plain_fs_view)
  have b0: "server_objs ''b'' (snd upload_start) ''a/f'' = Some [9, 9]" by (simp add: upload_start_bucket(1))
  have "server_objs ''b'' (snd w') ''old'' = None" using d v(2) bn(5) co(3) by simp
  moreover have af: "server_objs ''b'' (snd w') ''a/f'' = Some [1, 2]"
    using a [rule_format, of "''a/f''" "[1, 2]"] v(1) bn(4) co(1) b0 tm by simp
  moreover have "server_objs ''b'' (snd w') ?b = Some [9, 9]"
    using a [rule_format, of "''a/f''" "[1, 2]"] v(1) bn(1,4) co(2) b0 af st by auto
  ultimately show ?thesis using r by blast
qed

end
