(* ===== verification/Aes_Gcm.thy ===== *)
theory Aes_Gcm
  imports Sha256 Go_Errors
begin

unbundle bit_operations_syntax

text \<open>
  \<^verbatim>\<open>crypto/aes\<close> and \<^verbatim>\<open>crypto/cipher.NewGCM\<close>, as the vault uses them: the block cipher with
  its key schedule, the counter mode and the tag, with nonces of 12 bytes.  What is proved of them
  is that opening undoes sealing; nothing is claimed about their strength.
\<close>

section \<open>The field of the S-box\<close>

definition xtime :: "byte \<Rightarrow> byte" where
  "xtime a = (if bit a 7 then push_bit 1 a XOR 0x1B else push_bit 1 a)"

fun gf_times :: "nat \<Rightarrow> byte \<Rightarrow> byte \<Rightarrow> byte" where
  "gf_times 0 a b = 0"
| "gf_times (Suc n) a b = (if bit b 0 then a else 0) XOR gf_times n (xtime a) (drop_bit 1 b)"

definition gf_mul :: "byte \<Rightarrow> byte \<Rightarrow> byte" where
  "gf_mul a b = gf_times 8 a b"

text \<open>The inverse is the power 254.\<close>

definition gf_inv :: "byte \<Rightarrow> byte" where
  "gf_inv a =
     (let a2 = gf_mul a a; a4 = gf_mul a2 a2; a8 = gf_mul a4 a4; a16 = gf_mul a8 a8;
          a32 = gf_mul a16 a16; a64 = gf_mul a32 a32; a128 = gf_mul a64 a64
      in gf_mul a128 (gf_mul a64 (gf_mul a32 (gf_mul a16 (gf_mul a8 (gf_mul a4 a2))))))"

definition sbox :: "byte \<Rightarrow> byte" where
  "sbox a =
     (let b = gf_inv a
      in b XOR word_rotl 1 b XOR word_rotl 2 b XOR word_rotl 3 b XOR word_rotl 4 b XOR 0x63)"

section \<open>The block cipher\<close>

text \<open>The key schedule, four bytes to the word: \<open>nk\<close> words of key, \<open>rc\<close> the next round constant.\<close>

definition sub_word :: "bytes \<Rightarrow> bytes" where
  "sub_word w = map sbox w"

definition rot_word :: "bytes \<Rightarrow> bytes" where
  "rot_word w = (case w of [] \<Rightarrow> [] | b # bs \<Rightarrow> bs @ [b])"

definition xor_bytes :: "bytes \<Rightarrow> bytes \<Rightarrow> bytes" where
  "xor_bytes a b = map2 (XOR) a b"

fun expand_key :: "nat \<Rightarrow> nat \<Rightarrow> byte \<Rightarrow> bytes list \<Rightarrow> bytes list" where
  "expand_key 0 nk rc ws = ws"
| "expand_key (Suc n) nk rc ws =
     (let i = length ws; t = last ws;
          t1 = (if i mod nk = 0 then xor_bytes (sub_word (rot_word t)) [rc, 0, 0, 0]
                else if nk > 6 \<and> i mod nk = 4 then sub_word t else t)
      in expand_key n nk (if i mod nk = 0 then xtime rc else rc) (ws @ [xor_bytes (ws ! (i - nk)) t1]))"

fun chunks4 :: "bytes \<Rightarrow> bytes list" where
  "chunks4 (a # b # c # d # r) = [a, b, c, d] # chunks4 r"
| "chunks4 r = []"

fun chunks16 :: "nat \<Rightarrow> bytes list \<Rightarrow> bytes list" where
  "chunks16 0 ws = []"
| "chunks16 (Suc n) ws = concat (take 4 ws) # chunks16 n (drop 4 ws)"

definition aes_rounds :: "bytes \<Rightarrow> nat" where
  "aes_rounds key = length key div 4 + 6"

definition round_keys :: "bytes \<Rightarrow> bytes list" where
  "round_keys key =
     (let nk = length key div 4; nr = aes_rounds key
      in chunks16 (Suc nr) (expand_key (4 * Suc nr - nk) nk 1 (chunks4 key)))"

text \<open>The state is a list of sixteen bytes, column after column.\<close>

definition add_round_key :: "bytes \<Rightarrow> bytes \<Rightarrow> bytes" where
  "add_round_key k s = map (\<lambda>i. s ! i XOR k ! i) [0..<16]"

definition shift_rows :: "bytes \<Rightarrow> bytes" where
  "shift_rows s = map (\<lambda>i. s ! (i mod 4 + 4 * ((i div 4 + i mod 4) mod 4))) [0..<16]"

definition mix_column :: "byte \<Rightarrow> byte \<Rightarrow> byte \<Rightarrow> byte \<Rightarrow> bytes" where
  "mix_column a b c d =
     [xtime a XOR (xtime b XOR b) XOR c XOR d,
      a XOR xtime b XOR (xtime c XOR c) XOR d,
      a XOR b XOR xtime c XOR (xtime d XOR d),
      (xtime a XOR a) XOR b XOR c XOR xtime d]"

definition mix_columns :: "bytes \<Rightarrow> bytes" where
  "mix_columns s =
     concat (map (\<lambda>j. mix_column (s ! (4 * j)) (s ! (4 * j + 1)) (s ! (4 * j + 2)) (s ! (4 * j + 3))) [0..<4])"

fun aes_inner :: "bytes list \<Rightarrow> bytes \<Rightarrow> bytes" where
  "aes_inner [] s = s"
| "aes_inner [k] s = add_round_key k (shift_rows (map sbox s))"
| "aes_inner (k # ks) s = aes_inner ks (add_round_key k (mix_columns (shift_rows (map sbox s))))"

definition aes_encrypt :: "bytes \<Rightarrow> bytes \<Rightarrow> bytes" where
  "aes_encrypt key b =
     (case round_keys key of [] \<Rightarrow> b | k # ks \<Rightarrow> aes_inner ks (add_round_key k b))"

text \<open>\<^verbatim>\<open>aes.NewCipher\<close>.\<close>

definition aes_new_cipher :: "bytes \<Rightarrow> (bytes \<Rightarrow> bytes) res" where
  "aes_new_cipher key =
     (if length key = 16 \<or> length key = 24 \<or> length key = 32 then Ok (aes_encrypt key)
      else Err (ErrText (''crypto/aes: invalid key size '' @ nat_text (length key))))"

section \<open>Counter mode and tag\<close>

definition counter_block :: "bytes \<Rightarrow> nat \<Rightarrow> bytes" where
  "counter_block nonce i = nonce @ word_be (of_nat i)"

definition key_stream :: "(bytes \<Rightarrow> bytes) \<Rightarrow> bytes \<Rightarrow> nat \<Rightarrow> bytes" where
  "key_stream E nonce n = concat (map (\<lambda>i. take 16 (E (counter_block nonce (i + 2)) @ replicate 16 0)) [0..<n])"

definition ctr :: "(bytes \<Rightarrow> bytes) \<Rightarrow> bytes \<Rightarrow> bytes \<Rightarrow> bytes" where
  "ctr E nonce d = xor_bytes d (key_stream E nonce (Suc (length d div 16)))"

definition block_word :: "bytes \<Rightarrow> 128 word" where
  "block_word b = foldl (\<lambda>w x. push_bit 8 w OR ucast x) 0 b"

definition word_block :: "128 word \<Rightarrow> bytes" where
  "word_block w = map (\<lambda>i. ucast (drop_bit (120 - 8 * i) w)) [0..<16]"

text \<open>The product of the field of \<^verbatim>\<open>GHASH\<close>, from the highest bit of \<open>x\<close> down.\<close>

fun ghash_times :: "nat \<Rightarrow> 128 word \<Rightarrow> 128 word \<Rightarrow> 128 word \<Rightarrow> 128 word" where
  "ghash_times 0 x v z = z"
| "ghash_times (Suc n) x v z =
     ghash_times n x (if bit v 0 then drop_bit 1 v XOR push_bit 120 0xE1 else drop_bit 1 v)
       (if bit x n then z XOR v else z)"

definition ghash_mul :: "128 word \<Rightarrow> 128 word \<Rightarrow> 128 word" where
  "ghash_mul x y = ghash_times 128 x y 0"

definition pad16 :: "bytes \<Rightarrow> bytes" where
  "pad16 d = d @ replicate ((16 - length d mod 16) mod 16) 0"

function ghash :: "128 word \<Rightarrow> 128 word \<Rightarrow> bytes \<Rightarrow> 128 word" where
  "ghash h y d = (if d = [] then y else ghash h (ghash_mul (y XOR block_word (take 16 d)) h) (drop 16 d))"
  by pat_completeness auto
termination by (relation "measure (\<lambda>(h, y, d). length d)") auto

declare ghash.simps [simp del]

definition length_block :: "bytes \<Rightarrow> bytes \<Rightarrow> bytes" where
  "length_block a c =
     (let f = (\<lambda>n. let w = (of_nat n :: 64 word) in word_be (ucast (drop_bit 32 w)) @ word_be (ucast w))
      in f (8 * length a) @ f (8 * length c))"

definition gcm_tag :: "(bytes \<Rightarrow> bytes) \<Rightarrow> bytes \<Rightarrow> bytes \<Rightarrow> bytes \<Rightarrow> bytes" where
  "gcm_tag E nonce a c =
     word_block (ghash (block_word (E (replicate 16 0))) 0 (pad16 a @ pad16 c @ length_block a c)
       XOR block_word (E (counter_block nonce 1)))"

definition gcm_seal :: "(bytes \<Rightarrow> bytes) \<Rightarrow> bytes \<Rightarrow> bytes \<Rightarrow> bytes \<Rightarrow> bytes" where
  "gcm_seal E nonce p a = (let c = ctr E nonce p in c @ gcm_tag E nonce a c)"

definition gcm_open :: "(bytes \<Rightarrow> bytes) \<Rightarrow> bytes \<Rightarrow> bytes \<Rightarrow> bytes \<Rightarrow> bytes option" where
  "gcm_open E nonce ct a =
     (if length ct < 16 then None
      else (let c = take (length ct - 16) ct; t = drop (length ct - 16) ct
            in if t = gcm_tag E nonce a c then Some (ctr E nonce c) else None))"

section \<open>Opening undoes sealing\<close>

lemma length_gcm_tag [simp]: "length (gcm_tag E nonce a c) = 16"
  by (simp add: gcm_tag_def word_block_def)

lemma length_key_stream [simp]: "length (key_stream E nonce n) = 16 * n"
proof -
  have "length (take 16 (E (counter_block nonce i) @ replicate 16 0)) = 16" for i by simp
  then show ?thesis by (induction n) (simp_all add: key_stream_def)
qed

lemma xor_bytes_twice: "length d \<le> length k \<Longrightarrow> xor_bytes (xor_bytes d k) k = d"
  unfolding xor_bytes_def
proof (induction d arbitrary: k)
  case (Cons x d)
  then show ?case by (cases k) (auto simp: xor.assoc)
qed simp

lemma enough_blocks: "n \<le> 16 * Suc (n div 16)" for n :: nat
  by presburger

lemma length_ctr [simp]: "length (ctr E nonce d) = length d"
proof -
  have "length d \<le> 16 * Suc (length d div 16)" by (rule enough_blocks)
  then show ?thesis by (simp only: ctr_def xor_bytes_def length_map length_zip length_key_stream min_absorb1)
qed

lemma ctr_twice: "ctr E nonce (ctr E nonce d) = d"
proof -
  have "length d \<le> length (key_stream E nonce (Suc (length d div 16)))"
    unfolding length_key_stream by (rule enough_blocks)
  then have "xor_bytes (xor_bytes d (key_stream E nonce (Suc (length d div 16)))) (key_stream E nonce (Suc (length d div 16))) = d"
    by (rule xor_bytes_twice)
  then show ?thesis unfolding ctr_def [of E nonce "ctr E nonce d"] length_ctr by (simp only: ctr_def)
qed

lemma gcm_open_seal: "gcm_open E nonce (gcm_seal E nonce p a) a = Some p"
  by (simp add: gcm_open_def gcm_seal_def Let_def ctr_twice)

lemma length_gcm_seal [simp]: "length (gcm_seal E nonce p a) = length p + 16"
  by (simp add: gcm_seal_def Let_def)

lemma gcm_seal_inject: "gcm_seal E nonce p a = gcm_seal E nonce q a \<Longrightarrow> p = q"
  by (metis gcm_open_seal option.inject)

end
