(* ===== verification/Vault.thy ===== *)
theory Vault
  imports Aes_Gcm Go_Tree
begin

text \<open>
  \<^verbatim>\<open>pkg/vault/vault.go\<close>: the encrypted file of remote profiles.  Argon2 is a third-party
  package and the JSON form of the profiles is the library's, so both are fields of \<open>vault_env\<close>;
  the wire format, the cipher, the file handling and the operations are written out.  The mutex
  makes each operation one step.
\<close>

section \<open>Profiles and the environment\<close>

record remote_profile =
  rp_name :: string
  rp_type :: string
  rp_endpoint :: string
  rp_region :: string
  rp_bucket :: string
  rp_access_key :: string
  rp_secret_key :: string
  rp_path :: string
  rp_options :: "(string \<times> string) list"

type_synonym profiles = "(string \<times> remote_profile) list"

text \<open>
  \<open>ve_argon2\<close> is \<^verbatim>\<open>argon2.IDKey\<close> of a passphrase, a salt, a time, a memory, a number of
  threads and a key length; it panics for some numbers, so its answer may be an error.
  \<open>ve_unmarshal\<close> gives the map the JSON text denotes, or \<open>None\<close> for the nil map.
\<close>

record vault_env =
  ve_argon2 :: "bytes \<Rightarrow> bytes \<Rightarrow> 32 word \<Rightarrow> 32 word \<Rightarrow> byte \<Rightarrow> nat \<Rightarrow> bytes res"
  ve_marshal :: "profiles \<Rightarrow> bytes res"
  ve_unmarshal :: "bytes \<Rightarrow> profiles option res"
  ve_pid :: nat

definition vault_magic :: string where "vault_magic = ''UNIS''"
definition vault_version :: byte where "vault_version = 1"
definition argon2_time :: "32 word" where "argon2_time = 3"
definition argon2_memory :: "32 word" where "argon2_memory = 65536"
definition argon2_threads :: byte where "argon2_threads = 4"
definition salt_length :: nat where "salt_length = 16"
definition nonce_length :: nat where "nonce_length = 12"
definition derived_key_length :: nat where "derived_key_length = 32"

definition header_length :: nat where
  "header_length = 4 + 1 + 4 + 4 + 1 + salt_length + nonce_length"

definition mem_zero :: "bytes \<Rightarrow> bytes" where
  "mem_zero b = map (\<lambda>_. 0) b"

text \<open>\<^verbatim>\<open>DefaultVaultPath\<close>, given the answer of \<^verbatim>\<open>os.UserHomeDir\<close>.\<close>

definition default_vault_path :: "string res \<Rightarrow> string res" where
  "default_vault_path home = bind_res home (\<lambda>h. Ok (path_join [h, ''.unistorage'', ''vault.enc'']))"

definition derive_key :: "vault_env \<Rightarrow> bytes \<Rightarrow> bytes \<Rightarrow> 32 word \<Rightarrow> 32 word \<Rightarrow> byte \<Rightarrow> bytes res" where
  "derive_key E pass salt t m th = ve_argon2 E pass salt t m th derived_key_length"

text \<open>The data that is authenticated beside the profiles.\<close>

definition vault_aad :: bytes where
  "vault_aad = str_bytes vault_magic @ [vault_version]"

section \<open>Loading\<close>

definition be_at :: "nat \<Rightarrow> bytes \<Rightarrow> 32 word" where
  "be_at i d = be_word (d ! i) (d ! (i + 1)) (d ! (i + 2)) (d ! (i + 3))"

record vault_file =
  vf_time :: "32 word"
  vf_memory :: "32 word"
  vf_threads :: byte
  vf_salt :: bytes
  vf_nonce :: bytes
  vf_cipher :: bytes

definition parse_vault :: "bytes \<Rightarrow> vault_file res" where
  "parse_vault d =
     (if length d < header_length then Err ErrCorruptedVault
      else if take 4 d \<noteq> str_bytes vault_magic then Err ErrCorruptedVault
      else if d ! 4 \<noteq> vault_version
      then Err (errorf_wv ErrCorruptedVault (''unsupported version '' @ nat_text (unat (d ! 4))))
      else Ok \<lparr>vf_time = be_at 5 d, vf_memory = be_at 9 d, vf_threads = d ! 13,
               vf_salt = take salt_length (drop 14 d),
               vf_nonce = take nonce_length (drop (14 + salt_length) d),
               vf_cipher = drop header_length d\<rparr>)"

definition open_vault :: "vault_env \<Rightarrow> bytes \<Rightarrow> bytes \<Rightarrow> profiles option res" where
  "open_vault E pass d =
     bind_res (parse_vault d) (\<lambda>f.
     bind_res (derive_key E pass (vf_salt f) (vf_time f) (vf_memory f) (vf_threads f)) (\<lambda>key.
     case aes_new_cipher key of
       Inl e \<Rightarrow> Err (errorf_w ''cipher init error'' e)
     | Inr c \<Rightarrow>
         (case gcm_open c (vf_nonce f) (vf_cipher f) vault_aad of
            None \<Rightarrow> Err ErrInvalidPassword
          | Some plain \<Rightarrow>
              (case ve_unmarshal E plain of
                 Inl e \<Rightarrow> Err (errorf_w ''failed to unmarshal decrypted vault data'' e)
               | Inr s \<Rightarrow> Ok s))))"

text \<open>A vault file that is not there is an empty vault.\<close>

definition load_store :: "vault_env \<Rightarrow> string \<Rightarrow> bytes \<Rightarrow> fs \<Rightarrow> fs \<times> profiles option res" where
  "load_store E path pass w =
     (case os_read_file path w of
        (w1, Inl n) \<Rightarrow>
          (w1, if n = ENOENT then Ok (Some [])
               else Err (errorf_w ''failed to read vault file'' (os_err ''open'' path n)))
      | (w1, Inr d) \<Rightarrow> (w1, open_vault E pass d))"

section \<open>Saving\<close>

definition vault_header :: "bytes \<Rightarrow> bytes \<Rightarrow> bytes" where
  "vault_header salt nonce =
     str_bytes vault_magic @ [vault_version] @ word_be argon2_time @ word_be argon2_memory @
     [argon2_threads] @ salt @ nonce"

definition vault_temp :: "vault_env \<Rightarrow> string \<Rightarrow> string" where
  "vault_temp E path = path @ ''.tmp.'' @ nat_text (ve_pid E)"

text \<open>The replacement of the file; the deferred removal of the temporary file ignores its error.\<close>

definition replace_vault :: "vault_env \<Rightarrow> string \<Rightarrow> bytes \<Rightarrow> fs \<Rightarrow> fs \<times> unit res" where
  "replace_vault E path payload w =
     (let tmp = vault_temp E path in
      case os_write_file tmp payload 384 w of
        (w1, Inl n) \<Rightarrow> (w1, Err (errorf_w ''failed to write temp vault file'' (os_err ''open'' tmp n)))
      | (w1, Inr _) \<Rightarrow>
          (case os_rename tmp path w1 of
             (w2, Inr _) \<Rightarrow> (fst (os_remove tmp w2), Ok ())
           | (w2, Inl _) \<Rightarrow>
               (case os_rename tmp path (fst (os_remove path w2)) of
                  (w3, Inr _) \<Rightarrow> (fst (os_remove tmp w3), Ok ())
                | (w3, Inl n) \<Rightarrow>
                    (fst (os_remove tmp w3),
                     Err (errorf_w ''atomic vault replacement failed'' (os_err ''rename'' tmp n))))))"

definition write_vault :: "vault_env \<Rightarrow> string \<Rightarrow> bytes \<Rightarrow> fs \<Rightarrow> fs \<times> unit res" where
  "write_vault E path payload w =
     (case os_mkdir_all (path_dir path) 448 w of
        (w1, Inl n) \<Rightarrow> (w1, Err (errorf_w ''failed to create vault directory'' (os_err ''mkdir'' (path_dir path) n)))
      | (w1, Inr _) \<Rightarrow> replace_vault E path payload w1)"

definition save_store :: "vault_env \<Rightarrow> string \<Rightarrow> bytes \<Rightarrow> profiles \<Rightarrow> fs \<Rightarrow> fs \<times> unit res" where
  "save_store E path pass s w =
     (case ve_marshal E s of
        Inl e \<Rightarrow> (w, Err (errorf_w ''failed to marshal vault store'' e))
      | Inr plain \<Rightarrow>
          (case os_rand salt_length w of
             (w1, Inl n) \<Rightarrow> (w1, Err (errorf_w ''failed to generate salt'' (os_err ''read'' ''/dev/urandom'' n)))
           | (w1, Inr salt) \<Rightarrow>
               (case os_rand nonce_length w1 of
                  (w2, Inl n) \<Rightarrow> (w2, Err (errorf_w ''failed to generate nonce'' (os_err ''read'' ''/dev/urandom'' n)))
                | (w2, Inr nonce) \<Rightarrow>
                    (case derive_key E pass salt argon2_time argon2_memory argon2_threads of
                       Inl e \<Rightarrow> (w2, Err e)
                     | Inr key \<Rightarrow>
                         (case aes_new_cipher key of
                            Inl e \<Rightarrow> (w2, Err (errorf_w ''cipher init error'' e))
                          | Inr c \<Rightarrow>
                              write_vault E path (vault_header salt nonce @ gcm_seal c nonce plain vault_aad) w2)))))"

section \<open>The operations\<close>

definition save_remote_bytes :: "vault_env \<Rightarrow> string \<Rightarrow> bytes \<Rightarrow> remote_profile \<Rightarrow> fs \<Rightarrow> fs \<times> unit res" where
  "save_remote_bytes E path pass prof w =
     (case load_store E path pass w of
        (w1, Inl e) \<Rightarrow> (w1, Err e)
      | (w1, Inr None) \<Rightarrow> (w1, Err (ErrPanic ''assignment to entry in nil map''))
      | (w1, Inr (Some s)) \<Rightarrow> save_store E path pass (AList.update (rp_name prof) prof s) w1)"

definition save_remote :: "vault_env \<Rightarrow> string \<Rightarrow> string \<Rightarrow> remote_profile \<Rightarrow> fs \<Rightarrow> fs \<times> unit res" where
  "save_remote E path pass prof w = save_remote_bytes E path (str_bytes pass) prof w"

definition the_profiles :: "profiles option \<Rightarrow> profiles" where
  "the_profiles s = (case s of None \<Rightarrow> [] | Some m \<Rightarrow> m)"

definition get_remote_bytes :: "vault_env \<Rightarrow> string \<Rightarrow> bytes \<Rightarrow> string \<Rightarrow> fs \<Rightarrow> fs \<times> remote_profile res" where
  "get_remote_bytes E path pass name w =
     (case load_store E path pass w of
        (w1, Inl e) \<Rightarrow> (w1, Err e)
      | (w1, Inr s) \<Rightarrow>
          (w1, case map_of (the_profiles s) name of None \<Rightarrow> Err ErrRemoteNotFound | Some p \<Rightarrow> Ok p))"

definition get_remote :: "vault_env \<Rightarrow> string \<Rightarrow> string \<Rightarrow> string \<Rightarrow> fs \<Rightarrow> fs \<times> remote_profile res" where
  "get_remote E path pass name w = get_remote_bytes E path (str_bytes pass) name w"

definition list_remotes :: "vault_env \<Rightarrow> string \<Rightarrow> string \<Rightarrow> fs \<Rightarrow> fs \<times> string list res" where
  "list_remotes E path pass w =
     (case load_store E path (str_bytes pass) w of
        (w1, Inl e) \<Rightarrow> (w1, Err e)
      | (w1, Inr s) \<Rightarrow> (w1, Ok (sort (map fst (the_profiles s)))))"

definition delete_remote :: "vault_env \<Rightarrow> string \<Rightarrow> string \<Rightarrow> string \<Rightarrow> fs \<Rightarrow> fs \<times> unit res" where
  "delete_remote E path pass name w =
     (case load_store E path (str_bytes pass) w of
        (w1, Inl e) \<Rightarrow> (w1, Err e)
      | (w1, Inr s) \<Rightarrow>
          if map_of (the_profiles s) name = None then (w1, Ok ())
          else save_store E path (str_bytes pass) (AList.delete name (the_profiles s)) w1)"

section \<open>The wire format\<close>

lemma str_bytes_magic [simp]: "str_bytes vault_magic = [85, 78, 73, 83]"
  by code_simp

lemma header_words [simp]: "word_be argon2_time = [0, 0, 0, 3]" "word_be argon2_memory = [0, 1, 0, 0]"
  by code_simp+

lemma vault_header_eq: "vault_header salt nonce = [85, 78, 73, 83, 1, 0, 0, 0, 3, 0, 1, 0, 0, 4] @ salt @ nonce"
  by (simp add: vault_header_def vault_version_def argon2_threads_def)

lemma length_vault_header:
  "length salt = salt_length \<Longrightarrow> length nonce = nonce_length \<Longrightarrow> length (vault_header salt nonce) = header_length"
  by (simp add: vault_header_eq header_length_def)

lemma parse_vault_header:
  assumes "length salt = salt_length" "length nonce = nonce_length"
  shows "parse_vault (vault_header salt nonce @ c) = Ok \<lparr>vf_time = argon2_time, vf_memory = argon2_memory,
    vf_threads = argon2_threads, vf_salt = salt, vf_nonce = nonce, vf_cipher = c\<rparr>"
proof -
  let ?d = "vault_header salt nonce @ c"
  have d: "?d = [85, 78, 73, 83, 1, 0, 0, 0, 3, 0, 1, 0, 0, 4] @ (salt @ nonce @ c)" by (simp add: vault_header_eq)
  have t: "be_at 5 ?d = argon2_time" "be_at 9 ?d = argon2_memory"
  proof -
    have "be_word 0 0 0 3 = argon2_time" "be_word 0 1 0 0 = argon2_memory" by code_simp+
    then show "be_at 5 ?d = argon2_time" "be_at 9 ?d = argon2_memory" unfolding d by (simp_all add: be_at_def numeral_eq_Suc)
  qed
  have l: "\<not> length ?d < header_length" using length_vault_header [OF assms] by simp
  have m: "take 4 ?d = str_bytes vault_magic" "?d ! 4 = vault_version" "?d ! 13 = argon2_threads"
    unfolding d by (simp_all add: vault_version_def argon2_threads_def numeral_eq_Suc)
  have s14: "drop 14 ?d = salt @ nonce @ c" unfolding d by simp
  have s: "take salt_length (drop 14 ?d) = salt" unfolding s14 using assms(1) by simp
  have "drop (14 + salt_length) ?d = drop salt_length (drop 14 ?d)" by (simp only: drop_drop add.commute)
  then have n: "drop (14 + salt_length) ?d = nonce @ c" unfolding s14 using assms(1) by simp
  have "drop header_length ?d = c" using length_vault_header [OF assms] by simp
  then show ?thesis using l m t s n assms(2) by (simp add: parse_vault_def)
qed

text \<open>What a key of the right length seals, it opens.\<close>

lemma open_vault_sealed:
  assumes "length salt = salt_length" "length nonce = nonce_length"
    and "derive_key E pass salt argon2_time argon2_memory argon2_threads = Ok key" "length key = 32"
    and "ve_unmarshal E plain = Ok s"
  shows "open_vault E pass (vault_header salt nonce @ gcm_seal (aes_encrypt key) nonce plain vault_aad) = Ok s"
  using assms(3-5) by (simp add: open_vault_def parse_vault_header [OF assms(1,2)] aes_new_cipher_def gcm_open_seal)

section \<open>The file\<close>

lemma os_read_file_plain:
  assumes "plain_world w r" "proper cs" "clear_way (nodes w) r cs" "r @ cs \<noteq> []"
  shows "os_read_file (abs_path (r @ cs)) w =
    (tick w, case map_of (nodes w) (r @ cs) of None \<Rightarrow> Inl ENOENT | Some (File d m pm) \<Rightarrow> Inr d | _ \<Rightarrow> Inl EISDIR)"
proof -
  have "\<not> is_link (map_of (nodes w) (r @ cs))" by (rule link_free_node [OF plain_worldD(2) [OF assms(1)]])
  then show ?thesis
    using resolve_clear [OF assms(1-3), of True] plain_worldD(3) [OF assms(1)] assms(4)
    by (auto simp: os_read_file_def with_path_def sys_plain resolve_ticked [OF ticked_tick] node_at_def
        split: option.splits node.splits)
qed

lemma clear_way_single: "clear_way t r [c]"
  by (simp add: clear_way_def)

text \<open>A file put into a directory, and a file removed, leave a plain world.\<close>

lemma plain_put_file:
  assumes "plain_world w r" "proper_comp c" "\<not> is_dir (map_of (nodes w) (r @ [c]))"
  shows "plain_world (put_node (r @ [c]) (File d m pm) w) r"
proof -
  note p = plain_worldD [OF assms(1)]
  have "is_dir (node_at (nodes w) (butlast (r @ [c])))" using p(4) by (auto simp: real_dir_def)
  moreover have "proper (r @ [c])" using p(5) assms(2) by simp
  ultimately have "wf_tree (AList.update (r @ [c]) (File d m pm) (nodes w))"
    using wf_tree_put [OF p(1), of "r @ [c]" "File d m pm"] assms(3) by simp
  then show ?thesis using link_free_put [OF p(2)] real_dir_put [OF p(4)] p(3) assms(3)
    by (simp add: plain_world_def put_node_def)
qed

lemma plain_del_file:
  assumes "plain_world w r" "\<not> is_dir (map_of (nodes w) q)"
  shows "plain_world (del_node q w) r"
  using plain_worldD [OF assms(1)] wf_tree_del [OF _ assms(2)] link_free_del real_dir_del [OF _ assms(2)]
  by (simp add: plain_world_def del_node_def)

lemma put_node_map [simp]: "map_of (nodes (put_node q n w)) = (map_of (nodes w))(q \<mapsto> n)"
  by (rule ext) (simp add: put_node_def)

lemma del_node_map [simp]: "map_of (nodes (del_node q w)) = (map_of (nodes w))(q := None)"
  by (rule ext) (simp add: del_node_def)

text \<open>Making the directory that is there.\<close>

lemma mkdir_again:
  assumes "plain_world w r"
  shows "\<exists>w1. os_mkdir_all (abs_path r) mode w = (w1, Inr ()) \<and> plain_world w1 r \<and> map_of (nodes w1) = map_of (nodes w)"
proof -
  obtain t' where t: "os_mkdir_all (abs_path (r @ [])) mode w = ((tick w)\<lparr>nodes := t'\<rparr>, Inr ())"
    "wf_tree t'" "link_free t'" "real_dir t' r" "map_of t' = with_dirs (nodes w) (Dir mode (now w (Suc (ticks w)))) r []"
    using os_mkdir_all_plain [OF assms, of "[]" "''a''" mode] clear_way_single by fastforce
  have "map_of t' = map_of (nodes w)" unfolding t(5) with_dirs_def by (rule ext) simp
  moreover have "plain_world ((tick w)\<lparr>nodes := t'\<rparr>) r"
    using t(2-4) plain_worldD(3) [OF assms] by (simp add: plain_world_def)
  ultimately show ?thesis using t(1) by simp
qed

lemma write_file_plain:
  assumes "plain_world w r" "proper_comp c" "map_of (nodes w) (r @ [c]) = None"
  shows "\<exists>w1 m. os_write_file (abs_path (r @ [c])) d mode w = (w1, Inr ()) \<and> plain_world w1 r
    \<and> map_of (nodes w1) = (map_of (nodes w))(r @ [c] \<mapsto> File d m mode)"
proof -
  let ?q = "r @ [c]"
  have dr: "is_dir (node_at (nodes w) (r @ []))" using plain_worldD(4) [OF assms(1)] by (auto simp: real_dir_def)
  define w1 where "w1 = put_node ?q (File [] (now w (Suc (ticks w))) mode) (tick w)"
  have c: "os_create (abs_path ?q) mode w = (w1, Inr ?q)"
    using os_create_plain [OF assms(1) _ assms(2) dr, of mode] assms(3) by (simp add: w1_def)
  have pw: "plain_world w1 r" unfolding w1_def by (rule plain_put_file) (use assms in simp_all)
  define w2 where "w2 = put_node ?q (File d (now w1 (Suc (ticks w1))) mode) (tick w1)"
  have "os_write ?q d w1 = (w2, Inr ())"
    using plain_worldD(3) [OF pw] by (simp add: os_write_def sys_plain node_at_def w1_def w2_def)
  moreover have "plain_world w2 r" unfolding w2_def by (rule plain_put_file) (use assms(2) pw in \<open>simp_all add: w1_def\<close>)
  moreover have "map_of (nodes w2) = (map_of (nodes w))(?q \<mapsto> File d (now w1 (Suc (ticks w1))) mode)"
    by (simp add: w2_def w1_def)
  ultimately show ?thesis using c by (simp add: os_write_file_def) blast
qed

lemma rename_plain:
  assumes "plain_world w r" "proper_comp a" "proper_comp b" "a \<noteq> b"
    and "map_of (nodes w) (r @ [a]) = Some (File d m pm)" "\<not> is_dir (map_of (nodes w) (r @ [b]))"
  shows "\<exists>w1. os_rename (abs_path (r @ [a])) (abs_path (r @ [b])) w = (w1, Inr ()) \<and> plain_world w1 r
    \<and> map_of (nodes w1) = (map_of (nodes w))(r @ [a] := None, r @ [b] \<mapsto> File d m pm)"
proof -
  have dr: "is_dir (node_at (nodes w) (r @ []))" using plain_worldD(4) [OF assms(1)] by (auto simp: real_dir_def)
  define w1 where "w1 = put_node (r @ [b]) (File d m pm) (del_node (r @ [a]) (tick w))"
  have "os_rename (abs_path (r @ [a])) (abs_path (r @ [b])) w = (w1, Inr ())"
    using os_rename_plain [OF assms(1) _ assms(2,3) dr _ _ assms(4)] assms(5,6) by (simp add: w1_def)
  moreover have "plain_world w1 r" unfolding w1_def
    by (rule plain_put_file [OF plain_del_file]) (use assms in simp_all)
  ultimately show ?thesis by (simp add: w1_def)
qed

lemma remove_missing:
  assumes "plain_world w r" "proper_comp c" "map_of (nodes w) (r @ [c]) = None"
  shows "os_remove (abs_path (r @ [c])) w = (tick w, Inl ENOENT)"
  using os_remove_plain [OF assms(1), of "[c]"] assms(2,3) clear_way_single by simp

section \<open>Writing the vault\<close>

definition temp_comp_of :: "vault_env \<Rightarrow> string \<Rightarrow> string" where
  "temp_comp_of E f = f @ ''.tmp.'' @ nat_text (ve_pid E)"

lemma nat_text_no_slash: "CHR ''/'' \<notin> set (nat_text n)"
proof (induction n rule: nat_text.induct)
  case (1 n)
  have "CHR ''/'' \<noteq> digit_char k" if "k < 10" for k
  proof
    assume e: "CHR ''/'' = digit_char k"
    have "(of_char (digit_char k) :: nat) = 48 + k" using that by (simp add: digit_char_def)
    then show False unfolding e [symmetric] by simp
  qed
  then show ?case using 1 by (subst nat_text.simps) auto
qed

lemma temp_comp_of:
  assumes "proper_comp f"
  shows "proper_comp (temp_comp_of E f)" "temp_comp_of E f \<noteq> f"
    "vault_temp E (abs_path (r @ [f])) = abs_path (r @ [temp_comp_of E f])"
  using assms nat_text_no_slash [of "ve_pid E"]
  by (auto simp: temp_comp_of_def proper_comp_def append_eq_Cons_conv vault_temp_def abs_path_snoc_append)

lemma write_vault_plain:
  assumes "plain_world w r" "proper_comp f" "map_of (nodes w) (r @ [temp_comp_of E f]) = None"
    and "\<not> is_dir (map_of (nodes w) (r @ [f]))"
  shows "\<exists>w' m. write_vault E (abs_path (r @ [f])) payload w = (w', Ok ()) \<and> plain_world w' r
    \<and> map_of (nodes w') = (map_of (nodes w))(r @ [f] \<mapsto> File payload m 384)"
proof -
  let ?t = "temp_comp_of E f"
  note tc = temp_comp_of [OF assms(2)]
  have pd: "path_dir (abs_path (r @ [f])) = abs_path r"
    by (rule path_dir_abs) (use plain_worldD(5) [OF assms(1)] assms(2) in simp)
  obtain w1 where 1: "os_mkdir_all (abs_path r) 448 w = (w1, Inr ())" "plain_world w1 r" "map_of (nodes w1) = map_of (nodes w)"
    using mkdir_again [OF assms(1)] by blast
  obtain w2 m where 2: "os_write_file (abs_path (r @ [?t])) payload 384 w1 = (w2, Inr ())" "plain_world w2 r"
    "map_of (nodes w2) = (map_of (nodes w1))(r @ [?t] \<mapsto> File payload m 384)"
    using write_file_plain [OF 1(2) tc(1)] assms(3) 1(3) by metis
  have n2: "map_of (nodes w2) (r @ [?t]) = Some (File payload m 384)" "\<not> is_dir (map_of (nodes w2) (r @ [f]))"
    using 2(3) 1(3) assms(4) tc(2) by simp_all
  obtain w3 where 3: "os_rename (abs_path (r @ [?t])) (abs_path (r @ [f])) w2 = (w3, Inr ())" "plain_world w3 r"
    "map_of (nodes w3) = (map_of (nodes w2))(r @ [?t] := None, r @ [f] \<mapsto> File payload m 384)"
    using rename_plain [OF 2(2) tc(1) assms(2) tc(2) n2] by blast
  have m3: "map_of (nodes w3) = (map_of (nodes w))(r @ [f] \<mapsto> File payload m 384)"
    using 3(3) 2(3) 1(3) assms(3) by (auto simp: fun_eq_iff)
  have "os_remove (abs_path (r @ [?t])) w3 = (tick w3, Inl ENOENT)"
    by (rule remove_missing [OF 3(2) tc(1)]) (use m3 assms(3) tc(2) in simp)
  then have "write_vault E (abs_path (r @ [f])) payload w = (tick w3, Ok ())"
    using 1(1) 2(1) 3(1) by (simp add: write_vault_def replace_vault_def pd tc(3) [of E r])
  then show ?thesis using 3(2) m3 by (intro exI [of _ "tick w3"] exI [of _ m]) simp
qed

section \<open>The state of a vault\<close>

text \<open>
  A vault file \<open>f\<close> in the directory \<open>r\<close> of a plain world, with the name of the temporary file
  free; its content under a passphrase; and what is relied on of the key derivation and of the
  JSON form of a map.
\<close>

definition vault_world :: "vault_env \<Rightarrow> string list \<Rightarrow> string \<Rightarrow> fs \<Rightarrow> bool" where
  "vault_world E r f w \<longleftrightarrow> plain_world w r \<and> proper_comp f \<and>
     map_of (nodes w) (r @ [temp_comp_of E f]) = None \<and> \<not> is_dir (map_of (nodes w) (r @ [f]))"

definition vault_content :: "vault_env \<Rightarrow> bytes \<Rightarrow> string list \<Rightarrow> string \<Rightarrow> fs \<Rightarrow> profiles option res" where
  "vault_content E pass r f w =
     (case map_of (nodes w) (r @ [f]) of Some (File d m pm) \<Rightarrow> open_vault E pass d | _ \<Rightarrow> Ok (Some []))"

definition kdf_ok :: "vault_env \<Rightarrow> bytes \<Rightarrow> bool" where
  "kdf_ok E pass \<longleftrightarrow> (\<forall>salt. \<exists>key.
     ve_argon2 E pass salt argon2_time argon2_memory argon2_threads derived_key_length = Ok key \<and> length key = 32)"

definition codec_ok :: "vault_env \<Rightarrow> profiles \<Rightarrow> bool" where
  "codec_ok E m \<longleftrightarrow> (\<exists>b s. ve_marshal E m = Ok b \<and> ve_unmarshal E b = Ok (Some s) \<and>
     distinct (map fst s) \<and> map_of s = map_of m)"

lemma vault_worldD:
  assumes "vault_world E r f w"
  shows "plain_world w r" "proper_comp f" "map_of (nodes w) (r @ [temp_comp_of E f]) = None"
    "\<not> is_dir (map_of (nodes w) (r @ [f]))"
  using assms by (simp_all add: vault_world_def)

lemma vault_world_tick [simp]: "vault_world E r f (w\<lparr>ticks := n\<rparr>) = vault_world E r f w"
  by (simp add: vault_world_def)

lemma load_store_plain:
  assumes "vault_world E r f w"
  shows "load_store E (abs_path (r @ [f])) pass w = (tick w, vault_content E pass r f w)"
proof -
  note v = vault_worldD [OF assms]
  have rd: "os_read_file (abs_path (r @ [f])) w =
      (tick w, case map_of (nodes w) (r @ [f]) of None \<Rightarrow> Inl ENOENT | Some (File d m pm) \<Rightarrow> Inr d | _ \<Rightarrow> Inl EISDIR)"
    using os_read_file_plain [OF v(1), of "[f]"] v(2) clear_way_single by simp
  have "\<not> is_link (map_of (nodes w) (r @ [f]))" by (rule link_free_node [OF plain_worldD(2) [OF v(1)]])
  then show ?thesis using v(4) unfolding load_store_def rd vault_content_def
    by (auto split: option.splits node.splits)
qed

lemma open_vault_saved:
  assumes "derive_key E pass salt argon2_time argon2_memory argon2_threads = Ok key" "length key = 32"
    "length salt = salt_length" "length nonce = nonce_length" "ve_unmarshal E plain = Ok s"
    "map_of (nodes w) (r @ [f]) = Some (File (vault_header salt nonce @ gcm_seal (aes_encrypt key) nonce plain vault_aad) m pm)"
  shows "vault_content E pass r f w = Ok s"
  using open_vault_sealed [OF assms(3,4,1,2,5)] assms(6) by (simp add: vault_content_def)

text \<open>Saving a map makes it the content of the vault and touches no other file.\<close>

lemma save_store_plain:
  assumes "vault_world E r f w" "kdf_ok E pass" "codec_ok E m"
  shows "\<exists>w' s d t. save_store E (abs_path (r @ [f])) pass m w = (w', Ok ()) \<and> vault_world E r f w'
    \<and> vault_content E pass r f w' = Ok (Some s) \<and> distinct (map fst s) \<and> map_of s = map_of m
    \<and> map_of (nodes w') = (map_of (nodes w))(r @ [f] \<mapsto> File d t 384)"
proof -
  note v = vault_worldD [OF assms(1)]
  obtain b s where c: "ve_marshal E m = Ok b" "ve_unmarshal E b = Ok (Some s)" "distinct (map fst s)" "map_of s = map_of m"
    using assms(3) unfolding codec_ok_def by blast
  have nf: "no_faults w" by (rule plain_worldD(3) [OF v(1)])
  define salt where "salt = map (entropy w (Suc (ticks w))) [0..<salt_length]"
  define nonce where "nonce = map (entropy w (Suc (Suc (ticks w)))) [0..<nonce_length]"
  have rd: "os_rand salt_length w = (tick w, Inr salt)" "os_rand nonce_length (tick w) = (tick (tick w), Inr nonce)"
    using nf by (simp_all add: os_rand_def sys_plain salt_def nonce_def)
  have len: "length salt = salt_length" "length nonce = nonce_length" by (simp_all add: salt_def nonce_def)
  obtain key where k: "derive_key E pass salt argon2_time argon2_memory argon2_threads = Ok key" "length key = 32"
    using assms(2) unfolding kdf_ok_def derive_key_def by blast
  let ?d = "vault_header salt nonce @ gcm_seal (aes_encrypt key) nonce b vault_aad"
  have "vault_world E r f (tick (tick w))" using assms(1) by simp
  note v2 = vault_worldD [OF this]
  obtain w' t where w': "write_vault E (abs_path (r @ [f])) ?d (tick (tick w)) = (w', Ok ())" "plain_world w' r"
    "map_of (nodes w') = (map_of (nodes w))(r @ [f] \<mapsto> File ?d t 384)"
    using write_vault_plain [OF v2, of ?d] by auto
  have "save_store E (abs_path (r @ [f])) pass m w = (w', Ok ())"
    using c(1) rd k w'(1) by (simp add: save_store_def aes_new_cipher_def)
  moreover have "vault_world E r f w'" using w'(2,3) v temp_comp_of(2) [OF v(2)] by (simp add: vault_world_def)
  moreover have "vault_content E pass r f w' = Ok (Some s)"
    by (rule open_vault_saved [OF k len c(2)]) (use w'(3) in simp)
  ultimately show ?thesis using c(3,4) w'(3) by blast
qed

lemma vault_content_tick [simp]: "vault_content E pass r f (w\<lparr>ticks := n\<rparr>) = vault_content E pass r f w"
  by (simp add: vault_content_def)

text \<open>Saving and deleting a profile.\<close>

lemma save_remote_plain:
  assumes "vault_world E r f w" "kdf_ok E (str_bytes pass)"
    and "vault_content E (str_bytes pass) r f w = Ok (Some s)" "codec_ok E (AList.update (rp_name p) p s)"
  shows "\<exists>w' s' d t. save_remote E (abs_path (r @ [f])) pass p w = (w', Ok ()) \<and> vault_world E r f w'
    \<and> vault_content E (str_bytes pass) r f w' = Ok (Some s') \<and> distinct (map fst s') \<and> map_of s' = (map_of s)(rp_name p \<mapsto> p)
    \<and> map_of (nodes w') = (map_of (nodes w))(r @ [f] \<mapsto> File d t 384)"
proof -
  let ?m = "AList.update (rp_name p) p s"
  have "vault_world E r f (tick w)" using assms(1) by simp
  from save_store_plain [OF this assms(2,4)] obtain w' s' d t where
    w': "save_store E (abs_path (r @ [f])) (str_bytes pass) ?m (tick w) = (w', Ok ())" "vault_world E r f w'"
    "vault_content E (str_bytes pass) r f w' = Ok (Some s')" "distinct (map fst s')" "map_of s' = map_of ?m"
    "map_of (nodes w') = (map_of (nodes (tick w)))(r @ [f] \<mapsto> File d t 384)" by blast
  have "save_remote E (abs_path (r @ [f])) pass p w = (w', Ok ())"
    using w'(1) assms(3) by (simp add: save_remote_def save_remote_bytes_def load_store_plain [OF assms(1)])
  moreover have "map_of s' = (map_of s)(rp_name p \<mapsto> p)" unfolding w'(5) by (simp add: fun_eq_iff)
  ultimately show ?thesis using w'(2-4,6) by (intro exI [of _ w'] exI [of _ s'] exI [of _ d] exI [of _ t]) simp
qed

lemma delete_remote_plain:
  assumes "vault_world E r f w" "kdf_ok E (str_bytes pass)"
    and "vault_content E (str_bytes pass) r f w = Ok (Some s)" "codec_ok E (AList.delete name s)"
  shows "\<exists>w' s'. delete_remote E (abs_path (r @ [f])) pass name w = (w', Ok ()) \<and> vault_world E r f w'
    \<and> vault_content E (str_bytes pass) r f w' = Ok (Some s') \<and> map_of s' = (map_of s)(name := None)
    \<and> (map_of s name = None \<longrightarrow> nodes w' = nodes w)"
proof (cases "map_of s name")
  case None
  have "delete_remote E (abs_path (r @ [f])) pass name w = (tick w, Ok ())"
    using None assms(3) by (simp add: delete_remote_def load_store_plain [OF assms(1)] the_profiles_def)
  moreover have "map_of s = (map_of s)(name := None)" using None by auto
  ultimately show ?thesis using assms(1,3) by (intro exI [of _ "tick w"] exI [of _ s]) simp
next
  case (Some p)
  have "vault_world E r f (tick w)" using assms(1) by simp
  from save_store_plain [OF this assms(2,4)] obtain w' s' where
    w': "save_store E (abs_path (r @ [f])) (str_bytes pass) (AList.delete name s) (tick w) = (w', Ok ())" "vault_world E r f w'"
    "vault_content E (str_bytes pass) r f w' = Ok (Some s')" "map_of s' = map_of (AList.delete name s)" by blast
  have "delete_remote E (abs_path (r @ [f])) pass name w = (w', Ok ())"
    using Some assms(3) w'(1) by (simp add: delete_remote_def load_store_plain [OF assms(1)] the_profiles_def)
  moreover have "map_of s' = (map_of s)(name := None)" using w'(4) by (simp add: fun_eq_iff delete_conv')
  ultimately show ?thesis using w'(2,3) Some by (intro exI [of _ w'] exI [of _ s']) simp
qed

text \<open>What the reading operations answer.\<close>

lemma get_remote_plain:
  assumes "vault_world E r f w" "vault_content E (str_bytes pass) r f w = Ok (Some s)"
  shows "get_remote E (abs_path (r @ [f])) pass name w =
    (tick w, case map_of s name of None \<Rightarrow> Err ErrRemoteNotFound | Some q \<Rightarrow> Ok q)"
  using assms(2) by (simp add: get_remote_def get_remote_bytes_def load_store_plain [OF assms(1)] the_profiles_def)

lemma list_remotes_plain:
  assumes "vault_world E r f w" "vault_content E (str_bytes pass) r f w = Ok (Some s)"
  shows "list_remotes E (abs_path (r @ [f])) pass w = (tick w, Ok (sort (map fst s)))"
  using assms(2) by (simp add: list_remotes_def load_store_plain [OF assms(1)] the_profiles_def)

section \<open>Properties\<close>

text \<open>C4: What is saved in a vault is what it gives back: after a save with the passphrase of the vault (or
  on a vault that does not exist yet) every name is answered with the saved profile or with what was
  there before, the names are listed sorted and without repetition, the file has mode 0600, and no
  other file has changed.  Relied on: Argon2 answers 32 bytes, and JSON gives the map back.
\<close>

theorem vault_save_get:
  assumes "vault_world E r f w" "kdf_ok E (str_bytes pass)"
    and "vault_content E (str_bytes pass) r f w = Ok (Some s)" "codec_ok E (AList.update (rp_name p) p s)"
  shows "\<exists>w' d t names. save_remote E (abs_path (r @ [f])) pass p w = (w', Ok ()) \<and> vault_world E r f w'
    \<and> (\<forall>name. snd (get_remote E (abs_path (r @ [f])) pass name w') =
        (case ((map_of s)(rp_name p \<mapsto> p)) name of None \<Rightarrow> Err ErrRemoteNotFound | Some q \<Rightarrow> Ok q))
    \<and> snd (list_remotes E (abs_path (r @ [f])) pass w') = Ok names
    \<and> sorted names \<and> distinct names \<and> set names = insert (rp_name p) (fst ` set s)
    \<and> map_of (nodes w') = (map_of (nodes w))(r @ [f] \<mapsto> File d t 384)"
proof -
  obtain w' s' d t where w': "save_remote E (abs_path (r @ [f])) pass p w = (w', Ok ())" "vault_world E r f w'"
    "vault_content E (str_bytes pass) r f w' = Ok (Some s')" "distinct (map fst s')" "map_of s' = (map_of s)(rp_name p \<mapsto> p)"
    "map_of (nodes w') = (map_of (nodes w))(r @ [f] \<mapsto> File d t 384)"
    using save_remote_plain [OF assms] by blast
  note ops = get_remote_plain [OF w'(2,3)] list_remotes_plain [OF w'(2,3)]
  have "fst ` set s' = insert (rp_name p) (fst ` set s)"
    unfolding dom_map_of_conv_image_fst [symmetric] w'(5) by (auto simp: dom_def)
  then have "set (sort (map fst s')) = insert (rp_name p) (fst ` set s)" by simp
  moreover have "sorted (sort (map fst s'))" "distinct (sort (map fst s'))" using w'(4) by simp_all
  moreover have "snd (list_remotes E (abs_path (r @ [f])) pass w') = Ok (sort (map fst s'))"
    "\<forall>name. snd (get_remote E (abs_path (r @ [f])) pass name w') =
      (case ((map_of s)(rp_name p \<mapsto> p)) name of None \<Rightarrow> Err ErrRemoteNotFound | Some q \<Rightarrow> Ok q)"
    by (simp_all add: ops w'(5) del: fun_upd_apply)
  ultimately show ?thesis using w'(1,2,6) by metis
qed

text \<open>A toy environment for the witnesses: a constant key, and a codec that knows one map.\<close>

definition demo_profile :: remote_profile where
  "demo_profile = \<lparr>rp_name = ''b1'', rp_type = ''s3'', rp_endpoint = '''', rp_region = '''', rp_bucket = ''bk'',
     rp_access_key = ''ak'', rp_secret_key = ''sk'', rp_path = '''', rp_options = []\<rparr>"

definition demo_vault :: vault_env where
  "demo_vault = \<lparr>ve_argon2 = (\<lambda>p s t m th n. Ok (replicate n 7)),
     ve_marshal = (\<lambda>m. Ok (if m = [] then [1] else [2])),
     ve_unmarshal = (\<lambda>b. Ok (Some (if b = [1] then [] else [(''b1'', demo_profile)]))), ve_pid = 7\<rparr>"

lemma demo_vault_ok: "kdf_ok demo_vault pass" "codec_ok demo_vault [(''b1'', demo_profile)]" "codec_ok demo_vault []"
  by (simp_all add: kdf_ok_def codec_ok_def demo_vault_def derived_key_length_def)

lemma demo_vault_world: "vault_world demo_vault [''srv''] ''v'' plain_fs"
proof -
  have "temp_comp_of demo_vault ''v'' = ''v.tmp.7''"
    by (simp add: temp_comp_of_def demo_vault_def nat_text.simps [of 7] digit_char_def) code_simp
  moreover have "proper_comp ''v''" by code_simp
  moreover have "plain_world plain_fs [''srv'']"
    by (simp add: plain_world_def wf_tree_def link_free_def no_faults_def real_dir_def plain_fs_def demo_fs_def
        node_at_def proper_comp_def le_Suc_eq)
  ultimately show ?thesis by (simp add: vault_world_def plain_fs_def demo_fs_def)
qed

lemma vault_save_get_witness:
  "\<exists>w'. save_remote demo_vault (abs_path ([''srv''] @ [''v''])) ''pw'' demo_profile plain_fs = (w', Ok ())
    \<and> snd (get_remote demo_vault (abs_path ([''srv''] @ [''v''])) ''pw'' ''b1'' w') = Ok demo_profile
    \<and> snd (get_remote demo_vault (abs_path ([''srv''] @ [''v''])) ''pw'' ''b2'' w') = Err ErrRemoteNotFound"
proof -
  have n: "rp_name demo_profile = ''b1''" by (simp add: demo_profile_def)
  have c: "vault_content demo_vault (str_bytes ''pw'') [''srv''] ''v'' plain_fs = Ok (Some [])"
    by (simp add: vault_content_def plain_fs_def demo_fs_def)
  have k: "codec_ok demo_vault (AList.update (rp_name demo_profile) demo_profile [])"
    using demo_vault_ok(2) by (simp add: n)
  from vault_save_get [OF demo_vault_world demo_vault_ok(1) c k] obtain w' where
    "save_remote demo_vault (abs_path ([''srv''] @ [''v''])) ''pw'' demo_profile plain_fs = (w', Ok ())"
    and g: "\<forall>name. snd (get_remote demo_vault (abs_path ([''srv''] @ [''v''])) ''pw'' name w') =
        (case ((map_of [])(rp_name demo_profile \<mapsto> demo_profile)) name of None \<Rightarrow> Err ErrRemoteNotFound | Some q \<Rightarrow> Ok q)"
    by blast
  then show ?thesis using g [rule_format, of "''b1''"] g [rule_format, of "''b2''"] n by auto
qed

text \<open>C25: A delete removes exactly the profile it names, and deleting a name that is not there succeeds
  without writing anything.
\<close>

theorem vault_delete:
  assumes "vault_world E r f w" "kdf_ok E (str_bytes pass)"
    and "vault_content E (str_bytes pass) r f w = Ok (Some s)" "codec_ok E (AList.delete name s)"
  shows "\<exists>w' s'. delete_remote E (abs_path (r @ [f])) pass name w = (w', Ok ()) \<and> vault_world E r f w'
    \<and> vault_content E (str_bytes pass) r f w' = Ok (Some s') \<and> map_of s' = (map_of s)(name := None)
    \<and> (map_of s name = None \<longrightarrow> nodes w' = nodes w)"
  by (rule delete_remote_plain [OF assms])

lemma vault_delete_witness:
  "\<exists>w' s'. delete_remote demo_vault (abs_path ([''srv''] @ [''v''])) ''pw'' ''b1'' plain_fs = (w', Ok ())
    \<and> vault_content demo_vault (str_bytes ''pw'') [''srv''] ''v'' w' = Ok (Some s') \<and> map_of s' = Map.empty"
proof -
  have c: "vault_content demo_vault (str_bytes ''pw'') [''srv''] ''v'' plain_fs = Ok (Some [])"
    by (simp add: vault_content_def plain_fs_def demo_fs_def)
  have k: "codec_ok demo_vault (AList.delete ''b1'' [])" using demo_vault_ok(3) by simp
  from vault_delete [OF demo_vault_world demo_vault_ok(1) c k] show ?thesis by auto
qed

text \<open>Reading leaves the file system as it was.\<close>

lemma load_store_ticked: "load_store E path pass w = (w', r) \<Longrightarrow> ticked w w'"
proof -
  have "os_read_file path w = (w1, q) \<Longrightarrow> ticked w w1" for w1 q
    using with_path_ticked [of "\<lambda>q w. (w, case node_at (nodes w) q of None \<Rightarrow> Inl ENOENT | Some (File d m pm) \<Rightarrow> Inr d | Some _ \<Rightarrow> Inl EISDIR)" w True path]
    by (simp add: os_read_file_def)
  then show "load_store E path pass w = (w', r) \<Longrightarrow> ticked w w'"
    by (auto simp: load_store_def split: prod.splits sum.splits)
qed

text \<open>C11: A vault that cannot be opened is never written: whatever system calls fail and whatever the file
  holds, when loading ends in an error (a wrong passphrase, a damaged file, an unreadable one) a save
  and a delete report that error and change no file.
\<close>

theorem vault_unopened_untouched:
  assumes "load_store E path (str_bytes pass) w = (w1, Err e)"
  shows "(\<exists>w'. save_remote E path pass p w = (w', Err e) \<and> ticked w w') \<and>
    (\<exists>w'. delete_remote E path pass name w = (w', Err e) \<and> ticked w w')"
  using assms load_store_ticked [OF assms]
  by (auto simp: save_remote_def save_remote_bytes_def delete_remote_def)

lemma vault_unopened_untouched_witness:
  "\<exists>w'. save_remote demo_vault ''/srv/a/f'' ''pw'' demo_profile plain_fs = (w', Err ErrCorruptedVault) \<and> ticked plain_fs w'"
proof -
  have "snd (load_store demo_vault ''/srv/a/f'' (str_bytes ''pw'') plain_fs) = Err ErrCorruptedVault" by code_simp
  then have "load_store demo_vault ''/srv/a/f'' (str_bytes ''pw'') plain_fs =
      (fst (load_store demo_vault ''/srv/a/f'' (str_bytes ''pw'') plain_fs), Err ErrCorruptedVault)" by (metis prod.collapse)
  then show ?thesis by (rule conjunct1 [OF vault_unopened_untouched])
qed

text \<open>C26: A file that is shorter than the header, or has another magic or another version, is refused by every
  operation with the error for a corrupted vault.
\<close>

theorem vault_corrupt_refused:
  assumes "vault_world E r f w" "map_of (nodes w) (r @ [f]) = Some (File d m pm)"
    and "length d < 42 \<or> take 4 d \<noteq> str_bytes ''UNIS'' \<or> d ! 4 \<noteq> 1"
  shows "\<exists>e. err_is e ErrCorruptedVault \<and> snd (get_remote E (abs_path (r @ [f])) pass name w) = Err e
    \<and> snd (list_remotes E (abs_path (r @ [f])) pass w) = Err e
    \<and> snd (save_remote E (abs_path (r @ [f])) pass p w) = Err e
    \<and> snd (delete_remote E (abs_path (r @ [f])) pass name w) = Err e"
proof -
  have "header_length = 42" "vault_magic = ''UNIS''" "vault_version = 1"
    by (simp_all add: header_length_def salt_length_def nonce_length_def vault_magic_def vault_version_def)
  then obtain e where e: "parse_vault d = Err e" "err_is e ErrCorruptedVault"
    using assms(3) unfolding parse_vault_def by (cases "length d < 42 \<or> take 4 d \<noteq> str_bytes ''UNIS''") auto
  then have "vault_content E (str_bytes pass) r f w = Err e"
    using assms(2) by (simp add: vault_content_def open_vault_def)
  then show ?thesis using e(2) load_store_plain [OF assms(1), of "str_bytes pass"]
    by (simp add: get_remote_def get_remote_bytes_def list_remotes_def save_remote_def save_remote_bytes_def delete_remote_def)
qed

lemma vault_corrupt_refused_witness:
  "\<exists>e. err_is e ErrCorruptedVault \<and> snd (list_remotes demo_vault (abs_path ([''srv'', ''a''] @ [''f''])) ''pw'' plain_fs) = Err e"
proof -
  have m: "map_of (nodes plain_fs) ([''srv'', ''a''] @ [''f'']) = Some (File [1, 2] 0 384)"
    by (simp add: plain_fs_def demo_fs_def)
  have "temp_comp_of demo_vault ''f'' = ''f.tmp.7''" by code_simp
  moreover have "proper_comp ''f''" by code_simp
  moreover have "plain_world plain_fs [''srv'', ''a'']"
    by (simp add: plain_world_def wf_tree_def link_free_def no_faults_def real_dir_def plain_fs_def demo_fs_def
        node_at_def proper_comp_def le_Suc_eq numeral_2_eq_2)
  ultimately have "vault_world demo_vault [''srv'', ''a''] ''f'' plain_fs"
    by (simp add: vault_world_def plain_fs_def demo_fs_def)
  from vault_corrupt_refused [OF this m, of "''pw''" "''b1''" demo_profile] show ?thesis by auto
qed

text \<open>The replacement is not atomic: when the file can be removed but no rename succeeds, the old vault
  is gone and the save reports an error.
\<close>

theorem vault_failed_replace_loses_it:
  "case replace_vault demo_vault ''/srv/a/f'' [9] (plain_fs\<lparr>faults := (\<lambda>t. if t = 2 \<or> t = 4 then Some EACCES else None)\<rparr>) of
     (w, r) \<Rightarrow> isl r \<and> map_of (nodes w) [''srv'', ''a'', ''f''] = None
       \<and> map_of (nodes plain_fs) [''srv'', ''a'', ''f''] \<noteq> None"
  by code_simp

end
