(* ===== verification/Json_Values.thy ===== *)
theory Json_Values
  imports Vault Storage_Driver
begin

text \<open>
  The values the program hands to \<^verbatim>\<open>encoding/json\<close>, by the \<open>json\<close> tags of its structures;
  their text is the library's.  An object lists its members in the order the library writes them:
  a structure's fields in their order, a map's keys sorted.
\<close>

datatype json =
    JNull
  | JBool bool
  | JInt int
  | JTime int
  | JStr string
  | JArr "json list"
  | JObj "(string \<times> json) list"

text \<open>The tag \<open>omitempty\<close>.\<close>

definition opt_str :: "string \<Rightarrow> string \<Rightarrow> (string \<times> json) list" where
  "opt_str k v = (if v = '''' then [] else [(k, JStr v)])"

definition str_map :: "(string \<times> string) list \<Rightarrow> json" where
  "str_map m = JObj (map (\<lambda>(k, v). (k, JStr v)) (sort_key fst m))"

definition opt_map :: "string \<Rightarrow> (string \<times> string) list \<Rightarrow> (string \<times> json) list" where
  "opt_map k m = (if m = [] then [] else [(k, str_map m)])"

definition json_object_info :: "object_info \<Rightarrow> json" where
  "json_object_info ob = JObj
     ([(''key'', JStr (oi_key ob)), (''path'', JStr (oi_path ob)), (''size'', JInt (oi_size ob)),
       (''mod_time'', JTime (oi_modtime ob)), (''is_dir'', JBool (oi_isdir ob))] @
      opt_str ''etag'' (oi_etag ob) @ opt_str ''content_type'' (oi_ctype ob) @ opt_map ''metadata'' (oi_meta ob))"

text \<open>A slice of objects; \<open>nil\<close> says that an empty one is \<^verbatim>\<open>nil\<close>, which is written as \<^verbatim>\<open>null\<close>.\<close>

definition json_objects :: "bool \<Rightarrow> object_info list \<Rightarrow> json" where
  "json_objects nil obs = (if nil \<and> obs = [] then JNull else JArr (map json_object_info obs))"

definition json_list_result :: "bool \<Rightarrow> list_result \<Rightarrow> json" where
  "json_list_result nil r = JObj
     ([(''objects'', json_objects nil (lr_objects r))] @
      opt_str ''next_continuation_token'' (lr_next r) @ [(''is_truncated'', JBool (lr_truncated r))])"

definition json_profile :: "remote_profile \<Rightarrow> json" where
  "json_profile p = JObj
     ([(''name'', JStr (rp_name p)), (''type'', JStr (rp_type p))] @
      opt_str ''endpoint'' (rp_endpoint p) @ opt_str ''region'' (rp_region p) @ opt_str ''bucket'' (rp_bucket p) @
      opt_str ''access_key'' (rp_access_key p) @ opt_str ''secret_key'' (rp_secret_key p) @
      opt_str ''path'' (rp_path p) @ opt_map ''options'' (rp_options p))"

text \<open>Every string a value contains.\<close>

fun json_strings :: "json \<Rightarrow> string set" where
  "json_strings (JStr s) = {s}"
| "json_strings (JArr js) = (\<Union>j \<in> set js. json_strings j)"
| "json_strings (JObj ms) = (\<Union>(k, j) \<in> set ms. insert k (json_strings j))"
| "json_strings j = {}"

end
