(* ===== verification/Go_Url.thy ===== *)
theory Go_Url
  imports Go_Path
begin

text \<open>
  What the daemon's routes use of \<^verbatim>\<open>net/url\<close> and \<^verbatim>\<open>net/http\<close>: the path of a request as
  it was sent, its decoded form (\<^verbatim>\<open>URL.Path\<close>), its escaped form (\<^verbatim>\<open>URL.EscapedPath\<close>),
  the cleaning of the mux and the segments its patterns are compared with.
\<close>

section \<open>Escapes\<close>

definition hex_value :: "char \<Rightarrow> nat option" where
  "hex_value c =
     (let n = of_char c :: nat in
      if 48 \<le> n \<and> n \<le> 57 then Some (n - 48)
      else if 65 \<le> n \<and> n \<le> 70 then Some (n - 55)
      else if 97 \<le> n \<and> n \<le> 102 then Some (n - 87)
      else None)"

text \<open>\<^verbatim>\<open>unescape\<close> of a path; \<open>None\<close> for a malformed escape.\<close>

fun url_unescape :: "string \<Rightarrow> string option" where
  "url_unescape [] = Some []"
| "url_unescape (c # s) =
     (if c = CHR ''%'' then
        (case s of
           a # b # t \<Rightarrow>
             (case (hex_value a, hex_value b, url_unescape t) of
                (Some x, Some y, Some r) \<Rightarrow> Some (char_of (16 * x + y) # r)
              | _ \<Rightarrow> None)
         | _ \<Rightarrow> None)
      else map_option (Cons c) (url_unescape s))"

text \<open>
  The target of a request that \<^verbatim>\<open>net/http\<close> hands to the handler, and its decoded path.  A path
  with a malformed escape stays as it is.
\<close>

definition good_target :: "string \<Rightarrow> bool" where
  "good_target raw \<longleftrightarrow> (raw = '''' \<or> take 1 raw = ''/'') \<and> url_unescape raw \<noteq> None"

definition url_path :: "string \<Rightarrow> string" where
  "url_path raw = (case url_unescape raw of None \<Rightarrow> raw | Some p \<Rightarrow> p)"

text \<open>The characters a path keeps, and those an escaped path may have besides.\<close>

definition path_char :: "char \<Rightarrow> bool" where
  "path_char c \<longleftrightarrow>
     (let n = of_char c :: nat in
      48 \<le> n \<and> n \<le> 57 \<or> 65 \<le> n \<and> n \<le> 90 \<or> 97 \<le> n \<and> n \<le> 122 \<or> c \<in> set ''-_.~$&+,/:;=@'')"

definition upper_hex :: "nat \<Rightarrow> char" where
  "upper_hex d = char_of (if d < 10 then 48 + d else 55 + d)"

definition escape_char :: "char \<Rightarrow> string" where
  "escape_char c =
     (if path_char c then [c]
      else [CHR ''%'', upper_hex (of_char c div 16), upper_hex (of_char c mod 16)])"

definition url_escape :: "string \<Rightarrow> string" where
  "url_escape s = concat (map escape_char s)"

definition valid_encoded :: "string \<Rightarrow> bool" where
  "valid_encoded s \<longleftrightarrow> list_all (\<lambda>c. path_char c \<or> c \<in> set ''!()*[]%'' \<or> c = CHR 0x27) s"

definition escaped_path :: "string \<Rightarrow> string" where
  "escaped_path raw = (if valid_encoded raw then raw else url_escape (url_path raw))"

text \<open>\<^verbatim>\<open>cleanPath\<close> of the mux, and the decoded segments; the last one is a slash when the path ends with one.\<close>

definition clean_url_path :: "string \<Rightarrow> string" where
  "clean_url_path p0 =
     (let p = (if take 1 p0 = ''/'' then p0 else CHR ''/'' # p0); c = path_clean p in
      if has_suffix p ''/'' \<and> c \<noteq> ''/'' then c @ ''/'' else c)"

definition segments :: "string \<Rightarrow> string list" where
  "segments p =
     (let cs = split_on (CHR ''/'') (drop 1 p) in
      if last cs = '''' then map url_path (butlast cs) @ [''/''] else map url_path cs)"

section \<open>Lemmas\<close>

lemma hex_value_slash [simp]: "hex_value (CHR ''/'') = None"
  by code_simp

lemma unescape_append:
  "url_unescape (a @ CHR ''/'' # b) =
     (case (url_unescape a, url_unescape b) of (Some x, Some y) \<Rightarrow> Some (x @ CHR ''/'' # y) | _ \<Rightarrow> None)"
proof (induction a rule: url_unescape.induct)
  case 1
  then show ?case by (auto split: option.split)
next
  case (2 c s)
  show ?case
  proof (cases "c = CHR ''%''")
    case False
    then show ?thesis using 2(2) by (auto split: option.split)
  next
    case True
    consider "s = []" | x where "s = [x]" | x y t where "s = x # y # t" by (metis list.exhaust)
    then show ?thesis
    proof cases
      case 1
      then show ?thesis using True by (auto split: list.split)
    next
      case (2 x)
      then show ?thesis using True by (auto split: list.split option.split)
    next
      case (3 x y t)
      show ?thesis using 2(1) [OF True 3 refl] True 3 by (auto split: option.split)
    qed
  qed
qed

lemma unescape_slash [simp]: "url_unescape (CHR ''/'' # s) = map_option (Cons (CHR ''/'')) (url_unescape s)"
  by simp

lemma slash_induct [case_names comp slash]:
  assumes "\<And>w. CHR ''/'' \<notin> set w \<Longrightarrow> P w" "\<And>w t. CHR ''/'' \<notin> set w \<Longrightarrow> P t \<Longrightarrow> P (w @ CHR ''/'' # t)"
  shows "P s"
proof (induction s rule: length_induct)
  case (1 s)
  show ?case
  proof (cases "CHR ''/'' \<in> set s")
    case True
    then obtain w t where "s = w @ CHR ''/'' # t" "CHR ''/'' \<notin> set w" by (meson split_list_first)
    then show ?thesis using assms(2) [of w t] 1 by simp
  qed (rule assms(1))
qed

lemma unescape_comps:
  "url_unescape s = Some p \<Longrightarrow> p = join_with ''/'' (map url_path (split_on (CHR ''/'') s))"
proof (induction s arbitrary: p rule: slash_induct)
  case (comp w)
  then show ?case by (simp add: split_on_single url_path_def)
next
  case (slash w t)
  obtain x y where xy: "url_unescape w = Some x" "url_unescape t = Some y" "p = x @ CHR ''/'' # y"
    using slash.prems unfolding unescape_append by (auto split: option.splits)
  have "y = join_with ''/'' (map url_path (split_on (CHR ''/'') t))" by (rule slash.IH [OF xy(2)])
  moreover have "join_with ''/'' (u # us) = u @ ''/'' @ join_with ''/'' us" if "us \<noteq> []" for u us using that by (cases us) simp_all
  moreover have "url_path w = x" using xy(1) by (simp add: url_path_def)
  ultimately show ?case using xy(3) by (simp add: split_on_append_sep [OF slash.hyps])
qed

text \<open>Escaping and decoding.\<close>

lemma hex_value_upper: "d < 16 \<Longrightarrow> hex_value (upper_hex d) = Some d"
  by (simp add: hex_value_def upper_hex_def Let_def)

lemma path_char_percent [simp]: "\<not> path_char (CHR ''%'')" and path_char_slash [simp]: "path_char (CHR ''/'')"
  by code_simp+

lemma unescape_escape_char: "url_unescape (escape_char c @ s) = map_option (Cons c) (url_unescape s)"
proof (cases "path_char c")
  case True
  then have "c \<noteq> CHR ''%''" by auto
  then show ?thesis using True by (simp add: escape_char_def)
next
  case False
  let ?n = "of_char c :: nat"
  have n: "?n < 256" by (rule nat_of_char_less_256)
  then have d: "?n div 16 < 16" by (simp add: less_mult_imp_div_less)
  have "char_of (16 * (?n div 16) + ?n mod 16) = c" by (simp only: mult_div_mod_eq char_of_char)
  then show ?thesis using False hex_value_upper [OF d] hex_value_upper [of "?n mod 16"]
    by (simp add: escape_char_def split: option.split)
qed

lemma unescape_escape [simp]: "url_unescape (url_escape s) = Some s"
  by (induction s) (simp_all add: url_escape_def unescape_escape_char)

lemma url_path_escape [simp]: "url_path (url_escape s) = s"
  by (simp add: url_path_def)

lemma upper_hex_path: "d < 16 \<Longrightarrow> path_char (upper_hex d)"
  by (simp add: path_char_def upper_hex_def Let_def)

lemma valid_escape: "valid_encoded (url_escape s)"
proof (induction s)
  case (Cons c s)
  have "of_char c div (16::nat) < 16" using nat_of_char_less_256 [of c] by (simp add: less_mult_imp_div_less)
  then have "valid_encoded (escape_char c)" using upper_hex_path by (simp add: valid_encoded_def escape_char_def)
  then show ?case using Cons by (simp add: url_escape_def valid_encoded_def)
qed (simp add: url_escape_def valid_encoded_def)

lemma escaped_escape [simp]: "escaped_path (url_escape s) = url_escape s"
  by (simp add: escaped_path_def valid_escape)

lemma escape_simps [simp]:
  "url_escape [] = []" "url_escape (CHR ''/'' # s) = CHR ''/'' # url_escape s" "url_escape (a @ b) = url_escape a @ url_escape b"
  by (simp_all add: url_escape_def escape_char_def)

lemma url_escape_inject [simp]: "url_escape a = url_escape b \<longleftrightarrow> a = b"
  by (metis url_path_escape)

lemma good_target_escape: "take 1 p = ''/'' \<Longrightarrow> good_target (url_escape p)"
  by (cases p) (auto simp: good_target_def simp del: url_unescape.simps)

lemma good_target_slash [simp]: "good_target (url_escape (CHR ''/'' # p))"
  by (rule good_target_escape) simp

text \<open>The escaped path decodes to the path.\<close>

lemma unescape_escaped: "good_target raw \<Longrightarrow> url_unescape (escaped_path raw) = Some (url_path raw)"
  by (auto simp: escaped_path_def url_path_def good_target_def)

lemma escaped_slash: "good_target raw \<Longrightarrow> take 1 (url_path raw) = ''/'' \<Longrightarrow> take 1 (escaped_path raw) = ''/''"
proof -
  assume g: "good_target raw" and p: "take 1 (url_path raw) = ''/''"
  show ?thesis
  proof (cases "valid_encoded raw")
    case True
    then show ?thesis using g p by (auto simp: escaped_path_def good_target_def url_path_def)
  next
    case False
    then show ?thesis using p by (cases "url_path raw") (auto simp: escaped_path_def)
  qed
qed

text \<open>Escaping goes through the components, and so through the cleaning and the segments.\<close>

lemma upper_hex_no_slash: "d < 16 \<Longrightarrow> upper_hex d \<noteq> CHR ''/''"
  by (auto dest!: hex_value_upper)

lemma escape_char_slash: "CHR ''/'' \<in> set (escape_char c) \<longleftrightarrow> c = CHR ''/''"
proof -
  have "d < 16 \<Longrightarrow> upper_hex d \<noteq> CHR ''/''" for d by (rule upper_hex_no_slash)
  moreover have "of_char c div (16::nat) < 16" using nat_of_char_less_256 [of c] by (simp add: less_mult_imp_div_less)
  ultimately have "CHR ''/'' \<noteq> upper_hex (of_char c div 16)" "CHR ''/'' \<noteq> upper_hex (of_char c mod 16)"
    by (metis pos_mod_bound zero_less_numeral mod_less_divisor)+
  then show ?thesis by (auto simp: escape_char_def)
qed

lemma escape_slash: "CHR ''/'' \<in> set (url_escape s) \<longleftrightarrow> CHR ''/'' \<in> set s"
  by (auto simp: url_escape_def escape_char_slash)

lemma split_escape: "split_on (CHR ''/'') (url_escape s) = map url_escape (split_on (CHR ''/'') s)"
proof (induction s rule: slash_induct)
  case (comp w)
  then show ?case by (simp add: split_on_single escape_slash)
next
  case (slash w t)
  then have "CHR ''/'' \<notin> set (url_escape w)" by (simp add: escape_slash)
  then show ?case using slash by (simp add: split_on_append_sep)
qed

lemma escape_join: "join_with ''/'' (map url_escape cs) = url_escape (join_with ''/'' cs)"
  by (induction "''/''" cs rule: join_with.induct) simp_all

lemma escape_dots: "url_escape c = '''' \<longleftrightarrow> c = ''''" "url_escape c = ''.'' \<longleftrightarrow> c = ''.''" "url_escape c = ''..'' \<longleftrightarrow> c = ''..''"
proof -
  have e: "url_escape '''' = ''''" "url_escape ''.'' = ''.''" "url_escape ''..'' = ''..''" by code_simp+
  show "url_escape c = '''' \<longleftrightarrow> c = ''''" "url_escape c = ''.'' \<longleftrightarrow> c = ''.''" "url_escape c = ''..'' \<longleftrightarrow> c = ''..''"
    by (metis e url_escape_inject)+
qed

lemma clean_step_escape: "clean_step r (map url_escape st) (url_escape c) = map url_escape (clean_step r st c)"
proof -
  have "''..'' = url_escape ''..''" by code_simp
  then show ?thesis by (cases st) (auto simp: clean_step_def escape_dots)
qed

lemma foldl_clean_escape: "foldl (clean_step r) (map url_escape st) (map url_escape cs) = map url_escape (foldl (clean_step r) st cs)"
  by (induction cs arbitrary: st) (simp_all add: clean_step_escape)

lemma clean_comps_escape: "clean_comps r (map url_escape cs) = map url_escape (clean_comps r cs)"
  using foldl_clean_escape [of r "[]" cs] by (simp add: clean_comps_def rev_map)

lemma path_clean_escape: "path_clean (CHR ''/'' # url_escape s) = url_escape (path_clean (CHR ''/'' # s))"
proof -
  have r: "rooted (CHR ''/'' # t)" for t by (simp add: rooted_def has_prefix_def)
  have "split_on (CHR ''/'') (CHR ''/'' # url_escape s) = map url_escape (split_on (CHR ''/'') (CHR ''/'' # s))"
    using split_escape [of "CHR ''/'' # s"] by simp
  then show ?thesis unfolding path_clean_def Let_def
    by (simp add: r clean_comps_escape abs_path_def escape_join del: split_on.simps)
qed

lemma escape_suffix_slash: "has_suffix (url_escape s) ''/'' \<longleftrightarrow> has_suffix s ''/''"
proof (cases s rule: rev_cases)
  case (snoc t c)
  have "upper_hex (of_char c mod 16) \<noteq> CHR ''/''" by (rule upper_hex_no_slash) simp
  then show ?thesis by (auto simp: snoc has_suffix_def has_prefix_def url_escape_def escape_char_def)
qed simp

lemma clean_escape:
  assumes "take 1 p = ''/''" "clean_url_path p = p"
  shows "clean_url_path (url_escape p) = url_escape p"
proof -
  obtain q where q: "p = CHR ''/'' # q" using assms(1) by (cases p) auto
  have "clean_url_path (url_escape p) = url_escape (clean_url_path p)"
    using escape_suffix_slash [of p] path_clean_escape [of q]
    by (auto simp: clean_url_path_def Let_def q) (metis escape_simps(1,2) url_path_escape)+
  then show ?thesis using assms(2) by simp
qed

lemma segments_escape:
  "segments (url_escape (CHR ''/'' # q)) =
     (let cs = split_on (CHR ''/'') q in if last cs = '''' then butlast cs @ [''/''] else cs)"
proof -
  have "last (map url_escape (split_on (CHR ''/'') q)) = url_escape (last (split_on (CHR ''/'') q))" by (simp add: last_map)
  then show ?thesis by (simp add: segments_def Let_def split_escape escape_dots comp_def map_butlast [symmetric])
qed

end
