(* ===== verification/Daemon_Server.thy ===== *)
theory Daemon_Server
  imports Json_Values Local_Driver S3_Driver Go_Url
begin

text \<open>
  \<^verbatim>\<open>internal/daemon/server.go\<close>: the HTTP daemon.  A request is a record of what the handlers
  read of it and a handler is one function from the server, the world and the request to the server,
  the world and the response; the requests are handled one after the other.  The patterns of
  \<^verbatim>\<open>http.ServeMux\<close> are the function \<open>route\<close> on the path as it was sent; the handlers use its
  decoded form, as the code does.  Listening, time-outs and the shutdown are not modelled.
\<close>

declare background_simp [simp del]

section \<open>The server\<close>

record daemon_config =
  dc_addr :: string
  dc_token_file :: string
  dc_vault_path :: string
  dc_passphrase :: string
  dc_static_token :: string
  dc_version :: string

text \<open>The open vault is its path; \<open>dm_next\<close> numbers the drivers the server makes.\<close>

record 'w daemon =
  dm_cfg :: daemon_config
  dm_token :: string
  dm_vault :: "string option"
  dm_drivers :: "(string \<times> 'w driver) list"
  dm_next :: nat

text \<open>
  What the handlers use of the world and of the libraries: the file system, the key derivation and
  the codec of the vault, the SDK's construction of a client, the JSON decoder for a profile, the
  time format of HTTP headers, and the status of a redirection of the mux and the text of its
  \<^verbatim>\<open>Location\<close> for a path.
\<close>

record 'w daemon_env =
  de_os :: "'w \<Rightarrow> fs"
  de_put_os :: "fs \<Rightarrow> 'w \<Rightarrow> 'w"
  de_vault :: vault_env
  de_connect :: "string \<Rightarrow> (string \<times> string) option \<Rightarrow> string option \<Rightarrow> bool \<Rightarrow> 'w s3_client res"
  de_decode :: "reader \<Rightarrow> remote_profile res"
  de_http_time :: "int \<Rightarrow> string"
  de_redirect :: nat
  de_location :: "string \<Rightarrow> string"

text \<open>\<^verbatim>\<open>DefaultConfig\<close>, given the home directory and the directory for temporary files.\<close>

definition default_config :: "string res \<Rightarrow> string \<Rightarrow> daemon_config" where
  "default_config home tmp =
     (let h = (case home of Inl e \<Rightarrow> tmp | Inr h \<Rightarrow> h) in
      \<lparr>dc_addr = ''127.0.0.1:8080'', dc_token_file = path_join [h, ''.unistorage'', ''daemon.token''],
       dc_vault_path = path_join [h, ''.unistorage'', ''vault.enc''],
       dc_passphrase = ''unistorage-default-passphrase'', dc_static_token = '''', dc_version = ''''\<rparr>)"

section \<open>The token\<close>

definition generate_token :: "fs \<Rightarrow> fs \<times> string res" where
  "generate_token w =
     (case os_rand 32 w of
        (w1, Inl n) \<Rightarrow> (w1, Err (errorf_w ''failed to generate random token'' (os_err ''read'' ''/dev/urandom'' n)))
      | (w1, Inr b) \<Rightarrow> (w1, Ok (hex_encode b)))"

definition make_token :: "string \<Rightarrow> fs \<Rightarrow> fs \<times> string res" where
  "make_token file w =
     (case generate_token w of
        (w1, Inl e) \<Rightarrow> (w1, Err e)
      | (w1, Inr tok) \<Rightarrow>
          (case os_mkdir_all (path_dir file) 448 w1 of
             (w2, Inl n) \<Rightarrow> (w2, Err (errorf_w ''failed to create token dir'' (os_err ''mkdir'' (path_dir file) n)))
           | (w2, Inr _) \<Rightarrow>
               (case os_write_file file (str_bytes (tok @ [CHR 0x0A])) 384 w2 of
                  (w3, Inl n) \<Rightarrow> (w3, Err (errorf_w ''failed to write token file'' (os_err ''open'' file n)))
                | (w3, Inr _) \<Rightarrow> (w3, Ok tok))))"

definition init_token :: "daemon_config \<Rightarrow> fs \<Rightarrow> fs \<times> string res" where
  "init_token cfg w =
     (if dc_static_token cfg \<noteq> '''' then (w, Ok (dc_static_token cfg))
      else if dc_token_file cfg = '''' then (w, Err (ErrText ''daemon: token file path is required''))
      else (case os_read_file (dc_token_file cfg) w of
              (w1, Inl n) \<Rightarrow> make_token (dc_token_file cfg) w1
            | (w1, Inr d) \<Rightarrow>
                (let tok = trim_space (bytes_str d) in
                 if 32 \<le> length tok then (w1, Ok tok) else make_token (dc_token_file cfg) w1)))"

definition new_daemon :: "'w daemon_env \<Rightarrow> daemon_config \<Rightarrow> 'w \<Rightarrow> 'w \<times> 'w daemon res" where
  "new_daemon E cfg0 w =
     (let cfg = (if dc_addr cfg0 = '''' then cfg0\<lparr>dc_addr := ''127.0.0.1:8080''\<rparr> else cfg0) in
      case on_part (de_os E) (de_put_os E) (init_token cfg) w of
        (w1, Inl e) \<Rightarrow> (w1, Err (errorf_w ''daemon token init error'' e))
      | (w1, Inr tok) \<Rightarrow>
          (w1, Ok \<lparr>dm_cfg = cfg, dm_token = tok,
                   dm_vault = (if dc_vault_path cfg \<noteq> '''' then Some (dc_vault_path cfg) else None),
                   dm_drivers = [], dm_next = 0\<rparr>))"

section \<open>Drivers by name\<close>

definition register_driver :: "string \<Rightarrow> 'w driver \<Rightarrow> 'w daemon \<Rightarrow> 'w daemon" where
  "register_driver name d S = S\<lparr>dm_drivers := AList.update name d (dm_drivers S)\<rparr>"

text \<open>The vault's operations in the world of the daemon.\<close>

definition vault_get :: "'w daemon_env \<Rightarrow> 'w daemon \<Rightarrow> string \<Rightarrow> string \<Rightarrow> 'w \<Rightarrow> 'w \<times> remote_profile res" where
  "vault_get E S vp name = on_part (de_os E) (de_put_os E) (get_remote (de_vault E) vp (dc_passphrase (dm_cfg S)) name)"

definition vault_list :: "'w daemon_env \<Rightarrow> 'w daemon \<Rightarrow> string \<Rightarrow> 'w \<Rightarrow> 'w \<times> string list res" where
  "vault_list E S vp = on_part (de_os E) (de_put_os E) (list_remotes (de_vault E) vp (dc_passphrase (dm_cfg S)))"

definition vault_save :: "'w daemon_env \<Rightarrow> 'w daemon \<Rightarrow> string \<Rightarrow> remote_profile \<Rightarrow> 'w \<Rightarrow> 'w \<times> unit res" where
  "vault_save E S vp prof = on_part (de_os E) (de_put_os E) (save_remote (de_vault E) vp (dc_passphrase (dm_cfg S)) prof)"

definition vault_delete_name :: "'w daemon_env \<Rightarrow> 'w daemon \<Rightarrow> string \<Rightarrow> string \<Rightarrow> 'w \<Rightarrow> 'w \<times> unit res" where
  "vault_delete_name E S vp name = on_part (de_os E) (de_put_os E) (delete_remote (de_vault E) vp (dc_passphrase (dm_cfg S)) name)"

text \<open>The driver of a profile; \<open>None\<close> for a type that is not known.\<close>

definition no_retry :: retry_config where
  "no_retry = \<lparr>rc_max_retries = 0, rc_base_delay = 0, rc_max_delay = 0\<rparr>"

definition profile_driver :: "'w daemon_env \<Rightarrow> nat \<Rightarrow> remote_profile \<Rightarrow> 'w \<Rightarrow> 'w \<times> 'w driver res option" where
  "profile_driver E i p w =
     (if rp_type p = ''local'' then
        (case on_part (de_os E) (de_put_os E) (local_new (rp_path p)) w of
           (w1, Inl e) \<Rightarrow> (w1, Some (Err e))
         | (w1, Inr rt) \<Rightarrow> (w1, Some (Ok (embed (de_os E) (de_put_os E) (local_driver rt i)))))
      else if rp_type p = ''s3'' then
        (w, Some (case s3_new (de_connect E)
               \<lparr>cfg_endpoint = rp_endpoint p, cfg_region = rp_region p, cfg_bucket = rp_bucket p,
                cfg_access_key = rp_access_key p, cfg_secret_key = rp_secret_key p, cfg_path_style = False,
                cfg_retry = no_retry\<rparr> of
              Inl e \<Rightarrow> Err e
            | Inr d \<Rightarrow> Ok (s3_driver d i)))
      else (w, None))"

fun is_panic :: "go_error \<Rightarrow> bool" where
  "is_panic (ErrPanic m) \<longleftrightarrow> True"
| "is_panic e \<longleftrightarrow> False"

definition unknown_remote :: "string \<Rightarrow> go_error" where
  "unknown_remote name = ErrText (''remote '' @ go_quote name @ '' not found'')"

definition get_driver :: "'w daemon_env \<Rightarrow> string \<Rightarrow> 'w daemon \<Rightarrow> 'w \<Rightarrow> ('w daemon \<times> 'w) \<times> 'w driver res" where
  "get_driver E name S w =
     (case map_of (dm_drivers S) name of
        Some d \<Rightarrow> ((S, w), Ok d)
      | None \<Rightarrow>
          (case (if dc_passphrase (dm_cfg S) \<noteq> '''' then dm_vault S else None) of
             None \<Rightarrow> ((S, w), Err (unknown_remote name))
           | Some vp \<Rightarrow>
               (case vault_get E S vp name w of
                  (w1, Inl e) \<Rightarrow> ((S, w1), Err (if is_panic e then e else unknown_remote name))
                | (w1, Inr prof) \<Rightarrow>
                    (case profile_driver E (dm_next S) prof w1 of
                       (w2, None) \<Rightarrow> ((S, w2), Err (ErrText (''unknown driver type '' @ go_quote (rp_type prof))))
                     | (w2, Some (Inl e)) \<Rightarrow>
                         ((S, w2), Err (errorf_w (''failed to instantiate remote driver '' @ go_quote name) e))
                     | (w2, Some (Inr d)) \<Rightarrow>
                         (((register_driver name d S)\<lparr>dm_next := Suc (dm_next S)\<rparr>, w2), Ok d)))))"

section \<open>Requests and responses\<close>

text \<open>
  A header that is not there is the empty string, as \<^verbatim>\<open>Header.Get\<close> has it.  \<open>rq_path\<close> is the
  path of the request target as it was sent, with its escapes; the target \<^verbatim>\<open>*\<close> is not modelled.
\<close>

record request =
  rq_method :: string
  rq_host :: string
  rq_origin :: string
  rq_auth :: string
  rq_path :: string
  rq_query :: "(string \<times> string) list"
  rq_length :: int
  rq_body :: reader

datatype body = NoBody | JsonBody json | RawBody bytes

text \<open>The status 0 stands for a connection that is dropped because the handler panicked.\<close>

record response =
  rs_status :: nat
  rs_headers :: "(string \<times> string) list"
  rs_body :: body

definition empty_response :: "nat \<Rightarrow> response" where
  "empty_response c = \<lparr>rs_status = c, rs_headers = [], rs_body = NoBody\<rparr>"

definition write_json :: "nat \<Rightarrow> json \<Rightarrow> response" where
  "write_json c j =
     \<lparr>rs_status = c, rs_headers = [(''Content-Type'', ''application/json; charset=utf-8'')], rs_body = JsonBody j\<rparr>"

definition write_json_error :: "nat \<Rightarrow> string \<Rightarrow> string \<Rightarrow> response" where
  "write_json_error c kind m = write_json c (JObj [(''error'', JStr kind), (''message'', JStr m)])"

text \<open>The answer to an error: the given one, unless the operation panicked.\<close>

definition unless_panic :: "go_error \<Rightarrow> response \<Rightarrow> response" where
  "unless_panic e r = (if is_panic e then empty_response 0 else r)"

definition server_error :: "go_error \<Rightarrow> response" where
  "server_error e = unless_panic e (write_json_error 500 ''error'' (err_msg e))"

definition query :: "request \<Rightarrow> string \<Rightarrow> string" where
  "query rq k = (case map_of (rq_query rq) k of None \<Rightarrow> '''' | Some v \<Rightarrow> v)"

section \<open>The security middleware\<close>

text \<open>\<^verbatim>\<open>net.SplitHostPort\<close>, the host only; \<open>None\<close> is an error.\<close>

definition split_host_port :: "string \<Rightarrow> string option" where
  "split_host_port hp =
     (let port = rev (takeWhile (\<lambda>c. c \<noteq> CHR '':'') (rev hp));
          pre = take (length hp - Suc (length port)) hp
      in if CHR '':'' \<notin> set hp then None
         else if take 1 hp = ''['' then
           (let e = length (takeWhile (\<lambda>c. c \<noteq> CHR '']'') hp) in
            if CHR '']'' \<notin> set hp then None
            else if Suc e \<noteq> length pre then None
            else if CHR ''['' \<in> set (drop 1 hp) \<or> CHR '']'' \<in> set (drop (Suc e) hp) then None
            else Some (take (e - 1) (drop 1 hp)))
         else if CHR '':'' \<in> set pre then None
         else if CHR ''['' \<in> set hp \<or> CHR '']'' \<in> set hp then None
         else Some pre)"

definition host_name :: "string \<Rightarrow> string" where
  "host_name h = trim_cut {CHR ''['', CHR '']''} (case split_host_port h of None \<Rightarrow> h | Some x \<Rightarrow> x)"

definition loopback :: "string \<Rightarrow> bool" where
  "loopback h \<longleftrightarrow> h = ''127.0.0.1'' \<or> h = ''localhost'' \<or> h = ''::1''"

definition health_path :: "string \<Rightarrow> bool" where
  "health_path p \<longleftrightarrow> p = ''/healthz'' \<or> p = ''/api/v1/health''"

definition unauthorized :: response where
  "unauthorized = write_json_error 401 ''unauthorized'' ''valid bearer token required in authorization header''"

text \<open>What the middleware answers itself; \<open>None\<close> passes the request on.\<close>

definition security_check :: "'w daemon \<Rightarrow> request \<Rightarrow> response option" where
  "security_check S rq =
     (if \<not> loopback (host_name (rq_host rq))
      then Some (write_json_error 403 ''forbidden'' ''dns-rebinding protection: invalid host header'')
      else if rq_origin rq \<noteq> '''' then Some (write_json_error 403 ''forbidden'' ''cors origin denied'')
      else if health_path (url_path (rq_path rq)) then None
      else if rq_auth rq = '''' \<or> \<not> has_prefix (rq_auth rq) ''Bearer '' then Some unauthorized
      else if trim_prefix (rq_auth rq) ''Bearer '' \<noteq> dm_token S then Some unauthorized
      else None)"

section \<open>Handlers\<close>

type_synonym 'w handler = "'w daemon \<Rightarrow> 'w \<Rightarrow> ('w daemon \<times> 'w) \<times> response"

definition handle_health :: "'w handler" where
  "handle_health S w =
     (let v = dc_version (dm_cfg S) in
      ((S, w), write_json 200 (JObj [(''status'', JStr ''ok''), (''version'', JStr (if v = '''' then ''0.1.0'' else v))])))"

definition no_vault :: response where
  "no_vault = write_json_error 500 ''error'' ''vault not initialized''"

definition redact :: "remote_profile \<Rightarrow> remote_profile" where
  "redact p = (if rp_secret_key p \<noteq> '''' then p\<lparr>rp_secret_key := ''********''\<rparr> else p)"

text \<open>The profiles of a list of names; a name that cannot be read is left out, a panic ends the handler.\<close>

fun get_profiles :: "'w daemon_env \<Rightarrow> 'w daemon \<Rightarrow> string \<Rightarrow> string list \<Rightarrow> 'w \<Rightarrow> 'w \<times> remote_profile list res" where
  "get_profiles E S vp [] w = (w, Ok [])"
| "get_profiles E S vp (n # ns) w =
     (case vault_get E S vp n w of
        (w1, Inl e) \<Rightarrow> if is_panic e then (w1, Err e) else get_profiles E S vp ns w1
      | (w1, Inr p) \<Rightarrow>
          (case get_profiles E S vp ns w1 of
             (w2, Inl e) \<Rightarrow> (w2, Err e)
           | (w2, Inr ps) \<Rightarrow> (w2, Ok (redact p # ps))))"

definition handle_list_remotes :: "'w daemon_env \<Rightarrow> 'w handler" where
  "handle_list_remotes E S w =
     (case dm_vault S of
        None \<Rightarrow> ((S, w), no_vault)
      | Some vp \<Rightarrow>
          (case vault_list E S vp w of
             (w1, Inl e) \<Rightarrow> ((S, w1), server_error e)
           | (w1, Inr names) \<Rightarrow>
               (case get_profiles E S vp names w1 of
                  (w2, Inl e) \<Rightarrow> ((S, w2), server_error e)
                | (w2, Inr ps) \<Rightarrow>
                    ((S, w2), write_json 200 (JObj [(''remotes'',
                       if ps = [] then JNull else JArr (map json_profile ps))])))))"

definition handle_create_remote :: "'w daemon_env \<Rightarrow> request \<Rightarrow> 'w handler" where
  "handle_create_remote E rq S w =
     (case dm_vault S of
        None \<Rightarrow> ((S, w), no_vault)
      | Some vp \<Rightarrow>
          (case de_decode E (rq_body rq) of
             Inl e \<Rightarrow> ((S, w), write_json_error 400 ''bad_request'' ''invalid JSON payload'')
           | Inr p \<Rightarrow>
               if rp_name p = '''' \<or> rp_type p = ''''
               then ((S, w), write_json_error 400 ''bad_request'' ''name and type are required'')
               else (case vault_save E S vp p w of
                       (w1, Inl e) \<Rightarrow> ((S, w1), server_error e)
                     | (w1, Inr _) \<Rightarrow>
                         ((S, w1), write_json 201 (JObj [(''name'', JStr (rp_name p)), (''status'', JStr ''created'')])))))"

definition handle_get_remote :: "'w daemon_env \<Rightarrow> string \<Rightarrow> 'w handler" where
  "handle_get_remote E name S w =
     (case dm_vault S of
        None \<Rightarrow> ((S, w), no_vault)
      | Some vp \<Rightarrow>
          if name = '''' then ((S, w), write_json_error 400 ''bad_request'' ''remote name required'')
          else (case vault_get E S vp name w of
                  (w1, Inl e) \<Rightarrow>
                    ((S, w1), if err_is e ErrRemoteNotFound
                              then write_json_error 404 ''not_found'' ''remote profile not found''
                              else server_error e)
                | (w1, Inr p) \<Rightarrow> ((S, w1), write_json 200 (json_profile p))))"

definition handle_delete_remote :: "'w daemon_env \<Rightarrow> string \<Rightarrow> 'w handler" where
  "handle_delete_remote E name S w =
     (case dm_vault S of
        None \<Rightarrow> ((S, w), no_vault)
      | Some vp \<Rightarrow>
          if name = '''' then ((S, w), write_json_error 400 ''bad_request'' ''remote name required'')
          else (case vault_delete_name E S vp name w of
                  (w1, Inl e) \<Rightarrow> ((S, w1), server_error e)
                | (w1, Inr _) \<Rightarrow> ((S\<lparr>dm_drivers := AList.delete name (dm_drivers S)\<rparr>, w1), empty_response 204)))"

text \<open>The name of the remote, the path of the object, and whether the path is that of the listing.\<close>

definition parse_storage_path :: "string \<Rightarrow> string \<times> string \<times> bool" where
  "parse_storage_path url =
     (let (remote, rest) = split2 (CHR ''/'') (trim_prefix url ''/api/v1/storage/'');
          obj = (case rest of None \<Rightarrow> '''' | Some p \<Rightarrow> p)
      in if obj = ''objects'' \<or> obj = ''objects/'' then (remote, '''', True)
         else (remote, trim_prefix obj ''objects/'', False))"

text \<open>A handler that needs the driver of the remote of its path; \<open>miss\<close> answers when there is none.\<close>

definition no_driver :: "go_error \<Rightarrow> response" where
  "no_driver e = unless_panic e (write_json_error 404 ''not_found'' (err_msg e))"

definition with_driver ::
    "'w daemon_env \<Rightarrow> request \<Rightarrow> (go_error \<Rightarrow> response) \<Rightarrow> (string \<Rightarrow> bool \<Rightarrow> 'w driver \<Rightarrow> 'w handler) \<Rightarrow> 'w handler" where
  "with_driver E rq miss f S w =
     (case parse_storage_path (url_path (rq_path rq)) of
        (remote, obj, lst) \<Rightarrow>
          (case get_driver E remote S w of
             ((S1, w1), Inl e) \<Rightarrow> ((S1, w1), miss e)
           | ((S1, w1), Inr d) \<Rightarrow> f obj lst d S1 w1))"

definition object_headers :: "'w daemon_env \<Rightarrow> object_info \<Rightarrow> (string \<times> string) list" where
  "object_headers E i =
     [(''Content-Type'', ''application/octet-stream''), (''Content-Length'', int_text (oi_size i))] @
     (if oi_etag i \<noteq> '''' then [(''ETag'', [CHR 0x22] @ oi_etag i @ [CHR 0x22])] else []) @
     [(''Last-Modified'', de_http_time E (oi_modtime i))]"

definition request_options :: "request \<Rightarrow> list_options" where
  "request_options rq =
     \<lparr>lo_prefix = query rq ''prefix'', lo_recursive = (query rq ''recursive'' \<noteq> ''false''),
      lo_max_keys = (if query rq ''max_keys'' \<noteq> ''''
                     then (case atoi (query rq ''max_keys'') of None \<Rightarrow> 0 | Some n \<Rightarrow> n) else 0),
      lo_token = query rq ''token'', lo_delimiter = ''''\<rparr>"

definition get_listing :: "ctx \<Rightarrow> request \<Rightarrow> 'w driver \<Rightarrow> 'w handler" where
  "get_listing cx rq d S w =
     (if dr_advanced d then
        (case dr_list_opts d cx (request_options rq) w of
           (w1, Inl e) \<Rightarrow> ((S, w1), server_error e)
         | (w1, Inr r) \<Rightarrow> ((S, w1), write_json 200 (json_list_result (dr_nil_lists d) r)))
      else
        (case dr_list d cx (query rq ''prefix'') w of
           (w1, Inl e) \<Rightarrow> ((S, w1), server_error e)
         | (w1, Inr obs) \<Rightarrow> ((S, w1), write_json 200 (JObj [(''objects'', json_objects (dr_nil_lists d) obs)]))))"

text \<open>
  An error of the stream comes after the headers: the status stays 200 and the body is what was
  written.
\<close>

definition get_object :: "'w daemon_env \<Rightarrow> ctx \<Rightarrow> string \<Rightarrow> 'w driver \<Rightarrow> 'w handler" where
  "get_object E cx obj d S w =
     (case dr_stat d cx obj w of
        (w1, Inl e) \<Rightarrow>
          ((S, w1), if err_is e ErrNotFound then write_json_error 404 ''not_found'' ''object not found''
                    else server_error e)
      | (w1, Inr i) \<Rightarrow>
          (case dr_stream d cx obj w1 of
             (w2, data, e) \<Rightarrow>
               ((S, w2), (case e of
                            Some x \<Rightarrow> unless_panic x
                          | None \<Rightarrow> id) \<lparr>rs_status = 200, rs_headers = object_headers E i, rs_body = RawBody data\<rparr>)))"

definition handle_storage_get :: "'w daemon_env \<Rightarrow> ctx \<Rightarrow> request \<Rightarrow> 'w handler" where
  "handle_storage_get E cx rq =
     with_driver E rq no_driver (\<lambda>obj lst d. if lst then get_listing cx rq d else get_object E cx obj d)"

definition handle_storage_put :: "'w daemon_env \<Rightarrow> ctx \<Rightarrow> request \<Rightarrow> 'w handler" where
  "handle_storage_put E cx rq =
     with_driver E rq no_driver (\<lambda>obj lst d S w.
       case dr_write d cx obj (rq_body rq) (rq_length rq) w of
         (w1, Inl e) \<Rightarrow>
           ((S, w1), if err_is e ErrPathTraversal \<or> err_is e ErrInvalidPath
                     then write_json_error 400 ''bad_request'' (err_msg e) else server_error e)
       | (w1, Inr _) \<Rightarrow>
           ((S, w1), write_json 200 (JObj [(''path'', JStr obj), (''size'', JInt (rq_length rq)),
                                           (''status'', JStr ''uploaded'')])))"

definition handle_storage_delete :: "'w daemon_env \<Rightarrow> ctx \<Rightarrow> request \<Rightarrow> 'w handler" where
  "handle_storage_delete E cx rq =
     with_driver E rq no_driver (\<lambda>obj lst d S w.
       case dr_delete d cx obj w of
         (w1, Inl e) \<Rightarrow> ((S, w1), server_error e)
       | (w1, Inr _) \<Rightarrow> ((S, w1), empty_response 204))"

definition handle_storage_head :: "'w daemon_env \<Rightarrow> ctx \<Rightarrow> request \<Rightarrow> 'w handler" where
  "handle_storage_head E cx rq =
     with_driver E rq (\<lambda>e. unless_panic e (empty_response 404)) (\<lambda>obj lst d S w.
       case dr_stat d cx obj w of
         (w1, Inl e) \<Rightarrow> ((S, w1), unless_panic e (empty_response (if err_is e ErrNotFound then 404 else 500)))
       | (w1, Inr i) \<Rightarrow> ((S, w1), \<lparr>rs_status = 200, rs_headers = object_headers E i, rs_body = NoBody\<rparr>))"

section \<open>Routing\<close>

datatype route =
    ToHealth | ToListRemotes | ToCreateRemote | ToGetRemote string | ToDeleteRemote string
  | ToStorageGet | ToStoragePut | ToStorageDelete | ToStorageHead
  | ToRedirect string | NotAllowed | NoRoute

definition remotes_path :: string where "remotes_path = ''/api/v1/remotes''"
definition storage_path :: string where "storage_path = ''/api/v1/storage/''"

text \<open>The value of \<open>{name}\<close>: one decoded segment; a slash alone does not match.\<close>

definition remote_of :: "string list \<Rightarrow> string option" where
  "remote_of segs =
     (if length segs = 4 \<and> take 3 segs = [''api'', ''v1'', ''remotes''] \<and> segs ! 3 \<noteq> ''/'' then Some (segs ! 3) else None)"

text \<open>A pattern for \<^verbatim>\<open>GET\<close> matches \<^verbatim>\<open>HEAD\<close> too, unless there is one for \<^verbatim>\<open>HEAD\<close>.\<close>

definition reads :: "string \<Rightarrow> bool" where
  "reads m \<longleftrightarrow> m = ''GET'' \<or> m = ''HEAD''"

text \<open>
  The mux cleans the escaped path, compares its decoded segments with the patterns, and redirects
  from the storage pattern without its slash and from a path that is not clean.
\<close>

definition route :: "string \<Rightarrow> string \<Rightarrow> route" where
  "route m raw =
     (let e = escaped_path raw; p = (if m = ''CONNECT'' then e else clean_url_path e); segs = segments p in
      if segs = [''api'', ''v1'', ''storage''] \<and> m \<in> {''GET'', ''HEAD'', ''PUT'', ''DELETE''}
        then ToRedirect (clean_url_path (url_path raw) @ ''/'')
      else if p \<noteq> e then ToRedirect p
      else if segs = [''api'', ''v1'', ''storage''] then NotAllowed
      else if segs = [''healthz''] \<or> segs = [''api'', ''v1'', ''health''] then (if reads m then ToHealth else NotAllowed)
      else if segs = [''api'', ''v1'', ''remotes''] then
        (if reads m then ToListRemotes else if m = ''POST'' then ToCreateRemote else NotAllowed)
      else if 3 < length segs \<and> take 3 segs = [''api'', ''v1'', ''storage''] then
        (if m = ''GET'' then ToStorageGet else if m = ''PUT'' then ToStoragePut
         else if m = ''DELETE'' then ToStorageDelete else if m = ''HEAD'' then ToStorageHead else NotAllowed)
      else (case remote_of segs of
              None \<Rightarrow> NoRoute
            | Some n \<Rightarrow> if reads m then ToGetRemote n else if m = ''DELETE'' then ToDeleteRemote n else NotAllowed))"

definition handle :: "'w daemon_env \<Rightarrow> ctx \<Rightarrow> request \<Rightarrow> 'w handler" where
  "handle E cx rq S w =
     (case route (rq_method rq) (rq_path rq) of
        ToHealth \<Rightarrow> handle_health S w
      | ToListRemotes \<Rightarrow> handle_list_remotes E S w
      | ToCreateRemote \<Rightarrow> handle_create_remote E rq S w
      | ToGetRemote n \<Rightarrow> handle_get_remote E n S w
      | ToDeleteRemote n \<Rightarrow> handle_delete_remote E n S w
      | ToStorageGet \<Rightarrow> handle_storage_get E cx rq S w
      | ToStoragePut \<Rightarrow> handle_storage_put E cx rq S w
      | ToStorageDelete \<Rightarrow> handle_storage_delete E cx rq S w
      | ToStorageHead \<Rightarrow> handle_storage_head E cx rq S w
      | ToRedirect l \<Rightarrow> ((S, w), (empty_response (de_redirect E))\<lparr>rs_headers := [(''Location'', de_location E l)]\<rparr>)
      | NotAllowed \<Rightarrow> ((S, w), empty_response 405)
      | NoRoute \<Rightarrow> ((S, w), empty_response 404))"

text \<open>
  A request through the middleware; the answer to \<^verbatim>\<open>HEAD\<close> has no body.  A target that is no path
  or has a malformed escape is refused by \<^verbatim>\<open>net/http\<close> before the program sees it.
\<close>

definition serve :: "'w daemon_env \<Rightarrow> ctx \<Rightarrow> request \<Rightarrow> 'w handler" where
  "serve E cx rq S w =
     (if \<not> good_target (rq_path rq) then ((S, w), empty_response 400)
      else case (case security_check S rq of Some r \<Rightarrow> ((S, w), r) | None \<Rightarrow> handle E cx rq S w) of
        (sw, r) \<Rightarrow> (sw, if rq_method rq = ''HEAD'' then r\<lparr>rs_body := NoBody\<rparr> else r))"

text \<open>A sequence of requests, each with the context of its calls, and the answers.\<close>

fun serve_all :: "'w daemon_env \<Rightarrow> (ctx \<times> request) list \<Rightarrow> 'w daemon \<times> 'w \<Rightarrow> ('w daemon \<times> 'w) \<times> response list" where
  "serve_all E [] sw = (sw, [])"
| "serve_all E ((cx, rq) # rqs) sw =
     (case serve E cx rq (fst sw) (snd sw) of
        (sw1, r) \<Rightarrow> (case serve_all E rqs sw1 of (sw2, rs) \<Rightarrow> (sw2, r # rs)))"

end
