(* ===== verification/Daemon_Props.thy ===== *)
theory Daemon_Props
  imports Daemon_Server
begin

text \<open>
  The properties of the daemon of \<open>Daemon_Server\<close>: access control, the token, the profiles behind
  the HTTP interface, the cache of drivers and, in the locale \<open>served_store\<close> and its interpretation
  on the local driver, the storage requests.
\<close>

declare background_simp [simp del]
declare escape_simps [simp del]

section \<open>Access control\<close>

definition authorised :: "'w daemon \<Rightarrow> request \<Rightarrow> bool" where
  "authorised S rq \<longleftrightarrow>
     loopback (host_name (rq_host rq)) \<and> rq_origin rq = '''' \<and> rq_auth rq = ''Bearer '' @ dm_token S"

lemma bearer_split: "has_prefix s ''Bearer '' \<Longrightarrow> trim_prefix s ''Bearer '' = t \<longleftrightarrow> s = ''Bearer '' @ t"
proof -
  assume "has_prefix s ''Bearer ''"
  then obtain r where s: "s = ''Bearer '' @ r" unfolding has_prefix_iff by blast
  show ?thesis unfolding s trim_prefix_append same_append_eq by blast
qed

lemma security_authorised: "authorised S rq \<Longrightarrow> security_check S rq = None"
proof -
  have "has_prefix (''Bearer '' @ t) ''Bearer ''" "trim_prefix (''Bearer '' @ t) ''Bearer '' = t" for t
    by (rule has_prefix_append, rule trim_prefix_append)
  then show "authorised S rq \<Longrightarrow> security_check S rq = None"
    unfolding authorised_def security_check_def by auto
qed

lemma serve_authorised:
  "authorised S rq \<Longrightarrow> rq_method rq \<noteq> ''HEAD'' \<Longrightarrow> good_target (rq_path rq) \<Longrightarrow> serve E cx rq S w = handle E cx rq S w"
  by (auto simp: serve_def security_authorised split: prod.splits)

lemma no_final_slash: "n \<noteq> '''' \<Longrightarrow> CHR ''/'' \<notin> set n \<Longrightarrow> \<not> has_suffix (a @ n) ''/''"
  by (cases n rule: rev_cases) (auto simp: has_suffix_def has_prefix_def)

lemma clean_url_abs:
  assumes "proper cs"
  shows "clean_url_path (abs_path cs) = abs_path cs"
proof (cases cs rule: rev_cases)
  case Nil
  have "clean_url_path (abs_path []) = abs_path []" by code_simp
  then show ?thesis by (simp add: Nil)
next
  case (snoc ds c)
  then have "c \<noteq> ''''" "CHR ''/'' \<notin> set c" using assms by (auto simp: proper_comp_def)
  moreover have "abs_path cs = abs_path (ds @ ['''']) @ c" by (simp add: snoc abs_path_snoc_append)
  ultimately have "\<not> has_suffix (abs_path cs) ''/''" by (simp add: no_final_slash)
  moreover have "take 1 (abs_path cs) = ''/''" by (simp add: abs_path_def)
  ultimately show ?thesis using assms by (simp add: clean_url_path_def Let_def)
qed

lemma join_split_all:
  "ds \<noteq> [] \<Longrightarrow> split_on (CHR ''/'') (join_with ''/'' ds) = concat (map (split_on (CHR ''/'')) ds)"
proof (induction ds)
  case (Cons d ds)
  then show ?case by (cases ds) (simp_all add: split_on_append)
qed simp

text \<open>The mux answers a public path itself, without a redirection.\<close>

lemma health_segments:
  assumes "good_target raw" "health_path (url_path raw)"
  shows "clean_url_path (escaped_path raw) = escaped_path raw"
    "concat (map (split_on (CHR ''/'')) (segments (escaped_path raw))) \<in> {[''healthz''], [''api'', ''v1'', ''health'']}"
proof -
  let ?e = "escaped_path raw" and ?h = "url_path raw"
  have "take 1 ?h = ''/''" using assms(2) by (auto simp: health_path_def)
  then have "take 1 ?e = ''/''" by (rule escaped_slash [OF assms(1)])
  then obtain q where q: "?e = CHR ''/'' # q" by (cases ?e) auto
  let ?cs = "split_on (CHR ''/'') q"
  have "?h = join_with ''/'' (map url_path (split_on (CHR ''/'') ?e))" by (rule unescape_comps [OF unescape_escaped [OF assms(1)]])
  then have "split_on (CHR ''/'') ?h = concat (map (split_on (CHR ''/'')) (map url_path ('''' # ?cs)))"
    using join_split_all [of "map url_path ('''' # ?cs)"] q by simp
  moreover have "split_on (CHR ''/'') (url_path '''') = ['''']" by code_simp
  moreover have "split_on (CHR ''/'') ?h \<in> {['''', ''healthz''], ['''', ''api'', ''v1'', ''health'']}"
    using assms(2) unfolding health_path_def by (elim disjE; simp)
  ultimately have c: "concat (map (split_on (CHR ''/'')) (map url_path ?cs)) \<in> {[''healthz''], [''api'', ''v1'', ''health'']}" by auto
  have "proper_comp c" if m: "c \<in> set ?cs" for c
  proof -
    have "set (concat (map (split_on (CHR ''/'')) (map url_path ?cs))) \<subseteq> {''healthz'', ''api'', ''v1'', ''health''}"
      using c unfolding insert_iff empty_iff by (elim disjE FalseE; simp only: list.set; blast)
    then have sub: "set (split_on (CHR ''/'') (url_path c)) \<subseteq> {''healthz'', ''api'', ''v1'', ''health''}"
      using m by (simp only: set_concat set_map) blast
    have "\<forall>d \<in> {'''', ''.'', ''..''}. \<not> set (split_on (CHR ''/'') (url_path d)) \<subseteq> {''healthz'', ''api'', ''v1'', ''health''}"
      by (simp add: url_path_def)
    then have "c \<noteq> ''''" "c \<noteq> ''.''" "c \<noteq> ''..''" using sub by blast+
    then show ?thesis using split_on_no_sep [OF m] by (simp add: proper_comp_def)
  qed
  then have p: "proper ?cs" by (simp add: list_all_iff)
  have e: "?e = abs_path ?cs" using q by (simp add: abs_path_def)
  show "clean_url_path ?e = ?e" unfolding e by (rule clean_url_abs [OF p])
  have "last ?cs \<noteq> ''''" using p by (auto simp: list_all_iff proper_comp_def)
  then have "segments ?e = map url_path ?cs" by (simp add: segments_def q)
  then show "concat (map (split_on (CHR ''/'')) (segments ?e)) \<in> {[''healthz''], [''api'', ''v1'', ''health'']}"
    using c by simp
qed

lemma concat_take: "set (concat (map f (take n xs))) \<subseteq> set (concat (map f xs))"
  by (auto dest: in_set_takeD)

lemma route_health:
  assumes "good_target raw" "health_path (url_path raw)"
  shows "route m raw \<in> {ToHealth, NotAllowed, NoRoute}"
proof -
  let ?s = "segments (escaped_path raw)" and ?f = "split_on (CHR ''/'')"
  note h = health_segments [OF assms]
  have w: "''storage'' \<notin> set (concat (map ?f ?s))" "''remotes'' \<notin> set (concat (map ?f ?s))"
    using h(2) unfolding insert_iff empty_iff by (elim disjE FalseE; simp only: list.set; simp)+
  have "?f ''api'' = [''api'']" "?f ''v1'' = [''v1'']" "?f ''storage'' = [''storage'']" "?f ''remotes'' = [''remotes'']" by simp_all
  then have "take 3 ?s \<noteq> [''api'', ''v1'', ''storage'']" "take 3 ?s \<noteq> [''api'', ''v1'', ''remotes'']"
    using w concat_take [of ?f 3 ?s] by auto
  moreover from this have "?s \<noteq> [''api'', ''v1'', ''storage'']" "?s \<noteq> [''api'', ''v1'', ''remotes'']" by auto
  ultimately show ?thesis using h(1) by (simp add: route_def Let_def remote_of_def)
qed

lemma security_denied:
  assumes "\<not> authorised S rq"
  shows "security_check S rq =
    (if \<not> loopback (host_name (rq_host rq))
     then Some (write_json_error 403 ''forbidden'' ''dns-rebinding protection: invalid host header'')
     else if rq_origin rq \<noteq> '''' then Some (write_json_error 403 ''forbidden'' ''cors origin denied'')
     else if health_path (url_path (rq_path rq)) then None else Some unauthorized)"
  using assms bearer_split [of "rq_auth rq" "dm_token S"] by (auto simp: security_check_def authorised_def)

lemma serve_denied: "\<not> authorised S rq \<Longrightarrow> fst (serve E cx rq S w) = (S, w)"
  using route_health [of "rq_path rq" "rq_method rq"]
  by (auto simp: serve_def security_denied handle_def handle_health_def Let_def)

text \<open>C3: A request that does not name the loopback interface as its host, that carries an \<^verbatim>\<open>Origin\<close>, or that does
  not bear the token changes neither the server nor the world.  It is answered 403 or 401, except
  for the public health paths (200, or 405 for another method, or 404 when the path was sent with an
  escaped slash) and for targets that \<^verbatim>\<open>net/http\<close> itself refuses (400), and the answer is the same
  whatever the world, the token, the profiles and the drivers are: it depends on the version only.
\<close>

theorem daemon_denies:
  assumes "\<not> authorised S rq"
  shows "fst (serve E cx rq S w) = (S, w)
    \<and> rs_status (snd (serve E cx rq S w)) \<in>
        (if \<not> good_target (rq_path rq) then {400} else if health_path (url_path (rq_path rq)) then {200, 403, 404, 405} else {401, 403})
    \<and> (\<forall>S' w'. \<not> authorised S' rq \<and> dc_version (dm_cfg S') = dc_version (dm_cfg S) \<longrightarrow>
         snd (serve E cx rq S' w') = snd (serve E cx rq S w))"
proof (cases "good_target (rq_path rq) \<and> health_path (url_path (rq_path rq))")
  case True
  then show ?thesis using route_health [of "rq_path rq" "rq_method rq"] assms
    by (auto simp: serve_def security_denied handle_def handle_health_def empty_response_def write_json_error_def
        write_json_def Let_def)
next
  case False
  then show ?thesis using assms
    by (auto simp: serve_def security_denied write_json_error_def write_json_def unauthorized_def empty_response_def)
qed

text \<open>A server and requests for the witnesses.\<close>

definition demo_env :: "fs daemon_env" where
  "demo_env = \<lparr>de_os = id, de_put_os = (\<lambda>a w. a), de_vault = demo_vault, de_connect = (\<lambda>r c e p. Err ErrNotFound),
     de_decode = (\<lambda>b. if rd_data b = [] then Err ErrEOF else Ok demo_profile), de_http_time = (\<lambda>t. ''''), de_redirect = 307,
     de_location = id\<rparr>"

definition demo_daemon :: "fs daemon" where
  "demo_daemon = \<lparr>dm_cfg = \<lparr>dc_addr = ''127.0.0.1:8080'', dc_token_file = '''', dc_vault_path = ''/srv/v'',
       dc_passphrase = ''pw'', dc_static_token = ''tok'', dc_version = ''''\<rparr>, dm_token = ''tok'',
     dm_vault = Some ''/srv/v'', dm_drivers = [], dm_next = 0\<rparr>"

definition demo_request :: "string \<Rightarrow> string \<Rightarrow> bytes \<Rightarrow> request" where
  "demo_request m p d = \<lparr>rq_method = m, rq_host = ''localhost:8080'', rq_origin = '''', rq_auth = ''Bearer tok'',
     rq_path = p, rq_query = [], rq_length = int (length d), rq_body = bytes_reader d\<rparr>"

lemma demo_authorised: "dm_token S = ''tok'' \<Longrightarrow> authorised S (demo_request m p d)"
proof -
  have "loopback (host_name ''localhost:8080'')" by code_simp
  then show "dm_token S = ''tok'' \<Longrightarrow> authorised S (demo_request m p d)"
    by (simp add: authorised_def demo_request_def)
qed

lemma daemon_denies_witness:
  "fst (serve demo_env background ((demo_request ''DELETE'' ''/api/v1/remotes/b1'' [])\<lparr>rq_host := ''evil.test''\<rparr>) demo_daemon plain_fs)
    = (demo_daemon, plain_fs)"
proof -
  have "\<not> loopback (host_name ''evil.test'')" by code_simp
  then have "\<not> authorised demo_daemon ((demo_request ''DELETE'' ''/api/v1/remotes/b1'' [])\<lparr>rq_host := ''evil.test''\<rparr>)"
    by (simp add: authorised_def)
  then show ?thesis by (rule conjunct1 [OF daemon_denies])
qed

section \<open>What a session keeps\<close>

text \<open>
  The configuration, the token and the vault of the server, and every driver whose name is not in
  \<open>X\<close>.
\<close>

definition keeps :: "string set \<Rightarrow> 'w daemon \<Rightarrow> 'w daemon \<Rightarrow> bool" where
  "keeps X S S' \<longleftrightarrow> dm_cfg S' = dm_cfg S \<and> dm_token S' = dm_token S \<and> dm_vault S' = dm_vault S \<and>
     (\<forall>n d. n \<notin> X \<longrightarrow> map_of (dm_drivers S) n = Some d \<longrightarrow> map_of (dm_drivers S') n = Some d)"

lemma keeps_refl [simp]: "keeps X S S"
  by (simp add: keeps_def)

lemma keeps_trans: "keeps X S S1 \<Longrightarrow> keeps X S1 S2 \<Longrightarrow> keeps X S S2"
  by (auto simp: keeps_def)

lemma keeps_mono: "keeps X S S' \<Longrightarrow> X \<subseteq> Y \<Longrightarrow> keeps Y S S'"
  by (auto simp: keeps_def)

lemma get_driver_keeps: "get_driver E name S w = ((S', w'), r) \<Longrightarrow> keeps {} S S'"
  by (auto simp: get_driver_def keeps_def register_driver_def split: option.splits prod.splits sum.splits if_splits)

lemma get_driver_cached: "map_of (dm_drivers S) name = Some d \<Longrightarrow> get_driver E name S w = ((S, w), Ok d)"
  by (simp add: get_driver_def)

lemma get_driver_caches: "get_driver E name S w = ((S', w'), Ok d) \<Longrightarrow> map_of (dm_drivers S') name = Some d"
  by (auto simp: get_driver_def register_driver_def split: option.splits prod.splits sum.splits if_splits)

lemma with_driver_keeps:
  assumes "\<And>obj lst d S w. fst (fst (f obj lst d S w)) = S"
  shows "keeps {} S (fst (fst (with_driver E rq miss f S w)))"
  by (auto simp: with_driver_def assms split: prod.splits sum.splits dest: get_driver_keeps)

text \<open>The remote whose driver a request drops.\<close>

definition dropped :: "request \<Rightarrow> string set" where
  "dropped rq = (case route (rq_method rq) (rq_path rq) of ToDeleteRemote n \<Rightarrow> {n} | _ \<Rightarrow> {})"

lemma storage_keeps:
  "keeps {} S (fst (fst (handle_storage_get E cx rq S w)))"
  "keeps {} S (fst (fst (handle_storage_put E cx rq S w)))"
  "keeps {} S (fst (fst (handle_storage_delete E cx rq S w)))"
  "keeps {} S (fst (fst (handle_storage_head E cx rq S w)))"
  unfolding handle_storage_get_def handle_storage_put_def handle_storage_delete_def handle_storage_head_def
  by (rule with_driver_keeps; auto simp: get_listing_def get_object_def split: prod.splits sum.splits)+

lemma remotes_keep:
  "fst (fst (handle_list_remotes E S w)) = S" "fst (fst (handle_create_remote E rq S w)) = S"
  "fst (fst (handle_get_remote E n S w)) = S" "keeps {n} S (fst (fst (handle_delete_remote E n S w)))"
  by (auto simp: handle_list_remotes_def handle_create_remote_def handle_get_remote_def handle_delete_remote_def
      keeps_def split: option.splits prod.splits sum.splits)

lemma handle_keeps: "keeps (dropped rq) S (fst (fst (handle E cx rq S w)))"
  by (cases "route (rq_method rq) (rq_path rq)")
    (simp_all add: handle_def dropped_def handle_health_def Let_def storage_keeps remotes_keep)

lemma serve_keeps: "keeps (if authorised S rq then dropped rq else {}) S (fst (fst (serve E cx rq S w)))"
proof (cases "authorised S rq")
  case True
  then show ?thesis using handle_keeps [of rq S E cx w] by (simp add: serve_def security_authorised split_beta)
next
  case False
  then show ?thesis by (simp add: serve_denied)
qed

lemma serve_all_keeps:
  assumes "serve_all E rqs (S, w) = ((S', w'), rs)"
  shows "keeps (\<Union>(cx, rq) \<in> set rqs. if authorised S rq then dropped rq else {}) S S' \<and> length rs = length rqs"
  using assms
proof (induction rqs arbitrary: S w rs)
  case Nil
  then show ?case by simp
next
  case (Cons q rqs)
  obtain cx rq where q: "q = (cx, rq)" by force
  obtain S1 w1 r where 1: "serve E cx rq S w = ((S1, w1), r)" by (metis prod.collapse)
  obtain rs' where 2: "serve_all E rqs (S1, w1) = ((S', w'), rs')" "rs = r # rs'"
    using Cons.prems by (auto simp: q 1 split: prod.splits)
  have k: "keeps (if authorised S rq then dropped rq else {}) S S1" using serve_keeps [of S rq E cx w] by (simp add: 1)
  then have "authorised S1 = authorised S" by (auto simp: keeps_def authorised_def fun_eq_iff)
  then show ?case using Cons.IH [OF 2(1)] k 2(2)
    by (auto simp: q intro: keeps_trans [OF keeps_mono [OF k] keeps_mono])
qed

text \<open>C21: Once the daemon has made a driver for a remote, every later request gets the same driver, without
  opening the vault again, until an authorised request deletes the remote: no other sequence of
  requests, the creation of a profile of that name included, replaces it.  The token, the
  configuration and the vault's path never change, and every request is answered.
\<close>

theorem daemon_driver_identity:
  assumes "get_driver E name S w = ((S1, w1), Ok d)" "serve_all E rqs (S1, w1) = ((S2, w2), rs)"
    and "\<forall>(cx, rq) \<in> set rqs. \<not> (authorised S rq \<and> route (rq_method rq) (rq_path rq) = ToDeleteRemote name)"
  shows "(\<forall>w'. get_driver E name S2 w' = ((S2, w'), Ok d)) \<and> dm_token S2 = dm_token S \<and> dm_cfg S2 = dm_cfg S
    \<and> dm_vault S2 = dm_vault S \<and> length rs = length rqs"
proof -
  note k1 = get_driver_keeps [OF assms(1)]
  then have a: "authorised S1 = authorised S" by (auto simp: keeps_def authorised_def fun_eq_iff)
  have "name \<notin> (\<Union>(cx, rq) \<in> set rqs. if authorised S rq then dropped rq else {})"
    using assms(3) by (auto simp: dropped_def split: route.splits if_splits)
  then have "keeps {n. n \<noteq> name} S1 S2"
    by (intro keeps_mono [OF conjunct1 [OF serve_all_keeps [OF assms(2)]]]) (auto simp: a)
  then have "map_of (dm_drivers S2) name = Some d" "keeps {n. n \<noteq> name} S1 S2"
    using get_driver_caches [OF assms(1)] by (simp_all add: keeps_def)
  then show ?thesis using k1 serve_all_keeps [OF assms(2)] by (simp add: get_driver_cached keeps_def)
qed

lemma daemon_driver_identity_witness:
  "\<exists>S2 w2 rs. serve_all demo_env [(background, demo_request ''POST'' ''/api/v1/remotes'' [1]), (background, demo_request ''DELETE'' ''/api/v1/remotes/b2'' [])]
      (register_driver ''b1'' (local_driver ''/srv'' 0) demo_daemon, plain_fs) = ((S2, w2), rs)
    \<and> get_driver demo_env ''b1'' S2 w2 = ((S2, w2), Ok (local_driver ''/srv'' 0)) \<and> length rs = 2"
proof -
  let ?S = "register_driver ''b1'' (local_driver ''/srv'' 0) demo_daemon"
  let ?q = "[(background, demo_request ''POST'' ''/api/v1/remotes'' [1]), (background, demo_request ''DELETE'' ''/api/v1/remotes/b2'' [])]"
  have 1: "get_driver demo_env ''b1'' ?S plain_fs = ((?S, plain_fs), Ok (local_driver ''/srv'' 0))"
    by (simp add: get_driver_def register_driver_def)
  obtain S2 w2 rs where 2: "serve_all demo_env ?q (?S, plain_fs) = ((S2, w2), rs)" by (metis prod.collapse)
  have "route ''POST'' ''/api/v1/remotes'' = ToCreateRemote" "route ''DELETE'' ''/api/v1/remotes/b2'' = ToDeleteRemote ''b2''"
    by code_simp+
  then have "\<forall>(cx, rq) \<in> set ?q. \<not> (authorised ?S rq \<and> route (rq_method rq) (rq_path rq) = ToDeleteRemote ''b1'')"
    by (simp add: demo_request_def)
  from daemon_driver_identity [OF 1 2 this] 2 show ?thesis by auto
qed

section \<open>The token\<close>

lemma hex_encode_digits: "set (hex_encode b) \<subseteq> set ''0123456789abcdef''"
proof -
  have "list_all (\<lambda>n. hex_digit n \<in> set ''0123456789abcdef'') [0..<16]" by code_simp
  then have d: "hex_digit n \<in> set ''0123456789abcdef''" if "n < 16" for n using that by (simp only: list_all_iff set_upt) simp
  have "unat x < 256" for x :: byte using unsigned_less [of x] by simp
  then have "unat x div 16 < 16" for x :: byte by (simp add: div_less_iff_less_mult)
  then have "set [hex_digit (unat x div 16), hex_digit (unat x mod 16)] \<subseteq> set ''0123456789abcdef''" for x :: byte
    using d [of "unat x div 16"] d [of "unat x mod 16"] by (simp del: list.set(2)) (simp only: list.set(2) insert_subset list.set(1) empty_subsetI conj_assoc)
  then show ?thesis unfolding hex_encode_def set_concat set_map by blast
qed

text \<open>C22: The first start without a token draws 32 random bytes and leaves their 64 hexadecimal digits in the
  token file, readable by its owner only, with no other file changed; every later start reads the
  same token back.
\<close>

theorem daemon_token_restart:
  assumes "plain_world w r" "proper_comp f" "map_of (nodes w) (r @ [f]) = None"
    and "dc_static_token cfg = ''''" "dc_token_file cfg = abs_path (r @ [f])"
  shows "\<exists>w1 tok t. init_token cfg w = (w1, Ok tok) \<and> length tok = 64 \<and> set tok \<subseteq> set ''0123456789abcdef''
    \<and> map_of (nodes w1) = (map_of (nodes w))(r @ [f] \<mapsto> File (str_bytes (tok @ [CHR 0x0A])) t 384)
    \<and> init_token cfg w1 = (tick w1, Ok tok)"
proof -
  let ?p = "abs_path (r @ [f])"
  have rd: "os_read_file ?p v = (tick v, case map_of (nodes v) (r @ [f]) of None \<Rightarrow> Inl ENOENT | Some (File d m pm) \<Rightarrow> Inr d | _ \<Rightarrow> Inl EISDIR)"
    if "plain_world v r" for v
    using os_read_file_plain [OF that, of "[f]"] assms(2) clear_way_single by simp
  define tok where "tok = hex_encode (map (entropy w (Suc (Suc (ticks w)))) [0..<32])"
  define w2 where "w2 = tick (tick w)"
  have g: "generate_token (tick w) = (w2, Ok tok)"
    using plain_worldD(3) [OF assms(1)] by (simp add: generate_token_def os_rand_def sys_plain tok_def w2_def)
  have pd: "path_dir ?p = abs_path r"
    by (rule path_dir_abs) (use plain_worldD(5) [OF assms(1)] assms(2) in simp)
  obtain w3 where 3: "os_mkdir_all (abs_path r) 448 w2 = (w3, Inr ())" "plain_world w3 r" "map_of (nodes w3) = map_of (nodes w)"
    using mkdir_again [of w2 r 448] assms(1) by (auto simp: w2_def)
  obtain w4 t where 4: "os_write_file ?p (str_bytes (tok @ [CHR 0x0A])) 384 w3 = (w4, Inr ())" "plain_world w4 r"
    "map_of (nodes w4) = (map_of (nodes w3))(r @ [f] \<mapsto> File (str_bytes (tok @ [CHR 0x0A])) t 384)"
    using write_file_plain [OF 3(2) assms(2)] assms(3) 3(3) by metis
  have tok: "length tok = 64" "set tok \<subseteq> set ''0123456789abcdef''"
    by (simp add: tok_def) (unfold tok_def, rule hex_encode_digits)
  have hex: "x \<notin> hd ` set space_runes \<and> x \<notin> last ` set space_runes" if "x \<in> set tok" for x
  proof -
    have "list_all (\<lambda>x. x \<notin> hd ` set space_runes \<and> x \<notin> last ` set space_runes) ''0123456789abcdef''" by code_simp
    then show ?thesis unfolding list_all_iff using subsetD [OF tok(2) that] by (rule bspec)
  qed
  have ne: "tok \<noteq> ''''" using tok(1) by auto
  then have "no_space_ends tok" using hex by (intro no_space_ends_chars) simp_all
  moreover have "list_all (\<lambda>r. \<not> has_prefix (tok @ [CHR 0x0A]) r) space_runes"
    by (rule no_space_prefix) (use ne hex in simp_all)
  ultimately have "trim_space (tok @ [CHR 0x0A]) = tok" by (intro trim_space_line) (auto simp: ascii_space_def)
  then have "init_token cfg w4 = (tick w4, Ok tok)" using 4(3) assms(4,5) tok(1)
    by (simp add: init_token_def rd [OF 4(2)])
  moreover have "init_token cfg w = (w4, Ok tok)"
    using 3(1) 4(1) assms(3-5) by (simp add: init_token_def rd [OF assms(1)] make_token_def g pd)
  ultimately show ?thesis using tok 3(3) 4(3) by metis
qed

lemma daemon_token_restart_witness:
  "\<exists>w1 tok. init_token ((dm_cfg demo_daemon)\<lparr>dc_static_token := '''', dc_token_file := abs_path ([''srv''] @ [''t''])\<rparr>) plain_fs = (w1, Ok tok)
    \<and> length tok = 64
    \<and> init_token ((dm_cfg demo_daemon)\<lparr>dc_static_token := '''', dc_token_file := abs_path ([''srv''] @ [''t''])\<rparr>) w1 = (tick w1, Ok tok)"
proof -
  have "proper_comp ''t''" by code_simp
  moreover have "map_of (nodes plain_fs) ([''srv''] @ [''t'']) = None" by (simp add: plain_fs_def demo_fs_def)
  ultimately show ?thesis
    using daemon_token_restart [OF vault_worldD(1) [OF demo_vault_world], of "''t''"
      "(dm_cfg demo_daemon)\<lparr>dc_static_token := '''', dc_token_file := abs_path ([''srv''] @ [''t''])\<rparr>"] by auto
qed

section \<open>Routes\<close>

text \<open>A request with another method and another path, which is sent escaped.\<close>

definition ask :: "string \<Rightarrow> string \<Rightarrow> request \<Rightarrow> request" where
  "ask m p rq = rq\<lparr>rq_method := m, rq_path := url_escape p\<rparr>"

lemma ask_simps [simp]:
  "rq_method (ask m p rq) = m" "rq_path (ask m p rq) = url_escape p" "rq_body (ask m p rq) = rq_body rq"
  "rq_length (ask m p rq) = rq_length rq" "authorised S (ask m p rq) = authorised S rq"
  by (simp_all add: ask_def authorised_def)

lemma authorised_drivers [simp]: "authorised (S\<lparr>dm_drivers := ds\<rparr>) rq = authorised S rq"
  by (simp add: authorised_def)

lemma route_clean:
  assumes "clean_url_path (CHR ''/'' # q) = CHR ''/'' # q"
  shows "clean_url_path (url_escape (CHR ''/'' # q)) = url_escape (CHR ''/'' # q)"
  by (rule clean_escape) (simp_all add: assms)

lemma route_remote:
  assumes "proper_comp n"
  shows "route ''GET'' (url_escape (remotes_path @ ''/'' @ n)) = ToGetRemote n"
    "route ''DELETE'' (url_escape (remotes_path @ ''/'' @ n)) = ToDeleteRemote n"
proof -
  let ?q = "join_with ''/'' [''api'', ''v1'', ''remotes'', n]"
  let ?e = "url_escape (CHR ''/'' # ?q)"
  have p: "remotes_path @ ''/'' @ n = CHR ''/'' # ?q" "CHR ''/'' # ?q = abs_path [''api'', ''v1'', ''remotes'', n]"
    by (simp_all add: abs_path_def remotes_path_def)
  have pr: "proper [''api'', ''v1'', ''remotes'', n]" using assms by (simp add: proper_comp_def)
  have c: "clean_url_path ?e = ?e" by (rule route_clean, unfold p(2), rule clean_url_abs [OF pr])
  have n: "n \<noteq> ''''" "n \<noteq> ''/''" using assms by (auto simp: proper_comp_def)
  have "split_on (CHR ''/'') ?q = [''api'', ''v1'', ''remotes'', n]" using pr by (rule proper_split) simp
  then have s: "segments ?e = [''api'', ''v1'', ''remotes'', n]" unfolding segments_escape using n(1) by simp
  then have "route m ?e = (if m = ''GET'' \<or> m = ''HEAD'' then ToGetRemote n else if m = ''DELETE'' then ToDeleteRemote n
      else NotAllowed)" for m
    unfolding route_def Let_def escaped_escape c using n(2) by (simp add: reads_def remote_of_def del: join_with.simps)
  then show "route ''GET'' (url_escape (remotes_path @ ''/'' @ n)) = ToGetRemote n"
    "route ''DELETE'' (url_escape (remotes_path @ ''/'' @ n)) = ToDeleteRemote n"
    unfolding p(1) by simp_all
qed

lemma route_remotes: "route ''GET'' (url_escape remotes_path) = ToListRemotes" "route ''POST'' (url_escape remotes_path) = ToCreateRemote"
  by code_simp+

lemma good_paths [simp]:
  "good_target (url_escape (remotes_path @ s))" "good_target (url_escape remotes_path)" "good_target (url_escape (storage_path @ s))"
  by (rule good_target_escape, simp add: remotes_path_def storage_path_def)+

section \<open>Profiles over HTTP\<close>

text \<open>
  A daemon whose vault is the file \<open>f\<close> of the directory \<open>r\<close> and holds the profiles \<open>s\<close>.
\<close>

definition holds :: "'w daemon_env \<Rightarrow> 'w daemon \<Rightarrow> string list \<Rightarrow> string \<Rightarrow> profiles \<Rightarrow> 'w \<Rightarrow> bool" where
  "holds E S r f s w \<longleftrightarrow> lens (de_os E) (de_put_os E) \<and> dm_vault S = Some (abs_path (r @ [f]))
     \<and> vault_world (de_vault E) r f (de_os E w)
     \<and> vault_content (de_vault E) (str_bytes (dc_passphrase (dm_cfg S))) r f (de_os E w) = Ok (Some s)"

lemma holdsD:
  assumes "holds E S r f s w"
  shows "de_os E (de_put_os E a w) = a" "dm_vault S = Some (abs_path (r @ [f]))"
    "vault_world (de_vault E) r f (de_os E w)"
    "vault_content (de_vault E) (str_bytes (dc_passphrase (dm_cfg S))) r f (de_os E w) = Ok (Some s)"
  using assms by (simp_all add: holds_def lens_def)

lemma holds_put:
  assumes "holds E S r f s w" "vault_world (de_vault E) r f a"
    "vault_content (de_vault E) (str_bytes (dc_passphrase (dm_cfg S))) r f a = Ok (Some s')"
  shows "holds E S r f s' (de_put_os E a w)"
  using assms by (simp add: holds_def lens_def)

lemma holds_drivers [simp]: "holds E (S\<lparr>dm_drivers := ds\<rparr>) r f s w = holds E S r f s w"
  by (simp add: holds_def)

lemma vault_get_holds:
  assumes "holds E S r f s w"
  shows "\<exists>w'. vault_get E S (abs_path (r @ [f])) n w = (w', case map_of s n of None \<Rightarrow> Err ErrRemoteNotFound | Some q \<Rightarrow> Ok q)
    \<and> holds E S r f s w' \<and> nodes (de_os E w') = nodes (de_os E w)"
  using get_remote_plain [OF holdsD(3,4) [OF assms]] holds_put [OF assms, of "tick (de_os E w)" s] holdsD [OF assms]
  by (simp add: vault_get_def on_part_def)

lemma vault_list_holds:
  assumes "holds E S r f s w"
  shows "\<exists>w'. vault_list E S (abs_path (r @ [f])) w = (w', Ok (sort (map fst s)))
    \<and> holds E S r f s w' \<and> nodes (de_os E w') = nodes (de_os E w)"
  using list_remotes_plain [OF holdsD(3,4) [OF assms]] holds_put [OF assms, of "tick (de_os E w)" s] holdsD [OF assms]
  by (simp add: vault_list_def on_part_def)

lemma get_profiles_holds:
  assumes "holds E S r f s w" "set ns \<subseteq> dom (map_of s)"
  shows "\<exists>w'. get_profiles E S (abs_path (r @ [f])) ns w = (w', Ok (map (\<lambda>n. redact (the (map_of s n))) ns))
    \<and> nodes (de_os E w') = nodes (de_os E w)"
  using assms
proof (induction ns arbitrary: w)
  case Nil
  then show ?case by simp
next
  case (Cons n ns)
  obtain p where p: "map_of s n = Some p" using Cons.prems(2) by auto
  obtain w1 where 1: "vault_get E S (abs_path (r @ [f])) n w = (w1, Ok p)" "holds E S r f s w1" "nodes (de_os E w1) = nodes (de_os E w)"
    using vault_get_holds [OF Cons.prems(1), of n] p by auto
  then show ?case using Cons.IH [OF 1(2)] Cons.prems(2) p by auto
qed

text \<open>C12: The listing of the profiles answers one entry for each name of the vault, in the order of the names,
  with every field of the stored profile except the secret key, in whose place stand eight stars: no
  secret key of the vault leaves it this way.  No file changes.
\<close>

theorem daemon_list_hides_secrets:
  assumes "holds E S r f s w" "authorised S rq"
  shows "\<exists>w' ps. serve E cx (ask ''GET'' remotes_path rq) S w =
      ((S, w'), write_json 200 (JObj [(''remotes'', if ps = [] then JNull else JArr (map json_profile ps))]))
    \<and> ps = map (\<lambda>n. redact (the (map_of s n))) (sort (map fst s))
    \<and> (\<forall>p \<in> set ps. rp_secret_key p = '''' \<or> rp_secret_key p = ''********'')
    \<and> nodes (de_os E w') = nodes (de_os E w)"
proof -
  note h = holdsD [OF assms(1)]
  obtain w1 where 1: "vault_list E S (abs_path (r @ [f])) w = (w1, Ok (sort (map fst s)))" "holds E S r f s w1"
    "nodes (de_os E w1) = nodes (de_os E w)" using vault_list_holds [OF assms(1)] by blast
  have "set (sort (map fst s)) \<subseteq> dom (map_of s)" by (simp add: dom_map_of_conv_image_fst)
  from get_profiles_holds [OF 1(2) this] obtain w2 where
    2: "get_profiles E S (abs_path (r @ [f])) (sort (map fst s)) w1 = (w2, Ok (map (\<lambda>n. redact (the (map_of s n))) (sort (map fst s))))"
    "nodes (de_os E w2) = nodes (de_os E w1)" by blast
  have "serve E cx (ask ''GET'' remotes_path rq) S w = handle_list_remotes E S w"
    by (simp add: serve_authorised assms(2) handle_def route_remotes)
  moreover have "rp_secret_key (redact p) = '''' \<or> rp_secret_key (redact p) = ''********''" for p
    by (simp add: redact_def)
  ultimately show ?thesis using 1 2 by (auto simp: handle_list_remotes_def h(2))
qed

lemma demo_holds: "holds demo_env demo_daemon [''srv''] ''v'' [] plain_fs"
proof -
  have "abs_path ([''srv''] @ [''v'']) = ''/srv/v''" by code_simp
  moreover have "vault_content demo_vault (str_bytes ''pw'') [''srv''] ''v'' plain_fs = Ok (Some [])"
    by (simp add: vault_content_def plain_fs_def demo_fs_def)
  ultimately show ?thesis using demo_vault_world by (simp add: holds_def lens_def demo_env_def demo_daemon_def)
qed

lemma vault_save_holds:
  assumes "holds E S r f s w" "kdf_ok (de_vault E) (str_bytes (dc_passphrase (dm_cfg S)))"
    and "codec_ok (de_vault E) (AList.update (rp_name p) p s)"
  shows "\<exists>w' s'. vault_save E S (abs_path (r @ [f])) p w = (w', Ok ()) \<and> holds E S r f s' w'
    \<and> distinct (map fst s') \<and> map_of s' = (map_of s)(rp_name p \<mapsto> p)"
proof -
  obtain a s' where "save_remote (de_vault E) (abs_path (r @ [f])) (dc_passphrase (dm_cfg S)) p (de_os E w) = (a, Ok ())"
    "vault_world (de_vault E) r f a" "vault_content (de_vault E) (str_bytes (dc_passphrase (dm_cfg S))) r f a = Ok (Some s')"
    "distinct (map fst s')" "map_of s' = (map_of s)(rp_name p \<mapsto> p)"
    using save_remote_plain [OF holdsD(3) [OF assms(1)] assms(2) holdsD(4) [OF assms(1)] assms(3)] by blast
  then show ?thesis using holds_put [OF assms(1)] by (auto simp: vault_save_def on_part_def)
qed

lemma vault_delete_holds:
  assumes "holds E S r f s w" "kdf_ok (de_vault E) (str_bytes (dc_passphrase (dm_cfg S)))"
    and "codec_ok (de_vault E) (AList.delete name s)"
  shows "\<exists>w' s'. vault_delete_name E S (abs_path (r @ [f])) name w = (w', Ok ()) \<and> holds E S r f s' w'
    \<and> map_of s' = (map_of s)(name := None)"
proof -
  obtain a s' where "delete_remote (de_vault E) (abs_path (r @ [f])) (dc_passphrase (dm_cfg S)) name (de_os E w) = (a, Ok ())"
    "vault_world (de_vault E) r f a" "vault_content (de_vault E) (str_bytes (dc_passphrase (dm_cfg S))) r f a = Ok (Some s')"
    "map_of s' = (map_of s)(name := None)"
    using delete_remote_plain [OF holdsD(3) [OF assms(1)] assms(2) holdsD(4) [OF assms(1)] assms(3)] by blast
  then show ?thesis using holds_put [OF assms(1)] by (auto simp: vault_delete_name_def on_part_def)
qed

text \<open>C20: The life of a profile over HTTP: it is created with 201, read back with 200 and every field as it was
  sent (the secret key included: only the listing hides it), deleted with 204, which also drops its
  driver, and after that answered with 404.
\<close>

theorem daemon_remote_lifecycle:
  assumes "holds E S r f s w" "authorised S rq" "kdf_ok (de_vault E) (str_bytes (dc_passphrase (dm_cfg S)))"
    and "de_decode E (rq_body rq) = Ok p" "proper_comp (rp_name p)" "rp_type p \<noteq> ''''"
    and "codec_ok (de_vault E) (AList.update (rp_name p) p s)"
    and "\<And>s'. distinct (map fst s') \<Longrightarrow> map_of s' = (map_of s)(rp_name p \<mapsto> p) \<Longrightarrow> codec_ok (de_vault E) (AList.delete (rp_name p) s')"
  shows "\<exists>w1 w2 w3 w4 S3.
    serve E cx (ask ''POST'' remotes_path rq) S w =
      ((S, w1), write_json 201 (JObj [(''name'', JStr (rp_name p)), (''status'', JStr ''created'')])) \<and>
    serve E cx (ask ''GET'' (remotes_path @ ''/'' @ rp_name p) rq) S w1 = ((S, w2), write_json 200 (json_profile p)) \<and>
    serve E cx (ask ''DELETE'' (remotes_path @ ''/'' @ rp_name p) rq) S w2 = ((S3, w3), empty_response 204) \<and>
    S3 = S\<lparr>dm_drivers := AList.delete (rp_name p) (dm_drivers S)\<rparr> \<and>
    serve E cx (ask ''GET'' (remotes_path @ ''/'' @ rp_name p) rq) S3 w3 =
      ((S3, w4), write_json_error 404 ''not_found'' ''remote profile not found'')"
proof -
  let ?vp = "abs_path (r @ [f])"
  define S3 where "S3 = S\<lparr>dm_drivers := AList.delete (rp_name p) (dm_drivers S)\<rparr>"
  have n: "rp_name p \<noteq> ''''" using assms(5) by (auto simp: proper_comp_def)
  have v: "dm_vault S = Some ?vp" "dm_vault S3 = Some ?vp" using holdsD(2) [OF assms(1)] by (simp_all add: S3_def)
  have a: "authorised S3 rq" using assms(2) by (simp add: S3_def)
  obtain w1 s1 where 1: "vault_save E S ?vp p w = (w1, Ok ())" "holds E S r f s1 w1" "distinct (map fst s1)"
    "map_of s1 = (map_of s)(rp_name p \<mapsto> p)"
    using vault_save_holds [OF assms(1,3,7)] by blast
  obtain w2 where 2: "vault_get E S ?vp (rp_name p) w1 = (w2, Ok p)" "holds E S r f s1 w2"
    using vault_get_holds [OF 1(2), of "rp_name p"] 1(4) by auto
  obtain w3 s3 where 3: "vault_delete_name E S ?vp (rp_name p) w2 = (w3, Ok ())" "holds E S r f s3 w3"
    "map_of s3 = (map_of s1)(rp_name p := None)"
    using vault_delete_holds [OF 2(2) assms(3) assms(8) [OF 1(3,4)]] by blast
  have "holds E S3 r f s3 w3" using 3(2) by (simp add: S3_def)
  then obtain w4 where 4: "vault_get E S3 ?vp (rp_name p) w3 = (w4, Err ErrRemoteNotFound)"
    using vault_get_holds [of E S3 r f s3 w3 "rp_name p"] 3(3) by auto
  show ?thesis
    using 1(1) 2(1) 3(1) 4
    by - (rule exI [of _ w1], rule exI [of _ w2], rule exI [of _ w3], rule exI [of _ w4], rule exI [of _ S3],
      simp add: serve_authorised assms(2,4,6) a n v handle_def route_remotes route_remote [OF assms(5), simplified]
        handle_create_remote_def handle_get_remote_def handle_delete_remote_def S3_def [symmetric])
qed

lemma demo_env_vault:
  "kdf_ok (de_vault demo_env) pass" "codec_ok (de_vault demo_env) [(''b1'', demo_profile)]" "codec_ok (de_vault demo_env) []"
  "rp_name demo_profile = ''b1''" "rp_type demo_profile = ''s3''"
  using demo_vault_ok by (simp_all add: demo_env_def demo_profile_def)

lemma distinct_one: "set xs = {a} \<Longrightarrow> distinct xs \<Longrightarrow> xs = [a]"
  by (cases xs) (auto simp: subset_singleton_iff)

lemma demo_holds_one: "\<exists>w s. holds demo_env demo_daemon [''srv''] ''v'' s w \<and> map fst s = [''b1''] \<and> map_of s ''b1'' = Some demo_profile"
proof -
  have "codec_ok (de_vault demo_env) (AList.update (rp_name demo_profile) demo_profile [])"
    using demo_env_vault(2,4) by simp
  from vault_save_holds [OF demo_holds demo_env_vault(1) this] obtain w s where
    h: "holds demo_env demo_daemon [''srv''] ''v'' s w" "distinct (map fst s)" "map_of s = (map_of [])(rp_name demo_profile \<mapsto> demo_profile)"
    by (elim exE conjE)
  have "set (map fst s) = {''b1''}"
    using dom_map_of_conv_image_fst [of s] unfolding h(3) demo_env_vault(4) by simp
  then have "map fst s = [''b1'']" using h(2) by (rule distinct_one)
  moreover have "map_of s ''b1'' = Some demo_profile" unfolding h(3) demo_env_vault(4) by simp
  ultimately show ?thesis using h(1) by (intro exI conjI)
qed

lemma daemon_list_hides_secrets_witness:
  "\<exists>w w'. serve demo_env background (ask ''GET'' remotes_path (demo_request ''GET'' '''' [])) demo_daemon w =
    ((demo_daemon, w'), write_json 200 (JObj [(''remotes'', JArr [json_profile (demo_profile\<lparr>rp_secret_key := ''********''\<rparr>)])]))"
proof -
  obtain w s where h: "holds demo_env demo_daemon [''srv''] ''v'' s w" "map fst s = [''b1'']" "map_of s ''b1'' = Some demo_profile"
    using demo_holds_one by (elim exE conjE)
  have "redact demo_profile = demo_profile\<lparr>rp_secret_key := ''********''\<rparr>" by (simp add: redact_def demo_profile_def)
  moreover have a: "authorised demo_daemon (demo_request ''GET'' '''' [])" by (rule demo_authorised) (simp add: demo_daemon_def)
  ultimately show ?thesis using daemon_list_hides_secrets [OF h(1) a, of background] h(2,3) by auto
qed

lemma daemon_remote_lifecycle_witness:
  "\<exists>w1 w2. serve demo_env background (ask ''POST'' remotes_path (demo_request ''POST'' '''' [1])) demo_daemon plain_fs =
      ((demo_daemon, w1), write_json 201 (JObj [(''name'', JStr ''b1''), (''status'', JStr ''created'')])) \<and>
    serve demo_env background (ask ''GET'' (remotes_path @ ''/'' @ ''b1'') (demo_request ''POST'' '''' [1])) demo_daemon w1 =
      ((demo_daemon, w2), write_json 200 (json_profile demo_profile))"
proof -
  have a: "authorised demo_daemon (demo_request ''POST'' '''' [1])" by (rule demo_authorised) (simp add: demo_daemon_def)
  have d: "de_decode demo_env (rq_body (demo_request ''POST'' '''' [1])) = Ok demo_profile"
    by (simp add: demo_env_def demo_request_def)
  have n: "proper_comp (rp_name demo_profile)" "rp_type demo_profile \<noteq> ''''" unfolding demo_env_vault by code_simp+
  have c: "codec_ok (de_vault demo_env) (AList.update (rp_name demo_profile) demo_profile [])"
    using demo_env_vault(2,4) by simp
  have e: "codec_ok (de_vault demo_env) (AList.delete (rp_name demo_profile) s')"
    if "map_of s' = (map_of [])(rp_name demo_profile \<mapsto> demo_profile)" for s'
  proof -
    have "map_of (AList.delete (rp_name demo_profile) s') = Map.empty" using that by (simp add: fun_eq_iff)
    then have "AList.delete (rp_name demo_profile) s' = []" by simp
    then show ?thesis using demo_env_vault(3) by simp
  qed
  from daemon_remote_lifecycle [OF demo_holds a demo_env_vault(1) d n c e, of background] demo_env_vault(4)
  show ?thesis by auto
qed

section \<open>Objects over HTTP\<close>

definition object_url :: "string \<Rightarrow> string \<Rightarrow> string" where
  "object_url remote p = storage_path @ remote @ ''/objects/'' @ p"

text \<open>A URL the mux does not rewrite, of a remote with a name of one segment and an object with a name.\<close>

definition good_url :: "string \<Rightarrow> string \<Rightarrow> bool" where
  "good_url remote p \<longleftrightarrow> CHR ''/'' \<notin> set remote \<and> p \<noteq> '''' \<and> clean_url_path (object_url remote p) = object_url remote p"

lemma route_object:
  assumes "good_url remote p"
  shows "route ''GET'' (url_escape (object_url remote p)) = ToStorageGet" "route ''PUT'' (url_escape (object_url remote p)) = ToStoragePut"
    "route ''DELETE'' (url_escape (object_url remote p)) = ToStorageDelete" "route ''HEAD'' (url_escape (object_url remote p)) = ToStorageHead"
proof -
  define q where "q = ''api'' @ CHR ''/'' # ''v1'' @ CHR ''/'' # ''storage'' @ CHR ''/'' # (remote @ ''/objects/'' @ p)"
  let ?e = "url_escape (CHR ''/'' # q)"
  have p: "object_url remote p = CHR ''/'' # q" by (simp add: object_url_def storage_path_def q_def)
  have c: "clean_url_path ?e = ?e" by (rule route_clean) (use assms p in \<open>simp add: good_url_def\<close>)
  define o' where "o' = remote @ ''/objects/'' @ p"
  obtain b bs where b: "split_on (CHR ''/'') o' = b # bs"
    using split_on_nonempty by (metis list.exhaust)
  have q: "split_on (CHR ''/'') q = ''api'' # ''v1'' # ''storage'' # b # bs"
    unfolding q_def o'_def [symmetric] by (subst split_on_append_sep, simp)+ (simp add: b)
  have s: "take 3 (segments ?e) = [''api'', ''v1'', ''storage'']" "3 < length (segments ?e)"
    unfolding segments_escape q by (auto simp: Let_def)
  then have "segments ?e \<noteq> [''api'', ''v1'', ''storage'']" "segments ?e \<noteq> [''healthz'']" "segments ?e \<noteq> [''api'', ''v1'', ''health'']"
    "segments ?e \<noteq> [''api'', ''v1'', ''remotes'']" by auto
  then show "route ''GET'' (url_escape (object_url remote p)) = ToStorageGet" "route ''PUT'' (url_escape (object_url remote p)) = ToStoragePut"
    "route ''DELETE'' (url_escape (object_url remote p)) = ToStorageDelete" "route ''HEAD'' (url_escape (object_url remote p)) = ToStorageHead"
    unfolding p route_def Let_def escaped_escape c using s by simp_all
qed

lemma good_object [simp]: "good_target (url_escape (object_url remote p))"
  by (simp add: object_url_def)

lemma parse_object_url:
  assumes "good_url remote p"
  shows "parse_storage_path (object_url remote p) = (remote, p, False)"
proof -
  have t: "trim_prefix (object_url remote p) ''/api/v1/storage/'' = remote @ CHR ''/'' # (''objects/'' @ p)"
    unfolding object_url_def storage_path_def by (subst trim_prefix_append) simp
  have "split2 (CHR ''/'') (remote @ CHR ''/'' # (''objects/'' @ p)) = (remote, Some (''objects/'' @ p))"
    by (rule split2_found) (use assms in \<open>simp add: good_url_def\<close>)
  moreover have "''objects/'' @ p \<noteq> ''objects''" "''objects/'' @ p \<noteq> ''objects/''" "trim_prefix (''objects/'' @ p) ''objects/'' = p"
    using assms by (simp_all add: good_url_def trim_prefix_append del: append_Cons append_Nil)
  ultimately show ?thesis unfolding parse_storage_path_def t by simp
qed

text \<open>
  A remote whose driver is registered and keeps the contract \<open>object_store\<close>: what its clients see
  over HTTP.
\<close>

locale served_store = object_store D inv key pre view plain "\<lambda>d. True"
  for D :: "'w driver" and inv :: "'w \<Rightarrow> bool" and key :: "string \<Rightarrow> string option" and pre :: "string \<Rightarrow> string"
    and view :: "'w \<Rightarrow> string \<Rightarrow> bytes option" and plain :: "'w \<Rightarrow> string \<Rightarrow> bool" +
  fixes S :: "'w daemon" and remote :: string
  assumes registered: "map_of (dm_drivers S) remote = Some D"
    and stream_reads: "dr_stream D background p = stream_from (dr_read D background p)"
begin

lemma driver_of_url: "good_url remote p \<Longrightarrow> with_driver E (ask m (object_url remote p) rq) miss f S w = f p False D S w"
  by (simp add: with_driver_def parse_object_url get_driver_def registered)

lemma get_hit:
  assumes "inv w" "key p = Some k" "view w k = Some d" "authorised S rq" "good_url remote p"
  shows "\<exists>w' hs. serve E background (ask ''GET'' (object_url remote p) rq) S w =
      ((S, w'), \<lparr>rs_status = 200, rs_headers = hs, rs_body = RawBody d\<rparr>)
    \<and> (''Content-Length'', int_text (int (length d))) \<in> set hs \<and> inv w' \<and> view w' = view w"
proof -
  obtain w1 i where 1: "dr_stat D background p w = (w1, Ok i)" "oi_size i = int (length d)" "inv w1" "view w1 = view w"
    using stat_hit [OF assms(1-3)] by blast
  obtain w2 where "dr_read D background p w1 = (w2, Ok (bytes_reader d))" "inv w2" "view w2 = view w1"
    using read_hit [OF 1(3) assms(2)] 1(4) assms(3) by metis
  then show ?thesis using 1 assms(4,5)
    by (simp add: serve_authorised handle_def route_object handle_storage_get_def driver_of_url get_object_def
        stream_reads stream_from_def object_headers_def)
qed

lemma get_miss:
  assumes "inv w" "key p = Some k" "view w k = None" "plain w k" "authorised S rq" "good_url remote p"
  shows "\<exists>w'. serve E background (ask ''GET'' (object_url remote p) rq) S w =
      ((S, w'), write_json_error 404 ''not_found'' ''object not found'') \<and> inv w' \<and> view w' = view w"
proof -
  obtain w1 e where 1: "dr_stat D background p w = (w1, Err e)" "err_is e ErrNotFound" "inv w1" "view w1 = view w"
    using stat_miss [OF assms(1-4)] by blast
  then show ?thesis using assms(5,6)
    by (simp add: serve_authorised handle_def route_object handle_storage_get_def driver_of_url get_object_def)
qed

lemma put_full:
  assumes "inv w" "key p = Some k" "plain w k" "authorised S rq" "good_url remote p"
    and "rq_body rq = bytes_reader d" "rq_length rq = int (length d)"
  shows "\<exists>w'. serve E background (ask ''PUT'' (object_url remote p) rq) S w =
      ((S, w'), write_json 200 (JObj [(''path'', JStr p), (''size'', JInt (int (length d))), (''status'', JStr ''uploaded'')]))
    \<and> inv w' \<and> view w' = (view w)(k \<mapsto> d) \<and> plain w' k"
proof -
  obtain w1 where 1: "dr_write D background p (bytes_reader d) (int (length d)) w = (w1, Ok ())" "inv w1"
    "view w1 = (view w)(k \<mapsto> d)" "plain w1 k" using write_full [OF assms(1-3) TrueI] by blast
  then show ?thesis using assms(4-7)
    by (simp add: serve_authorised handle_def route_object handle_storage_put_def driver_of_url)
qed

lemma delete_any:
  assumes "inv w" "key p = Some k" "plain w k" "authorised S rq" "good_url remote p"
  shows "\<exists>w'. serve E background (ask ''DELETE'' (object_url remote p) rq) S w = ((S, w'), empty_response 204)
    \<and> inv w' \<and> view w' = (view w)(k := None) \<and> plain w' k"
proof -
  obtain w1 where 1: "dr_delete D background p w = (w1, Ok ())" "inv w1"
    "view w1 = (view w)(k := None)" "plain w1 k" using delete_plain [OF assms(1-3)] by blast
  then show ?thesis using assms(4,5)
    by (simp add: serve_authorised handle_def route_object handle_storage_delete_def driver_of_url)
qed

lemma put_then_get:
  assumes "inv w" "key p = Some k" "plain w k" "authorised S rq" "good_url remote p"
    and "rq_body rq = bytes_reader d" "rq_length rq = int (length d)"
  shows "\<exists>w1 w2 hs. serve E background (ask ''PUT'' (object_url remote p) rq) S w =
      ((S, w1), write_json 200 (JObj [(''path'', JStr p), (''size'', JInt (int (length d))), (''status'', JStr ''uploaded'')]))
    \<and> serve E background (ask ''GET'' (object_url remote p) rq) S w1 =
      ((S, w2), \<lparr>rs_status = 200, rs_headers = hs, rs_body = RawBody d\<rparr>)
    \<and> (''Content-Length'', int_text (int (length d))) \<in> set hs \<and> inv w2 \<and> view w2 = (view w)(k \<mapsto> d)"
proof -
  obtain w1 where 1: "serve E background (ask ''PUT'' (object_url remote p) rq) S w =
      ((S, w1), write_json 200 (JObj [(''path'', JStr p), (''size'', JInt (int (length d))), (''status'', JStr ''uploaded'')]))"
    "inv w1" "view w1 = (view w)(k \<mapsto> d)"
    using put_full [OF assms] by blast
  then show ?thesis using get_hit [OF 1(2) assms(2) _ assms(4,5), of d E] by auto
qed

lemma delete_then_get:
  assumes "inv w" "key p = Some k" "plain w k" "authorised S rq" "good_url remote p"
  shows "\<exists>w1 w2 w3. serve E background (ask ''DELETE'' (object_url remote p) rq) S w = ((S, w1), empty_response 204)
    \<and> serve E background (ask ''GET'' (object_url remote p) rq) S w1 =
      ((S, w2), write_json_error 404 ''not_found'' ''object not found'')
    \<and> serve E background (ask ''DELETE'' (object_url remote p) rq) S w1 = ((S, w3), empty_response 204)
    \<and> inv w3 \<and> view w3 = (view w)(k := None)"
proof -
  obtain w1 where 1: "serve E background (ask ''DELETE'' (object_url remote p) rq) S w = ((S, w1), empty_response 204)"
    "inv w1" "view w1 = (view w)(k := None)" "plain w1 k" using delete_any [OF assms] by blast
  obtain w2 where 2: "serve E background (ask ''GET'' (object_url remote p) rq) S w1 =
      ((S, w2), write_json_error 404 ''not_found'' ''object not found'')"
    using get_miss [OF 1(2) assms(2) _ 1(4) assms(4,5)] 1(3) by auto
  obtain w3 where 3: "serve E background (ask ''DELETE'' (object_url remote p) rq) S w1 = ((S, w3), empty_response 204)"
    "inv w3" "view w3 = (view w1)(k := None)" using delete_any [OF 1(2) assms(2) 1(4) assms(4,5)] by blast
  show ?thesis using 1(1,3) 2 3 by auto
qed

end

interpretation local_served: served_store "local_driver (abs_path r) i" "local_inv r" local_key list_prefix
    "local_view r" "local_plain r" "register_driver remote (local_driver (abs_path r) i) S" remote for r i remote S
proof (intro served_store.intro served_store_axioms.intro local_object_store)
  show "map_of (dm_drivers (register_driver remote (local_driver (abs_path r) i) S)) remote = Some (local_driver (abs_path r) i)"
    by (simp add: register_driver_def)
next
  fix p
  show "dr_stream (local_driver (abs_path r) i) background p = stream_from (dr_read (local_driver (abs_path r) i) background p)"
    by (simp add: local_driver_def fun_eq_iff local_stream_def)
qed

text \<open>C9: Upload and download over HTTP for a remote on a local directory: an authorised PUT of a complete body is
  answered 200 with the size, and a GET of the same URL answers 200 with exactly those bytes and
  their number as the Content-Length; no other object of the directory changes.
\<close>

theorem daemon_put_get:
  assumes "local_inv r w" "local_key p = Some k" "local_plain r w k" "good_url remote p"
    and "authorised (register_driver remote (local_driver (abs_path r) i) S) rq"
    and "rq_body rq = bytes_reader d" "rq_length rq = int (length d)"
  shows "let T = register_driver remote (local_driver (abs_path r) i) S in
    \<exists>w1 w2 hs. serve E background (ask ''PUT'' (object_url remote p) rq) T w =
      ((T, w1), write_json 200 (JObj [(''path'', JStr p), (''size'', JInt (int (length d))), (''status'', JStr ''uploaded'')]))
    \<and> serve E background (ask ''GET'' (object_url remote p) rq) T w1 =
      ((T, w2), \<lparr>rs_status = 200, rs_headers = hs, rs_body = RawBody d\<rparr>)
    \<and> (''Content-Length'', int_text (int (length d))) \<in> set hs
    \<and> local_inv r w2 \<and> local_view r w2 = (local_view r w)(k \<mapsto> d)"
  unfolding Let_def by (rule local_served.put_then_get [OF assms(1-3,5,4,6,7)])

lemma demo_url: "good_url ''loc'' ''b/g''"
  by code_simp

lemma demo_served: "authorised (register_driver ''loc'' (local_driver (abs_path [''srv'']) 0) demo_daemon) (demo_request m p d)"
  by (rule demo_authorised) (simp add: register_driver_def demo_daemon_def)

lemma daemon_put_get_witness:
  "let T = register_driver ''loc'' (local_driver (abs_path [''srv'']) 0) demo_daemon; rq = demo_request ''PUT'' '''' [1, 2, 3] in
    \<exists>w1 w2 hs. serve demo_env background (ask ''PUT'' (object_url ''loc'' ''b/g'') rq) T plain_fs =
      ((T, w1), write_json 200 (JObj [(''path'', JStr ''b/g''), (''size'', JInt 3), (''status'', JStr ''uploaded'')]))
    \<and> serve demo_env background (ask ''GET'' (object_url ''loc'' ''b/g'') rq) T w1 =
      ((T, w2), \<lparr>rs_status = 200, rs_headers = hs, rs_body = RawBody [1, 2, 3]\<rparr>)"
proof -
  have k: "local_key ''b/g'' = Some ''b/g''" by code_simp
  have b: "rq_body (demo_request ''PUT'' '''' [1, 2, 3]) = bytes_reader [1, 2, 3]"
    "rq_length (demo_request ''PUT'' '''' [1, 2, 3]) = int (length [1, 2, 3 :: byte])"
    by (simp_all add: demo_request_def)
  from daemon_put_get [OF plain_fs_inv k plain_fs_plain(2) demo_url demo_served b, of demo_env]
  show ?thesis unfolding Let_def by auto
qed

text \<open>C35: A DELETE over HTTP of an object of a local directory is answered 204 and the object is gone: a GET is
  answered 404; a second DELETE is answered 204 again and changes nothing.
\<close>

theorem daemon_delete_gone:
  assumes "local_inv r w" "local_key p = Some k" "local_plain r w k" "good_url remote p"
    and "authorised (register_driver remote (local_driver (abs_path r) i) S) rq"
  shows "let T = register_driver remote (local_driver (abs_path r) i) S in
    \<exists>w1 w2 w3. serve E background (ask ''DELETE'' (object_url remote p) rq) T w = ((T, w1), empty_response 204)
    \<and> serve E background (ask ''GET'' (object_url remote p) rq) T w1 =
      ((T, w2), write_json_error 404 ''not_found'' ''object not found'')
    \<and> serve E background (ask ''DELETE'' (object_url remote p) rq) T w1 = ((T, w3), empty_response 204)
    \<and> local_inv r w3 \<and> local_view r w3 = (local_view r w)(k := None)"
  unfolding Let_def by (rule local_served.delete_then_get [OF assms(1-3,5,4)])

lemma daemon_delete_gone_witness:
  "let T = register_driver ''loc'' (local_driver (abs_path [''srv'']) 0) demo_daemon; rq = demo_request ''DELETE'' '''' [] in
    \<exists>w1 w2. serve demo_env background (ask ''DELETE'' (object_url ''loc'' ''b/g'') rq) T plain_fs = ((T, w1), empty_response 204)
    \<and> serve demo_env background (ask ''GET'' (object_url ''loc'' ''b/g'') rq) T w1 =
      ((T, w2), write_json_error 404 ''not_found'' ''object not found'')"
proof -
  have k: "local_key ''b/g'' = Some ''b/g''" by code_simp
  from daemon_delete_gone [OF plain_fs_inv k plain_fs_plain(2) demo_url demo_served [of "''DELETE''" "''''" "[]"], of demo_env]
  show ?thesis unfolding Let_def by auto
qed

end
