(* ===== verification/Cli_Context.thy ===== *)
theory Cli_Context
  imports Daemon_Server Sync_Target
begin

text \<open>
  \<^verbatim>\<open>cmd/unistorage/main.go\<close> (the parser of the arguments), \<^verbatim>\<open>context.go\<close> and
  \<^verbatim>\<open>resolver.go\<close>: the settings of an invocation from flags, environment and defaults, and the
  driver and the path a target names.
\<close>

section \<open>Arguments\<close>

definition known_value_flags :: "string list" where
  "known_value_flags = [''config'', ''data'', ''daemon-addr'', ''token'', ''vault-passphrase'', ''type'', ''path'',
     ''endpoint'', ''bucket'', ''access-key'', ''secret-key'', ''region'', ''port'', ''addr'', ''conflict-dir'',
     ''workers'', ''exclude'', ''include'', ''buffer-size'', ''concurrency'']"

definition known_bool_flags :: "string list" where
  "known_bool_flags = [''json'', ''verbose'', ''v'', ''quiet'', ''q'', ''help'', ''h'', ''version'', ''use-path-style'',
     ''r'', ''recursive'', ''l'', ''long'', ''H'', ''human-readable'', ''f'', ''force'', ''p'', ''progress'', ''checksum'',
     ''delete'', ''dry-run'', ''n'', ''no-conflict-backup'', ''foreground'']"

text \<open>The flags that take a value, and the boolean flags that are set.\<close>

record arguments =
  ar_pos :: "string list"
  ar_flags :: "(string \<times> string) list"
  ar_bools :: "string list"

definition no_arguments :: arguments where
  "no_arguments = \<lparr>ar_pos = [], ar_flags = [], ar_bools = []\<rparr>"

definition set_flag :: "string \<Rightarrow> string \<Rightarrow> arguments \<Rightarrow> arguments" where
  "set_flag n v a = a\<lparr>ar_flags := AList.update n v (ar_flags a)\<rparr>"

definition set_bool :: "string \<Rightarrow> arguments \<Rightarrow> arguments" where
  "set_bool n a = a\<lparr>ar_bools := List.insert n (ar_bools a)\<rparr>"

definition add_pos :: "string \<Rightarrow> arguments \<Rightarrow> arguments" where
  "add_pos s a = a\<lparr>ar_pos := ar_pos a @ [s]\<rparr>"

definition flag :: "arguments \<Rightarrow> string \<Rightarrow> string" where
  "flag a n = (case map_of (ar_flags a) n of None \<Rightarrow> '''' | Some v \<Rightarrow> v)"

definition bool_flag :: "arguments \<Rightarrow> string \<Rightarrow> bool" where
  "bool_flag a n \<longleftrightarrow> n \<in> set (ar_bools a)"

text \<open>A value given to a boolean flag (\<^verbatim>\<open>--json=false\<close>) is ignored, as the code does.\<close>

fun parse_args :: "string list \<Rightarrow> arguments \<Rightarrow> arguments res" where
  "parse_args [] a = Ok a"
| "parse_args (arg # rest) a =
     (if has_prefix arg ''--'' then
        (case split2 (CHR ''='') (trim_prefix arg ''--'') of
           (name, val) \<Rightarrow>
             if name \<in> set known_value_flags then
               (case val of
                  Some v \<Rightarrow> parse_args rest (set_flag name v a)
                | None \<Rightarrow>
                    (case rest of
                       [] \<Rightarrow> Err (ErrText (''flag --'' @ name @ '' requires a value''))
                     | v # rest2 \<Rightarrow>
                         if has_prefix v ''-'' then Err (ErrText (''flag --'' @ name @ '' requires a value''))
                         else parse_args rest2 (set_flag name v a)))
             else if name \<in> set known_bool_flags then parse_args rest (set_bool name a)
             else Err (ErrText (''unknown flag --'' @ name)))
      else if has_prefix arg ''-'' \<and> 1 < length arg then
        (let short = drop 1 arg in
         if short \<in> set known_bool_flags then parse_args rest (set_bool short a)
         else if short \<in> set known_value_flags then
           (case rest of
              [] \<Rightarrow> Err (ErrText (''flag -'' @ short @ '' requires a value''))
            | v # rest2 \<Rightarrow>
                if has_prefix v ''-'' then Err (ErrText (''flag -'' @ short @ '' requires a value''))
                else parse_args rest2 (set_flag short v a))
         else if list_all (\<lambda>c. [c] \<in> set known_bool_flags) short
              then parse_args rest (fold (\<lambda>c. set_bool [c]) short a)
         else Err (ErrText (''unknown flag -'' @ short)))
      else parse_args rest (add_pos arg a))"

declare parse_args.simps(2) [simp del]

section \<open>Errors of the commands\<close>

text \<open>\<^verbatim>\<open>ExitNotFound\<close> and \<^verbatim>\<open>ExitIOError\<close> are 1, \<^verbatim>\<open>ExitUsageError\<close> is 2.\<close>

definition exit_success :: nat where "exit_success = 0"
definition exit_general_error :: nat where "exit_general_error = 1"
definition exit_not_found :: nat where "exit_not_found = 1"
definition exit_io_error :: nat where "exit_io_error = 1"
definition exit_param_error :: nat where "exit_param_error = 2"
definition exit_auth_error :: nat where "exit_auth_error = 3"

record cli_error =
  ke_code :: nat
  ke_message :: string
  ke_cause :: "go_error option"

definition cli_error_text :: "cli_error \<Rightarrow> string" where
  "cli_error_text k = (case ke_cause k of None \<Rightarrow> ke_message k | Some e \<Rightarrow> ke_message k @ '': '' @ err_msg e)"

text \<open>What a command prints; a help page is named.\<close>

datatype cli_output = OutLine string | OutText string | OutJson json | OutHelp string

text \<open>
  How a command fails: with its own error, after printing something, with another error (the branch
  of \<^verbatim>\<open>runMain\<close> for them; no modelled operation ends that way), or by a panic.
\<close>

datatype cli_stop = CliStop cli_error | StopAfter "cli_output list" cli_error | PlainStop go_error | PanicStop

definition cli_err :: "nat \<Rightarrow> string \<Rightarrow> cli_stop" where
  "cli_err c m = CliStop \<lparr>ke_code = c, ke_message = m, ke_cause = None\<rparr>"

definition cli_err_w :: "nat \<Rightarrow> string \<Rightarrow> go_error \<Rightarrow> cli_stop" where
  "cli_err_w c m e = (if is_panic e then PanicStop else CliStop \<lparr>ke_code = c, ke_message = m, ke_cause = Some e\<rparr>)"

section \<open>Settings\<close>

text \<open>
  What a command uses of the world and of the libraries: the file system, the vault's derivation and
  codec, the construction of an S3 client, the environment variables, the home directory, the
  directory for temporary files and the text of a time.
\<close>

record 'w cli_env =
  ce_os :: "'w \<Rightarrow> fs"
  ce_put_os :: "fs \<Rightarrow> 'w \<Rightarrow> 'w"
  ce_vault :: vault_env
  ce_connect :: "string \<Rightarrow> (string \<times> string) option \<Rightarrow> string option \<Rightarrow> bool \<Rightarrow> 'w s3_client res"
  ce_getenv :: "string \<Rightarrow> string"
  ce_home :: "string res"
  ce_tmp :: string
  ce_time_text :: "int \<Rightarrow> string"

record cli_context =
  cc_config_dir :: string
  cc_data_dir :: string
  cc_daemon_addr :: string
  cc_token :: string
  cc_passphrase :: string
  cc_json :: bool
  cc_verbose :: bool
  cc_quiet :: bool

text \<open>A flag, an environment variable or a default, the first that is not empty.\<close>

definition setting :: "'w cli_env \<Rightarrow> arguments \<Rightarrow> string \<Rightarrow> string \<Rightarrow> string \<Rightarrow> string" where
  "setting E a n v dflt =
     (if flag a n \<noteq> '''' then flag a n else if ce_getenv E v \<noteq> '''' then ce_getenv E v else dflt)"

definition home_dir :: "'w cli_env \<Rightarrow> string" where
  "home_dir E = (case ce_home E of Inl e \<Rightarrow> ce_tmp E | Inr h \<Rightarrow> h)"

definition vault_path :: "cli_context \<Rightarrow> string" where
  "vault_path C = path_join [cc_config_dir C, ''vault.enc'']"

definition token_path :: "cli_context \<Rightarrow> string" where
  "token_path C = path_join [cc_config_dir C, ''daemon.token'']"

definition pid_path :: "cli_context \<Rightarrow> string" where
  "pid_path C = path_join [cc_config_dir C, ''daemon.pid'']"

definition read_token :: "'w cli_env \<Rightarrow> string \<Rightarrow> 'w \<Rightarrow> 'w \<times> string" where
  "read_token E file w =
     (case on_part (ce_os E) (ce_put_os E) (os_read_file file) w of
        (w1, Inl n) \<Rightarrow> (w1, '''')
      | (w1, Inr d) \<Rightarrow> (w1, trim_space (bytes_str d)))"

definition new_cli_context :: "'w cli_env \<Rightarrow> arguments \<Rightarrow> 'w \<Rightarrow> 'w \<times> cli_context" where
  "new_cli_context E a w =
     (let cfg = setting E a ''config'' ''UNISTORAGE_CONFIG_DIR'' (path_join [home_dir E, ''.unistorage'']);
          addr = setting E a ''daemon-addr'' ''UNISTORAGE_DAEMON_ADDR'' ''http://127.0.0.1:8080'';
          (w1, tok) = (if setting E a ''token'' ''UNISTORAGE_TOKEN'' '''' \<noteq> ''''
                       then (w, setting E a ''token'' ''UNISTORAGE_TOKEN'' '''')
                       else read_token E (path_join [cfg, ''daemon.token'']) w)
      in (w1, \<lparr>cc_config_dir = cfg,
               cc_data_dir = setting E a ''data'' ''UNISTORAGE_DATA_DIR'' (path_join [home_dir E, ''.unistorage'', ''data'']),
               cc_daemon_addr = (if has_prefix addr ''http://'' \<or> has_prefix addr ''https://'' then addr else ''http://'' @ addr),
               cc_token = tok,
               cc_passphrase = setting E a ''vault-passphrase'' ''UNISTORAGE_VAULT_PASSPHRASE'' ''unistorage-default-passphrase'',
               cc_json = bool_flag a ''json'', cc_verbose = (bool_flag a ''verbose'' \<or> bool_flag a ''v''),
               cc_quiet = (bool_flag a ''quiet'' \<or> bool_flag a ''q'')\<rparr>))"

section \<open>Targets\<close>

record 'w endpoint =
  ep_driver :: "'w driver"
  ep_prefix :: string
  ep_isdir :: bool
  ep_isfile :: bool

text \<open>\<^verbatim>\<open>local.New\<close>, its failure under the given message, and the driver with the number \<open>i\<close>.\<close>

definition open_local :: "'w cli_env \<Rightarrow> nat \<Rightarrow> string \<Rightarrow> string \<Rightarrow> 'w \<Rightarrow> 'w \<times> (cli_stop + 'w driver)" where
  "open_local E i m dir w =
     (case on_part (ce_os E) (ce_put_os E) (local_new dir) w of
        (w1, Inl e) \<Rightarrow> (w1, Inl (cli_err_w exit_io_error m e))
      | (w1, Inr rt) \<Rightarrow> (w1, Inr (embed (ce_os E) (ce_put_os E) (local_driver rt i))))"

definition local_endpoint ::
    "'w cli_env \<Rightarrow> nat \<Rightarrow> string \<Rightarrow> string \<Rightarrow> string \<Rightarrow> bool \<Rightarrow> 'w \<Rightarrow> 'w \<times> (cli_stop + 'w endpoint)" where
  "local_endpoint E i m dir pfx isdir w =
     (case open_local E i m dir w of
        (w1, Inl s) \<Rightarrow> (w1, Inl s)
      | (w1, Inr d) \<Rightarrow> (w1, Inr \<lparr>ep_driver = d, ep_prefix = pfx, ep_isdir = isdir, ep_isfile = (\<not> isdir)\<rparr>))"

definition make_dirs :: "'w cli_env \<Rightarrow> string \<Rightarrow> string \<Rightarrow> 'w \<Rightarrow> 'w \<times> (cli_stop + unit)" where
  "make_dirs E m dir w =
     (case on_part (ce_os E) (ce_put_os E) (os_mkdir_all dir 488) w of
        (w1, Inl n) \<Rightarrow> (w1, Inl (cli_err_w exit_io_error m (os_err ''mkdir'' dir n)))
      | (w1, Inr _) \<Rightarrow> (w1, Inr ()))"

text \<open>A local path.  There are no volume names on Unix, so the first test of the code never fires.\<close>

definition resolve_local ::
    "'w cli_env \<Rightarrow> nat \<Rightarrow> string \<Rightarrow> string \<Rightarrow> bool \<Rightarrow> bool \<Rightarrow> 'w \<Rightarrow> 'w \<times> (cli_stop + 'w endpoint)" where
  "resolve_local E i path targ is_dest must_dir w =
     (let ap = os_abs (ce_os E w) path in
      case on_part (ce_os E) (ce_put_os E) (os_stat ap) w of
        (w1, Inr n) \<Rightarrow>
          if is_dir (Some n) then local_endpoint E i ''failed to initialize local driver'' ap '''' True w1
          else local_endpoint E i ''failed to initialize local driver'' (path_dir ap) (path_base ap) False w1
      | (w1, Inl _) \<Rightarrow>
          if \<not> is_dest then (w1, Inl (cli_err exit_not_found (''local path not found: '' @ path)))
          else if must_dir \<or> has_suffix targ ''/'' \<or> has_suffix targ [CHR 0x5C] then
            (case make_dirs E ''failed to create destination directory'' ap w1 of
               (w2, Inl s) \<Rightarrow> (w2, Inl s)
             | (w2, Inr _) \<Rightarrow> local_endpoint E i ''failed to initialize local driver'' ap '''' True w2)
          else
            (case make_dirs E ''failed to create destination parent directory'' (path_dir ap) w1 of
               (w2, Inl s) \<Rightarrow> (w2, Inl s)
             | (w2, Inr _) \<Rightarrow>
                 local_endpoint E i ''failed to initialize local destination parent'' (path_dir ap) (path_base ap) False w2))"

text \<open>The bucket and the prefix of an S3 target.\<close>

definition target_bucket :: "string \<Rightarrow> string \<Rightarrow> string \<times> string" where
  "target_bucket bucket path =
     (if bucket = '''' then
        (case split2 (CHR ''/'') path of (b, p) \<Rightarrow> (b, case p of None \<Rightarrow> '''' | Some x \<Rightarrow> x))
      else (bucket, if has_prefix path (bucket @ ''/'') then trim_prefix path (bucket @ ''/'')
                    else if path = bucket then '''' else path))"

definition path_endpoint :: "'w driver \<Rightarrow> string \<Rightarrow> 'w endpoint" where
  "path_endpoint d p = \<lparr>ep_driver = d, ep_prefix = p, ep_isdir = (p = '''' \<or> has_suffix p ''/''), ep_isfile = False\<rparr>"

definition profile_endpoint :: "'w cli_env \<Rightarrow> nat \<Rightarrow> remote_profile \<Rightarrow> string \<Rightarrow> 'w \<Rightarrow> 'w \<times> (cli_stop + 'w endpoint)" where
  "profile_endpoint E i p path w =
     (if rp_type p = ''local'' then
        (if rp_path p = '''' then (w, Inl (cli_err exit_param_error (''remote '' @ go_quote (rp_name p) @ '' is missing base path'')))
         else (case open_local E i ''failed to initialize local remote driver'' (rp_path p) w of
                 (w1, Inl s) \<Rightarrow> (w1, Inl s)
               | (w1, Inr d) \<Rightarrow> (w1, Inr (path_endpoint d path))))
      else if rp_type p = ''s3'' then
        (case target_bucket (rp_bucket p) path of
           (bucket, pfx) \<Rightarrow>
             (case s3_new (ce_connect E)
                     \<lparr>cfg_endpoint = rp_endpoint p, cfg_region = rp_region p, cfg_bucket = bucket,
                      cfg_access_key = rp_access_key p, cfg_secret_key = rp_secret_key p, cfg_path_style = True,
                      cfg_retry = no_retry\<rparr> of
                Inl e \<Rightarrow> (w, Inl (cli_err_w exit_io_error (''failed to initialize s3 driver for '' @ go_quote (rp_name p)) e))
              | Inr d \<Rightarrow> (w, Inr (path_endpoint (s3_driver d i) pfx))))
      else (w, Inl (cli_err exit_param_error (''unknown remote type '' @ go_quote (rp_type p)))))"

definition resolve_remote :: "'w cli_env \<Rightarrow> cli_context \<Rightarrow> nat \<Rightarrow> string \<Rightarrow> string \<Rightarrow> 'w \<Rightarrow> 'w \<times> (cli_stop + 'w endpoint)" where
  "resolve_remote E C i name path w =
     (case on_part (ce_os E) (ce_put_os E) (get_remote (ce_vault E) (vault_path C) (cc_passphrase C) name) w of
        (w1, Inl e) \<Rightarrow>
          (w1, Inl (if err_is e ErrRemoteNotFound
                    then cli_err exit_not_found (''remote profile '' @ go_quote name @ '' not found'')
                    else cli_err_w exit_auth_error (''failed to unlock vault for remote '' @ go_quote name) e))
      | (w1, Inr p) \<Rightarrow> profile_endpoint E i p path w1)"

definition resolve_target ::
    "'w cli_env \<Rightarrow> cli_context \<Rightarrow> nat \<Rightarrow> string \<Rightarrow> bool \<Rightarrow> bool \<Rightarrow> 'w \<Rightarrow> 'w \<times> (cli_stop + 'w endpoint)" where
  "resolve_target E C i targ is_dest must_dir w =
     (case parse_target targ of
        Inl e \<Rightarrow> (w, Inl (cli_err_w exit_param_error ''invalid target'' e))
      | Inr t \<Rightarrow>
          if tl_remote t then resolve_remote E C i (tl_name t) (tl_path t) w
          else resolve_local E i (tl_path t) targ is_dest must_dir w)"

end
