(* ===== verification/Cli_Commands.thy ===== *)
theory Cli_Commands
  imports Cli_Context Sync_Engine
begin

text \<open>
  \<^verbatim>\<open>cmd/unistorage/fileops.go\<close>, \<^verbatim>\<open>remote.go\<close>, \<^verbatim>\<open>sync_cmd.go\<close>,
  \<^verbatim>\<open>daemon_cmd.go\<close>, \<^verbatim>\<open>version.go\<close> and \<^verbatim>\<open>main.go\<close>: the commands, what they print
  and the exit code.  The texts of the help pages are named, not spelled out.
\<close>

declare background_simp [simp del]

section \<open>Output\<close>

type_synonym 'w command = "'w \<Rightarrow> 'w \<times> (cli_stop + cli_output list)"

definition log_line :: "cli_context \<Rightarrow> string \<Rightarrow> cli_output list" where
  "log_line C s = (if cc_quiet C then [] else [OutLine s])"

definition debug_line :: "cli_context \<Rightarrow> string \<Rightarrow> cli_output list" where
  "debug_line C s = (if cc_verbose C \<and> \<not> cc_quiet C then [OutLine (''[DEBUG] '' @ s)] else [])"

text \<open>The paddings of \<^verbatim>\<open>%10s\<close> and \<^verbatim>\<open>%-10s\<close>.\<close>

definition pad_left :: "nat \<Rightarrow> string \<Rightarrow> string" where
  "pad_left n s = replicate (n - length s) (CHR '' '') @ s"

definition pad_right :: "nat \<Rightarrow> string \<Rightarrow> string" where
  "pad_right n s = s @ replicate (n - length s) (CHR '' '')"

section \<open>ls\<close>

definition dir_name :: "object_info \<Rightarrow> string" where
  "dir_name ob =
     (let n = (if oi_key ob = '''' then oi_path ob else oi_key ob)
      in if oi_isdir ob \<and> \<not> has_suffix n ''/'' then n @ ''/'' else n)"

definition object_long :: "'w cli_env \<Rightarrow> bool \<Rightarrow> object_info \<Rightarrow> string" where
  "object_long E human ob =
     (if oi_isdir ob then ''drwxr-xr-x'' else ''-rw-r--r--'') @ ''   '' @
     (if human then (if oi_isdir ob then ''         -'' else pad_left 10 (format_bytes (oi_size ob)))
      else pad_left 10 (int_text (oi_size ob))) @ ''   '' @
     ce_time_text E (oi_modtime ob) @ ''   '' @ dir_name ob"

text \<open>
  The objects of a directory or prefix: the listing with options, and the plain one, which is
  recursive, when that gives \<^verbatim>\<open>nil\<close> or an error.
\<close>

definition ls_options :: "string \<Rightarrow> bool \<Rightarrow> list_options" where
  "ls_options p recursive = \<lparr>lo_prefix = p, lo_recursive = recursive, lo_max_keys = 0, lo_token = '''', lo_delimiter = ''''\<rparr>"

definition ls_first :: "'w driver \<Rightarrow> string \<Rightarrow> bool \<Rightarrow> 'w \<Rightarrow> 'w \<times> (cli_stop + object_info list option)" where
  "ls_first d p recursive w =
     (if \<not> dr_advanced d then (w, Inr None)
      else (case dr_list_opts d background (ls_options p recursive) w of
              (w1, Inl e) \<Rightarrow> (w1, if is_panic e then Inl PanicStop else Inr None)
            | (w1, Inr r) \<Rightarrow> (w1, Inr (if dr_nil_lists d \<and> lr_objects r = [] then None else Some (lr_objects r)))))"

definition ls_objects :: "'w driver \<Rightarrow> string \<Rightarrow> string \<Rightarrow> bool \<Rightarrow> 'w \<Rightarrow> 'w \<times> (cli_stop + object_info list)" where
  "ls_objects d targ p recursive w =
     (case ls_first d p recursive w of
        (w1, Inl s) \<Rightarrow> (w1, Inl s)
      | (w1, Inr (Some obs)) \<Rightarrow> (w1, Inr obs)
      | (w1, Inr None) \<Rightarrow>
          (case dr_list d background p w1 of
             (w2, Inl e) \<Rightarrow> (w2, Inl (cli_err_w exit_io_error (''failed to list '' @ go_quote targ) e))
           | (w2, Inr obs) \<Rightarrow> (w2, Inr obs)))"

definition ls_line :: "'w cli_env \<Rightarrow> arguments \<Rightarrow> object_info \<Rightarrow> cli_output" where
  "ls_line E a ob =
     OutLine (if bool_flag a ''l'' \<or> bool_flag a ''long''
              then object_long E (bool_flag a ''H'' \<or> bool_flag a ''human-readable'') ob else dir_name ob)"

definition ls_file_line :: "'w cli_env \<Rightarrow> arguments \<Rightarrow> object_info \<Rightarrow> cli_output" where
  "ls_file_line E a ob =
     OutLine (if bool_flag a ''l'' \<or> bool_flag a ''long''
              then object_long E (bool_flag a ''H'' \<or> bool_flag a ''human-readable'') ob else oi_key ob)"

definition recursive_flag :: "arguments \<Rightarrow> bool" where
  "recursive_flag a \<longleftrightarrow> bool_flag a ''r'' \<or> bool_flag a ''recursive''"

definition json_flag :: "cli_context \<Rightarrow> arguments \<Rightarrow> bool" where
  "json_flag C a \<longleftrightarrow> cc_json C \<or> bool_flag a ''json''"

definition run_ls :: "'w cli_env \<Rightarrow> cli_context \<Rightarrow> arguments \<Rightarrow> string list \<Rightarrow> 'w command" where
  "run_ls E C a args w =
     (case args of
        [] \<Rightarrow> (w, Inl (cli_err exit_param_error ''usage: unistorage ls <remote:path|local_path> [flags]''))
      | targ # _ \<Rightarrow>
          (case resolve_target E C 0 targ False False w of
             (w1, Inl s) \<Rightarrow> (w1, Inl s)
           | (w1, Inr ep) \<Rightarrow>
               if ep_isfile ep then
                 (case dr_stat (ep_driver ep) background (ep_prefix ep) w1 of
                    (w2, Inl e) \<Rightarrow> (w2, Inl (cli_err_w exit_not_found (''cannot stat '' @ go_quote (ep_prefix ep)) e))
                  | (w2, Inr ob) \<Rightarrow>
                      (w2, Inr [if json_flag C a then OutJson (JArr [json_object_info ob]) else ls_file_line E a ob]))
               else
                 (case ls_objects (ep_driver ep) targ (ep_prefix ep) (recursive_flag a) w1 of
                    (w2, Inl s) \<Rightarrow> (w2, Inl s)
                  | (w2, Inr obs) \<Rightarrow>
                      (w2, Inr (if json_flag C a then [OutJson (json_objects False obs)]
                                else map (ls_line E a)
                                       (filter (\<lambda>ob. recursive_flag a \<or> ep_prefix ep = '''' \<or> has_prefix (oi_path ob) (ep_prefix ep)) obs))))))"

section \<open>cp\<close>

text \<open>The loop over the listed objects; the result is the number of files.\<close>

fun copy_objects :: "'w driver \<Rightarrow> string \<Rightarrow> 'w driver \<Rightarrow> string \<Rightarrow> object_info list \<Rightarrow> nat \<Rightarrow> 'w \<Rightarrow> 'w \<times> (cli_stop + nat)" where
  "copy_objects sd sp dd dp [] n w = (w, Inr n)"
| "copy_objects sd sp dd dp (ob # obs) n w =
     (if oi_isdir ob then copy_objects sd sp dd dp obs n w
      else
        (let rel = strip_base sp (oi_path ob);
             dest = (if dp \<noteq> '''' then dp @ ''/'' @ rel else rel)
         in case dr_read sd background (oi_path ob) w of
              (w1, Inl e) \<Rightarrow> (w1, Inl (cli_err_w exit_io_error (''failed to read '' @ go_quote (oi_path ob)) e))
            | (w1, Inr rc) \<Rightarrow>
                (case dr_write dd background dest rc (oi_size ob) w1 of
                   (w2, Inl e) \<Rightarrow> (w2, Inl (cli_err_w exit_io_error (''failed to write '' @ go_quote dest) e))
                 | (w2, Inr _) \<Rightarrow> copy_objects sd sp dd dp obs (Suc n) w2)))"

definition copy_tree :: "cli_context \<Rightarrow> string \<Rightarrow> string \<Rightarrow> 'w endpoint \<Rightarrow> 'w endpoint \<Rightarrow> 'w command" where
  "copy_tree C src dst s d w =
     (case dr_list (ep_driver s) background (ep_prefix s) w of
        (w1, Inl e) \<Rightarrow> (w1, Inl (cli_err_w exit_io_error (''failed to list source '' @ go_quote src) e))
      | (w1, Inr obs) \<Rightarrow>
          (case copy_objects (ep_driver s) (trim_slashes (slashed (ep_prefix s)))
                  (ep_driver d) (trim_slashes (slashed (ep_prefix d))) obs 0 w1 of
             (w2, Inl e) \<Rightarrow> (w2, Inl e)
           | (w2, Inr n) \<Rightarrow>
               (w2, Inr (log_line C (''Copied '' @ nat_text n @ '' files from '' @ src @ '' to '' @ dst)))))"

text \<open>
  One file.  The pipe hands the bytes of the source and the error that ends them to the writer.
\<close>

definition copy_name :: "'w endpoint \<Rightarrow> 'w endpoint \<Rightarrow> string" where
  "copy_name s d = (if ep_isdir d \<or> ep_prefix d = '''' then path_base (ep_prefix s) else ep_prefix d)"

definition copy_file :: "cli_context \<Rightarrow> string \<Rightarrow> string \<Rightarrow> 'w endpoint \<Rightarrow> 'w endpoint \<Rightarrow> 'w command" where
  "copy_file C src dst s d w =
     (case dr_stat (ep_driver s) background (ep_prefix s) w of
        (w1, Inl e) \<Rightarrow> (w1, Inl (cli_err_w exit_not_found (''source file '' @ go_quote (ep_prefix s) @ '' not found'') e))
      | (w1, Inr ob) \<Rightarrow>
          (case dr_read (ep_driver s) background (ep_prefix s) w1 of
             (w2, Inl e) \<Rightarrow> (w2, Inl (cli_err_w exit_io_error (''failed to open source '' @ go_quote (ep_prefix s)) e))
           | (w2, Inr rc) \<Rightarrow>
               (case dr_write (ep_driver d) background (copy_name s d) rc (oi_size ob) w2 of
                  (w3, Inl e) \<Rightarrow>
                    (w3, Inl (cli_err_w exit_io_error (''failed to write destination '' @ go_quote (copy_name s d)) e))
                | (w3, Inr _) \<Rightarrow>
                    (w3, Inr (log_line C (''Copied '' @ src @ '' -> '' @ dst @ '' ('' @ format_bytes (oi_size ob) @ '')''))))))"

definition run_cp :: "'w cli_env \<Rightarrow> cli_context \<Rightarrow> arguments \<Rightarrow> string list \<Rightarrow> 'w command" where
  "run_cp E C a args w =
     (case args of
        src # dst # _ \<Rightarrow>
          (case resolve_target E C 0 src False False w of
             (w1, Inl st) \<Rightarrow> (w1, Inl st)
           | (w1, Inr s) \<Rightarrow>
               (case resolve_target E C 1 dst True (recursive_flag a \<or> ep_isdir s) w1 of
                  (w2, Inl st) \<Rightarrow> (w2, Inl st)
                | (w2, Inr d) \<Rightarrow>
                    if recursive_flag a \<or> ep_isdir s then copy_tree C src dst s d w2 else copy_file C src dst s d w2))
      | _ \<Rightarrow> (w, Inl (cli_err exit_param_error ''usage: unistorage cp <src> <dest> [-r] [-f]'')))"

section \<open>rm\<close>

fun remove_objects :: "'w driver \<Rightarrow> bool \<Rightarrow> object_info list \<Rightarrow> 'w \<Rightarrow> 'w \<times> (cli_stop + unit)" where
  "remove_objects d force [] w = (w, Inr ())"
| "remove_objects d force (ob # obs) w =
     (if oi_isdir ob then remove_objects d force obs w
      else (case dr_delete d background (oi_path ob) w of
              (w1, Inl e) \<Rightarrow>
                if force \<and> \<not> is_panic e then remove_objects d force obs w1
                else (w1, Inl (cli_err_w exit_io_error (''failed to delete '' @ go_quote (oi_path ob)) e))
            | (w1, Inr _) \<Rightarrow> remove_objects d force obs w1))"

definition removed_line :: "cli_context \<Rightarrow> string \<Rightarrow> cli_output list" where
  "removed_line C targ = log_line C (''Removed '' @ [CHR 0x27] @ targ @ [CHR 0x27, CHR ''.''])"

definition remove_tree :: "cli_context \<Rightarrow> bool \<Rightarrow> string \<Rightarrow> 'w endpoint \<Rightarrow> 'w command" where
  "remove_tree C force targ ep w =
     (case dr_list (ep_driver ep) background (ep_prefix ep) w of
        (w1, Inl e) \<Rightarrow> (w1, Inl (cli_err_w exit_io_error (''failed to list objects for removal in '' @ go_quote targ) e))
      | (w1, Inr obs) \<Rightarrow>
          (case remove_objects (ep_driver ep) force obs w1 of
             (w2, Inl s) \<Rightarrow> (w2, Inl s)
           | (w2, Inr _) \<Rightarrow>
               (case dr_delete (ep_driver ep) background (ep_prefix ep) w2 of
                  (w3, Inl e) \<Rightarrow>
                    (w3, if is_panic e then Inl PanicStop
                         else Inr ((if force then []
                                    else debug_line C (''failed to delete directory prefix '' @ go_quote (ep_prefix ep) @ '': '' @ err_msg e))
                                   @ removed_line C targ))
                | (w3, Inr _) \<Rightarrow> (w3, Inr (removed_line C targ)))))"

definition remove_file :: "cli_context \<Rightarrow> string \<Rightarrow> 'w endpoint \<Rightarrow> 'w command" where
  "remove_file C targ ep w =
     (case dr_delete (ep_driver ep) background (ep_prefix ep) w of
        (w1, Inl e) \<Rightarrow> (w1, Inl (cli_err_w exit_io_error (''failed to remove '' @ go_quote targ) e))
      | (w1, Inr _) \<Rightarrow> (w1, Inr (removed_line C targ)))"

definition run_rm :: "'w cli_env \<Rightarrow> cli_context \<Rightarrow> arguments \<Rightarrow> string list \<Rightarrow> 'w command" where
  "run_rm E C a args w =
     (case args of
        [] \<Rightarrow> (w, Inl (cli_err exit_param_error ''usage: unistorage rm <target> [-r] [-f]''))
      | targ # _ \<Rightarrow>
          (case resolve_target E C 0 targ False False w of
             (w1, Inl s) \<Rightarrow> (w1, Inl s)
           | (w1, Inr ep) \<Rightarrow>
               (let force = (bool_flag a ''f'' \<or> bool_flag a ''force'') in
                if bool_flag a ''dry-run'' \<or> bool_flag a ''n''
                then (w1, Inr (log_line C (''(dry-run) Removed '' @ [CHR 0x27] @ targ @ [CHR 0x27, CHR ''.''])))
                else if recursive_flag a \<or> ep_isdir ep then remove_tree C force targ ep w1
                else if force then remove_file C targ ep w1
                else (case dr_stat (ep_driver ep) background (ep_prefix ep) w1 of
                        (w2, Inl e) \<Rightarrow> (w2, Inl (cli_err_w exit_not_found (''target '' @ go_quote targ @ '' not found'') e))
                      | (w2, Inr _) \<Rightarrow> remove_file C targ ep w2))))"

section \<open>remote\<close>

definition usage :: "string \<Rightarrow> cli_stop" where
  "usage s = cli_err exit_param_error (''usage: unistorage '' @ s)"

definition wants_help :: "arguments \<Rightarrow> string list \<Rightarrow> bool" where
  "wants_help a args \<longleftrightarrow> bool_flag a ''help'' \<or> bool_flag a ''h'' \<or> (args \<noteq> [] \<and> hd args = ''help'')"

definition empty_profile :: "string \<Rightarrow> string \<Rightarrow> remote_profile" where
  "empty_profile n t = \<lparr>rp_name = n, rp_type = t, rp_endpoint = '''', rp_region = '''', rp_bucket = '''', rp_access_key = '''',
     rp_secret_key = '''', rp_path = '''', rp_options = []\<rparr>"

text \<open>The profile the arguments describe.\<close>

definition arg_or :: "string \<Rightarrow> nat \<Rightarrow> string list \<Rightarrow> string" where
  "arg_or v n args = (if v = '''' \<and> n < length args then args ! n else v)"

definition profile_of_args :: "arguments \<Rightarrow> string list \<Rightarrow> cli_stop + remote_profile" where
  "profile_of_args a args =
     (if args = [] then Inl (usage ''remote add <name> [type] [flags]'')
      else (let t = arg_or (flag a ''type'') 1 args; p = empty_profile (hd args) (to_lower t) in
            if t = '''' then Inl (cli_err exit_param_error (''missing required remote type (e.g. '' @ [CHR 0x27] @ ''local'' @ [CHR 0x27] @ '' or '' @ [CHR 0x27] @ ''s3'' @ [CHR 0x27] @ '')''))
            else if rp_type p = ''local'' then
              (let path = arg_or (flag a ''path'') 2 args in
               if path = '''' then Inl (cli_err exit_param_error ''missing required --path flag for local remote'')
               else Inr (p\<lparr>rp_path := path\<rparr>))
            else if rp_type p = ''s3'' then
              Inr (p\<lparr>rp_endpoint := flag a ''endpoint'', rp_bucket := flag a ''bucket'', rp_access_key := flag a ''access-key'',
                     rp_secret_key := flag a ''secret-key'',
                     rp_region := (if flag a ''region'' = '''' then ''us-east-1'' else flag a ''region'')\<rparr>)
            else Inl (cli_err exit_param_error (''unsupported remote type '' @ go_quote (rp_type p) @ '' (supported: local, s3)''))))"

definition quoted :: "string \<Rightarrow> string" where
  "quoted s = [CHR 0x27] @ s @ [CHR 0x27]"

definition run_remote_add :: "'w cli_env \<Rightarrow> cli_context \<Rightarrow> arguments \<Rightarrow> string list \<Rightarrow> 'w command" where
  "run_remote_add E C a args w =
     (case profile_of_args a args of
        Inl s \<Rightarrow> (w, Inl s)
      | Inr p \<Rightarrow>
          (case on_part (ce_os E) (ce_put_os E) (save_remote (ce_vault E) (vault_path C) (cc_passphrase C) p) w of
             (w1, Inl e) \<Rightarrow> (w1, Inl (cli_err_w exit_io_error ''failed to save remote to encrypted vault'' e))
           | (w1, Inr _) \<Rightarrow>
               (w1, Inr (log_line C (''Remote '' @ quoted (rp_name p) @ '' ('' @ rp_type p @ '') successfully registered in encrypted vault.'')))))"

fun list_profiles :: "'w cli_env \<Rightarrow> cli_context \<Rightarrow> string list \<Rightarrow> 'w \<Rightarrow> 'w \<times> (cli_stop + remote_profile list)" where
  "list_profiles E C [] w = (w, Inr [])"
| "list_profiles E C (n # ns) w =
     (case on_part (ce_os E) (ce_put_os E) (get_remote (ce_vault E) (vault_path C) (cc_passphrase C) n) w of
        (w1, Inl e) \<Rightarrow> if is_panic e then (w1, Inl PanicStop) else list_profiles E C ns w1
      | (w1, Inr p) \<Rightarrow>
          (case list_profiles E C ns w1 of
             (w2, Inl s) \<Rightarrow> (w2, Inl s)
           | (w2, Inr ps) \<Rightarrow> (w2, Inr (p # ps))))"

text \<open>\<^verbatim>\<open>safeProfile\<close>: neither key and no option is printed.\<close>

definition json_safe_profile :: "remote_profile \<Rightarrow> json" where
  "json_safe_profile p = JObj
     ([(''name'', JStr (rp_name p)), (''type'', JStr (rp_type p))] @ opt_str ''endpoint'' (rp_endpoint p) @
      opt_str ''path'' (rp_path p) @ opt_str ''bucket'' (rp_bucket p) @ [(''status'', JStr ''CONFIGURED'')])"

definition table_row :: "string \<Rightarrow> string \<Rightarrow> string \<Rightarrow> string \<Rightarrow> string \<Rightarrow> string" where
  "table_row a b c d e = pad_right 15 a @ '' '' @ pad_right 8 b @ '' '' @ pad_right 32 c @ '' '' @ pad_right 15 d @ '' '' @ e"

definition profile_row :: "remote_profile \<Rightarrow> string" where
  "profile_row p = table_row (rp_name p) (rp_type p) (if rp_type p = ''s3'' then rp_endpoint p else rp_path p)
     (if rp_bucket p = '''' then ''-'' else rp_bucket p) ''CONFIGURED''"

definition run_remote_list :: "'w cli_env \<Rightarrow> cli_context \<Rightarrow> arguments \<Rightarrow> 'w command" where
  "run_remote_list E C a w =
     (case on_part (ce_os E) (ce_put_os E) (list_remotes (ce_vault E) (vault_path C) (cc_passphrase C)) w of
        (w1, Inl e) \<Rightarrow> (w1, Inl (cli_err_w exit_io_error ''failed to list remotes from encrypted vault'' e))
      | (w1, Inr names) \<Rightarrow>
          (case list_profiles E C names w1 of
             (w2, Inl s) \<Rightarrow> (w2, Inl s)
           | (w2, Inr ps) \<Rightarrow>
               (w2, Inr (if json_flag C a then [OutJson (JArr (map json_safe_profile ps))]
                         else OutLine (table_row ''NAME'' ''TYPE'' ''ENDPOINT / PATH'' ''BUCKET'' ''STATUS'')
                              # map (\<lambda>p. OutLine (profile_row p)) ps))))"

definition run_remote_remove :: "'w cli_env \<Rightarrow> cli_context \<Rightarrow> string list \<Rightarrow> 'w command" where
  "run_remote_remove E C args w =
     (case args of
        [] \<Rightarrow> (w, Inl (usage ''remote remove <name>''))
      | n # _ \<Rightarrow>
          (case on_part (ce_os E) (ce_put_os E) (delete_remote (ce_vault E) (vault_path C) (cc_passphrase C) n) w of
             (w1, Inl e) \<Rightarrow> (w1, Inl (cli_err_w exit_io_error (''failed to remove remote '' @ go_quote n @ '' from vault'') e))
           | (w1, Inr _) \<Rightarrow> (w1, Inr (log_line C (''Remote '' @ quoted n @ '' removed from vault.'')))))"

definition run_remote :: "'w cli_env \<Rightarrow> cli_context \<Rightarrow> arguments \<Rightarrow> string list \<Rightarrow> 'w command" where
  "run_remote E C a args w =
     (if wants_help a args then (w, Inr [OutHelp ''remote''])
      else (case args of
              [] \<Rightarrow> (w, Inl (usage ''remote <add|list|remove> [args...]''))
            | sub # rest2 \<Rightarrow>
                if sub = ''add'' then run_remote_add E C a rest2 w
                else if sub = ''list'' \<or> sub = ''ls'' then run_remote_list E C a w
                else if sub = ''remove'' \<or> sub = ''rm'' \<or> sub = ''delete'' then run_remote_remove E C rest2 w
                else (w, Inl (cli_err exit_param_error (''unknown remote subcommand '' @ go_quote sub @ '' (valid: add, list, remove)'')))))"

section \<open>sync\<close>

definition json_stats :: "sync_stats \<Rightarrow> json" where
  "json_stats s = JObj
     ([(''source'', JStr (st_source s)), (''destination'', JStr (st_destination s)),
       (''transferred_files'', JInt (st_transferred s)), (''transferred_bytes'', JInt (st_transferred_bytes s)),
       (''updated_files'', JInt (st_updated s)), (''updated_bytes'', JInt (st_updated_bytes s)),
       (''conflict_files'', JInt (st_conflict_files s)), (''deleted_files'', JInt (st_deleted s)),
       (''skipped_files'', JInt (st_skipped s)), (''duration'', JInt (st_duration s))] @
      (if st_conflicts s = [] then [] else [(''conflicts'', JArr (map JStr (st_conflicts s)))]))"

definition workers_arg :: "arguments \<Rightarrow> int" where
  "workers_arg a = (case atoi (flag a ''workers'') of None \<Rightarrow> 4 | Some n \<Rightarrow> if 0 < n then n else 4)"

definition options_of_args :: "arguments \<Rightarrow> sync_options" where
  "options_of_args a =
     \<lparr>sy_checksum = bool_flag a ''checksum'', sy_delete = bool_flag a ''delete'',
      sy_dry_run = (bool_flag a ''dry-run'' \<or> bool_flag a ''n''), sy_conflict_dir = flag a ''conflict-dir'',
      sy_no_backup = bool_flag a ''no-conflict-backup'', sy_exclude = [], sy_include = [], sy_workers = workers_arg a\<rparr>"

definition run_sync ::
    "'w cli_env \<Rightarrow> 'w sync_env \<Rightarrow> (nat \<Rightarrow> nat) \<Rightarrow> cli_context \<Rightarrow> arguments \<Rightarrow> string list \<Rightarrow> 'w command" where
  "run_sync E Y pick C a args w =
     (case args of
        src # dst # _ \<Rightarrow>
          (case resolve_target E C 0 src False True w of
             (w1, Inl st) \<Rightarrow> (w1, Inl st)
           | (w1, Inr s) \<Rightarrow>
               (case resolve_target E C 1 dst True True w1 of
                  (w2, Inl st) \<Rightarrow> (w2, Inl st)
                | (w2, Inr d) \<Rightarrow>
                    (case sync Y pick background (\<lambda>_. background) background (ep_driver s) (ep_prefix s)
                            (ep_driver d) (ep_prefix d) (options_of_args a) w2 of
                       (w3, Inl e) \<Rightarrow>
                         (w3, Inl (if e = ErrRecursiveSync then cli_err_w exit_param_error ''recursive sync loop detected'' e
                                   else cli_err_w exit_io_error ''sync execution failed'' e))
                     | (w3, Inr s0) \<Rightarrow>
                         (let stats = s0\<lparr>st_source := src, st_destination := dst\<rparr> in
                          (w3, Inr [if json_flag C a then OutJson (json_stats stats) else OutText (summary_string stats)])))))
      | _ \<Rightarrow> (w, Inl (usage ''sync <src> <dest> [--checksum] [--delete] [--dry-run] [--conflict-dir <dir>] [--no-conflict-backup] [--workers <int>]'')))"

section \<open>version\<close>

text \<open>What the build and the runtime say of the program.\<close>

record version_info =
  vi_version :: string
  vi_commit :: string
  vi_build_time :: string
  vi_go :: string
  vi_compiler :: string
  vi_platform :: string

definition json_version :: "version_info \<Rightarrow> json" where
  "json_version v = JObj
     ([(''version'', JStr (vi_version v))] @ opt_str ''commit'' (vi_commit v) @ opt_str ''build_time'' (vi_build_time v) @
      [(''go_version'', JStr (vi_go v)), (''compiler'', JStr (vi_compiler v)), (''platform'', JStr (vi_platform v))])"

definition print_version :: "version_info \<Rightarrow> bool \<Rightarrow> cli_output list" where
  "print_version v as_json =
     [if as_json then OutJson (json_version v)
      else OutLine (if vi_commit v \<noteq> '''' \<and> vi_commit v \<noteq> ''none''
        then ''unistorage version '' @ vi_version v @ '' (commit: '' @ vi_commit v @ '', built: '' @ vi_build_time v @ '', ''
             @ vi_go v @ '', '' @ vi_platform v @ '')''
        else ''unistorage version '' @ vi_version v)]"

section \<open>daemon\<close>

datatype probe = BadUrl | NoAnswer | Answer nat string

text \<open>
  The processes and the network as the commands see them: the own process number, the path of the
  program, the start of a process with its arguments and directory, the run of a server until it
  ends (\<open>None\<close> after a shutdown), the health request to a URL (its status and the version its body
  decodes to, empty when it does not) and the kill of a process.
\<close>

record 'w processes =
  pr_pid :: nat
  pr_exe :: "string res"
  pr_spawn :: "string \<Rightarrow> string list \<Rightarrow> string \<Rightarrow> 'w \<Rightarrow> 'w \<times> nat res"
  pr_serve :: "'w daemon \<Rightarrow> 'w \<Rightarrow> 'w \<times> go_error option"
  pr_probe :: "string \<Rightarrow> 'w \<Rightarrow> 'w \<times> probe"
  pr_kill :: "int \<Rightarrow> 'w \<Rightarrow> 'w \<times> go_error option"
  pr_daemon :: "'w daemon_env"
  pr_version :: version_info

text \<open>\<^verbatim>\<open>net.JoinHostPort\<close>.\<close>

definition join_host_port :: "string \<Rightarrow> string \<Rightarrow> string" where
  "join_host_port h p = (if CHR '':'' \<in> set h then ''['' @ h @ '']:'' @ p else h @ '':'' @ p)"

definition daemon_port :: "'w cli_env \<Rightarrow> arguments \<Rightarrow> string" where
  "daemon_port E a = setting E a ''port'' ''UNISTORAGE_DAEMON_PORT'' ''8080''"

definition daemon_addr :: "'w cli_env \<Rightarrow> arguments \<Rightarrow> string" where
  "daemon_addr E a = setting E a ''addr'' ''UNISTORAGE_DAEMON_ADDR'' ''127.0.0.1''"

text \<open>Making a directory and writing the process number, as both branches of the start do.\<close>

definition make_dir :: "'w cli_env \<Rightarrow> string \<Rightarrow> string \<Rightarrow> int \<Rightarrow> 'w \<Rightarrow> 'w \<times> (cli_stop + unit)" where
  "make_dir E m dir mode w =
     (case on_part (ce_os E) (ce_put_os E) (os_mkdir_all dir mode) w of
        (w1, Inl n) \<Rightarrow> (w1, Inl (cli_err_w exit_io_error m (os_err ''mkdir'' dir n)))
      | (w1, Inr _) \<Rightarrow> (w1, Inr ()))"

definition write_pid :: "'w cli_env \<Rightarrow> cli_context \<Rightarrow> nat \<Rightarrow> 'w \<Rightarrow> 'w \<times> (cli_stop + unit)" where
  "write_pid E C pid w =
     (case on_part (ce_os E) (ce_put_os E) (os_write_file (pid_path C) (str_bytes (nat_text pid @ [CHR 0x0A])) 384) w of
        (w1, Inl n) \<Rightarrow> (w1, Inl (cli_err_w exit_io_error ''failed to write PID file'' (os_err ''open'' (pid_path C) n)))
      | (w1, Inr _) \<Rightarrow> (w1, Inr ()))"

definition remove_pid :: "'w cli_env \<Rightarrow> cli_context \<Rightarrow> 'w \<Rightarrow> 'w" where
  "remove_pid E C w = fst (on_part (ce_os E) (ce_put_os E) (os_remove (pid_path C)) w)"

definition daemon_settings :: "cli_context \<Rightarrow> string \<Rightarrow> version_info \<Rightarrow> daemon_config" where
  "daemon_settings C listen v =
     \<lparr>dc_addr = listen, dc_token_file = token_path C, dc_vault_path = vault_path C, dc_passphrase = cc_passphrase C,
      dc_static_token = '''', dc_version = vi_version v\<rparr>"

text \<open>
  The server itself, between the writing and the deferred removal of the process number; the line is
  printed before it runs.
\<close>

definition serve_daemon :: "'w processes \<Rightarrow> cli_context \<Rightarrow> string \<Rightarrow> 'w command" where
  "serve_daemon P C listen w =
     (case new_daemon (pr_daemon P) (daemon_settings C listen (pr_version P)) w of
        (w1, Inl e) \<Rightarrow> (w1, Inl (cli_err_w exit_io_error ''failed to initialize daemon server'' e))
      | (w1, Inr S) \<Rightarrow>
          (let out = log_line C (''Daemon started in foreground on '' @ listen @ '' (PID '' @ nat_text (pr_pid P) @ '')'') in
           case pr_serve P S w1 of
             (w2, Some e) \<Rightarrow>
               (w2, Inl (StopAfter out \<lparr>ke_code = exit_io_error, ke_message = ''daemon runtime error'', ke_cause = Some e\<rparr>))
           | (w2, None) \<Rightarrow> (w2, Inr out)))"

definition start_foreground :: "'w cli_env \<Rightarrow> 'w processes \<Rightarrow> cli_context \<Rightarrow> string \<Rightarrow> 'w command" where
  "start_foreground E P C listen w =
     (case make_dir E ''failed to create config dir'' (cc_config_dir C) 448 w of
        (w1, Inl s) \<Rightarrow> (w1, Inl s)
      | (w1, Inr _) \<Rightarrow>
          (case (if cc_data_dir C \<noteq> '''' then make_dir E ''failed to create data dir'' (cc_data_dir C) 488 w1 else (w1, Inr ())) of
             (w2, Inl s) \<Rightarrow> (w2, Inl s)
           | (w2, Inr _) \<Rightarrow>
               (case write_pid E C (pr_pid P) w2 of
                  (w3, Inl s) \<Rightarrow> (w3, Inl s)
                | (w3, Inr _) \<Rightarrow> (case serve_daemon P C listen w3 of (w4, r) \<Rightarrow> (remove_pid E C w4, r)))))"

text \<open>The arguments of the background process.\<close>

definition start_args :: "string \<Rightarrow> string \<Rightarrow> cli_context \<Rightarrow> string list" where
  "start_args port addr C =
     [''daemon'', ''start'', ''--foreground'', ''--port'', port, ''--addr'', addr, ''--config'', cc_config_dir C,
      ''--data'', cc_data_dir C, ''--vault-passphrase'', cc_passphrase C]"

definition start_background :: "'w cli_env \<Rightarrow> 'w processes \<Rightarrow> cli_context \<Rightarrow> string \<Rightarrow> string \<Rightarrow> 'w command" where
  "start_background E P C port addr w =
     (case pr_exe P of
        Inl e \<Rightarrow> (w, Inl (cli_err_w exit_io_error ''cannot determine executable path'' e))
      | Inr exe \<Rightarrow>
          (case pr_spawn P exe (start_args port addr C) (cc_config_dir C) w of
             (w1, Inl e) \<Rightarrow> (w1, Inl (cli_err_w exit_io_error ''failed to spawn background daemon'' e))
           | (w1, Inr pid) \<Rightarrow>
               (case make_dir E ''failed to create config dir'' (cc_config_dir C) 448 w1 of
                  (w2, Inl s) \<Rightarrow> (w2, Inl s)
                | (w2, Inr _) \<Rightarrow>
                    (case write_pid E C pid w2 of
                       (w3, Inl s) \<Rightarrow> (w3, Inl s)
                     | (w3, Inr _) \<Rightarrow>
                         (w3, Inr (log_line C (''Daemon started on '' @ join_host_port addr port @ '' (PID '' @ nat_text pid @ '')'')))))))"

definition run_daemon_start :: "'w cli_env \<Rightarrow> 'w processes \<Rightarrow> cli_context \<Rightarrow> arguments \<Rightarrow> 'w command" where
  "run_daemon_start E P C a w =
     (let port = daemon_port E a; addr = daemon_addr E a in
      if bool_flag a ''foreground'' \<or> bool_flag a ''f'' then start_foreground E P C (join_host_port addr port) w
      else start_background E P C port addr w)"

definition read_pid :: "'w cli_env \<Rightarrow> cli_context \<Rightarrow> 'w \<Rightarrow> 'w \<times> (errno + int option)" where
  "read_pid E C w =
     (case on_part (ce_os E) (ce_put_os E) (os_read_file (pid_path C)) w of
        (w1, Inl n) \<Rightarrow> (w1, Inl n)
      | (w1, Inr d) \<Rightarrow> (w1, Inr (atoi (trim_space (bytes_str d)))))"

definition offline :: "cli_context \<Rightarrow> arguments \<Rightarrow> string \<Rightarrow> cli_output list" where
  "offline C a m = (if json_flag C a then [OutJson (JObj [(''status'', JStr ''offline'')])] else log_line C m)"

text \<open>The probe of the health path: whether it is online, and the version; then that of port 8080.\<close>

definition probed :: "string \<Rightarrow> probe \<Rightarrow> bool \<times> string" where
  "probed v r = (case r of Answer c u \<Rightarrow> (c = 200, if u \<noteq> '''' then u else v) | _ \<Rightarrow> (False, v))"

definition fallback_probe :: "'w processes \<Rightarrow> string \<Rightarrow> 'w \<Rightarrow> 'w \<times> bool \<times> string" where
  "fallback_probe P v w =
     (case pr_probe P ''http://127.0.0.1:8080/api/v1/health'' w of
        (w1, r) \<Rightarrow> (case probed v r of (ok, u) \<Rightarrow> (w1, ok, if ok then u else v)))"

definition status_output :: "cli_context \<Rightarrow> arguments \<Rightarrow> int \<Rightarrow> bool \<Rightarrow> string \<Rightarrow> cli_output list" where
  "status_output C a pid online v =
     [if json_flag C a then
        OutJson (JObj [(''addr'', JStr (cc_daemon_addr C)), (''pid'', JInt pid),
                       (''status'', JStr (if online then ''running'' else ''offline'')), (''version'', JStr v)])
      else if online then
        OutLine (''Daemon Status: RUNNING'' @ nl @ ''  PID:     '' @ int_text pid @ nl @ ''  Address: '' @ cc_daemon_addr C @ nl
                 @ ''  Version: '' @ v)
      else OutLine (''Daemon Status: OFFLINE (PID '' @ int_text pid @ '' not responding)'')]"

definition run_daemon_status :: "'w cli_env \<Rightarrow> 'w processes \<Rightarrow> cli_context \<Rightarrow> arguments \<Rightarrow> 'w command" where
  "run_daemon_status E P C a w =
     (case read_pid E C w of
        (w1, Inl n) \<Rightarrow> (w1, Inr (offline C a ''Daemon is offline.''))
      | (w1, Inr None) \<Rightarrow> (w1, Inr (offline C a ''Daemon is offline (invalid PID file).''))
      | (w1, Inr (Some pid)) \<Rightarrow>
          (case pr_probe P (cc_daemon_addr C @ ''/api/v1/health'') w1 of
             (w2, BadUrl) \<Rightarrow> (w2, Inr (offline C a ''Daemon is offline.''))
           | (w2, r) \<Rightarrow>
               (case probed (vi_version (pr_version P)) r of
                  (True, v) \<Rightarrow> (w2, Inr (status_output C a pid True v))
                | (False, v) \<Rightarrow> (case fallback_probe P v w2 of (w3, ok, u) \<Rightarrow> (w3, Inr (status_output C a pid ok u))))))"

definition run_daemon_stop :: "'w cli_env \<Rightarrow> 'w processes \<Rightarrow> cli_context \<Rightarrow> 'w command" where
  "run_daemon_stop E P C w =
     (case read_pid E C w of
        (w1, Inl n) \<Rightarrow> (w1, Inr (log_line C ''Daemon is not running.''))
      | (w1, Inr None) \<Rightarrow> (remove_pid E C w1, Inr (log_line C ''Daemon stopped.''))
      | (w1, Inr (Some pid)) \<Rightarrow>
          (case pr_kill P pid w1 of
             (w2, e) \<Rightarrow>
               (remove_pid E C w2,
                Inr ((case e of None \<Rightarrow> [] | Some x \<Rightarrow> debug_line C (''process kill error: '' @ err_msg x))
                     @ log_line C ''Daemon stopped.''))))"

definition run_daemon :: "'w cli_env \<Rightarrow> 'w processes \<Rightarrow> cli_context \<Rightarrow> arguments \<Rightarrow> string list \<Rightarrow> 'w command" where
  "run_daemon E P C a args w =
     (if wants_help a args then (w, Inr [OutHelp ''daemon''])
      else (case args of
              [] \<Rightarrow> (w, Inl (usage ''daemon <start|status|stop> [flags]''))
            | sub # _ \<Rightarrow>
                if sub = ''start'' then run_daemon_start E P C a w
                else if sub = ''status'' then run_daemon_status E P C a w
                else if sub = ''stop'' then run_daemon_stop E P C w
                else (w, Inl (cli_err exit_param_error (''unknown daemon subcommand '' @ go_quote sub @ '' (valid: start, status, stop)'')))))"

section \<open>The program\<close>

text \<open>What the program prints, its message on the error output and its exit code; a panic exits with 2.\<close>

record exit =
  ex_output :: "cli_output list"
  ex_message :: string
  ex_code :: nat

definition help_page :: "string \<Rightarrow> exit" where
  "help_page cmd =
     \<lparr>ex_output = [OutHelp (if cmd \<in> {''remote'', ''ls'', ''cp'', ''sync'', ''rm'', ''daemon''} then cmd else '''')],
      ex_message = '''', ex_code = exit_success\<rparr>"

definition finish :: "cli_stop + cli_output list \<Rightarrow> exit" where
  "finish r =
     (case r of
        Inr outs \<Rightarrow> \<lparr>ex_output = outs, ex_message = '''', ex_code = exit_success\<rparr>
      | Inl (CliStop k) \<Rightarrow> \<lparr>ex_output = [], ex_message = ''Error: '' @ cli_error_text k, ex_code = ke_code k\<rparr>
      | Inl (StopAfter outs k) \<Rightarrow> \<lparr>ex_output = outs, ex_message = ''Error: '' @ cli_error_text k, ex_code = ke_code k\<rparr>
      | Inl (PlainStop e) \<Rightarrow> \<lparr>ex_output = [], ex_message = ''Error: '' @ err_msg e, ex_code = exit_general_error\<rparr>
      | Inl PanicStop \<Rightarrow> \<lparr>ex_output = [], ex_message = ''panic'', ex_code = 2\<rparr>)"

text \<open>The commands; \<open>None\<close> for one that is not known.\<close>

definition run_command ::
    "'w cli_env \<Rightarrow> 'w sync_env \<Rightarrow> (nat \<Rightarrow> nat) \<Rightarrow> 'w processes \<Rightarrow> cli_context \<Rightarrow> arguments \<Rightarrow> string \<Rightarrow> string list
      \<Rightarrow> 'w \<Rightarrow> ('w \<times> (cli_stop + cli_output list)) option" where
  "run_command E Y pick P C a cmd args w =
     (if cmd = ''remote'' then Some (run_remote E C a args w)
      else if cmd = ''ls'' then Some (run_ls E C a args w)
      else if cmd = ''cp'' then Some (run_cp E C a args w)
      else if cmd = ''sync'' then Some (run_sync E Y pick C a args w)
      else if cmd = ''rm'' then Some (run_rm E C a args w)
      else if cmd = ''daemon'' then Some (run_daemon E P C a args w)
      else if cmd = ''version'' then Some (w, Inr (print_version (pr_version P) (bool_flag a ''json'')))
      else None)"

definition run_main ::
    "'w cli_env \<Rightarrow> 'w sync_env \<Rightarrow> (nat \<Rightarrow> nat) \<Rightarrow> 'w processes \<Rightarrow> string list \<Rightarrow> 'w \<Rightarrow> 'w \<times> exit" where
  "run_main E Y pick P argv w =
     (case parse_args argv no_arguments of
        Inl e \<Rightarrow> (w, \<lparr>ex_output = [], ex_message = ''Error: '' @ err_msg e, ex_code = exit_param_error\<rparr>)
      | Inr a \<Rightarrow>
          if bool_flag a ''version''
          then (w, finish (Inr (print_version (pr_version P) (bool_flag a ''json''))))
          else (case ar_pos a of
                  [] \<Rightarrow> (w, help_page '''')
                | cmd # args \<Rightarrow>
                    if cmd = ''help'' then (w, help_page (if args \<noteq> [] then hd args else ''''))
                    else if wants_help a args then (w, help_page cmd)
                    else (case new_cli_context E a w of
                            (w1, C) \<Rightarrow>
                              (case run_command E Y pick P C a cmd args w1 of
                                 None \<Rightarrow>
                                   (w1, \<lparr>ex_output = [], ex_message = ''Error: unknown command '' @ go_quote cmd
                                           @ ''. Run '' @ quoted ''unistorage --help'' @ '' for usage.'', ex_code = exit_param_error\<rparr>)
                               | Some (w2, r) \<Rightarrow> (w2, finish r)))))"

end
