(* ===== verification/Cli_Props.thy ===== *)
theory Cli_Props
  imports Cli_Commands Sync_Upload
begin

text \<open>
  The properties of the command line: the exit codes, the arguments of the background daemon, the
  life of a profile between \<^verbatim>\<open>remote add\<close> and a target, copies and removals.
\<close>

declare background_simp [simp del]

section \<open>Exit codes\<close>

text \<open>The codes a command can stop with.\<close>

fun stop_code :: "cli_stop \<Rightarrow> nat" where
  "stop_code (CliStop k) = ke_code k"
| "stop_code (StopAfter outs k) = ke_code k"
| "stop_code (PlainStop e) = exit_general_error"
| "stop_code PanicStop = 2"

definition known_stop :: "'w \<times> (cli_stop + 'a) \<Rightarrow> bool" where
  "known_stop r \<longleftrightarrow> (\<forall>s. snd r = Inl s \<longrightarrow> stop_code s \<in> {1, 2, 3})"

named_theorems known_stops

lemma known_stop_simps [simp]:
  "known_stop (w, Inr x)" "known_stop (w, Inl s) \<longleftrightarrow> stop_code s \<in> {1, 2, 3}"
  by (simp_all add: known_stop_def)

lemma stop_code_err [simp]:
  "stop_code (cli_err c m) = c" "stop_code (cli_err_w c m e) = (if is_panic e then 2 else c)" "stop_code (usage m) = 2"
  by (simp_all add: cli_err_def cli_err_w_def usage_def exit_param_error_def)

lemmas exit_codes = exit_success_def exit_general_error_def exit_not_found_def exit_io_error_def exit_param_error_def
  exit_auth_error_def

lemma known_stopD: "known_stop r \<Longrightarrow> r = (w, Inl s) \<Longrightarrow> stop_code s \<in> {1, 2, 3}"
  by (simp add: known_stop_def)

lemma known_open_local [known_stops]: "known_stop (open_local E i m dir w)"
  by (simp add: open_local_def exit_codes split: prod.split sum.split)

lemma known_local_endpoint [known_stops]: "known_stop (local_endpoint E i m dir p b w)"
  using known_open_local [of E i m dir w] by (auto simp: local_endpoint_def split: prod.split sum.split dest: known_stopD)

lemma known_make_dirs [known_stops]: "known_stop (make_dirs E m dir w)"
  by (simp add: make_dirs_def exit_codes split: prod.split sum.split)

lemma known_resolve_local [known_stops]: "known_stop (resolve_local E i p targ b c w)"
  by (auto simp: resolve_local_def Let_def known_stops exit_codes split: prod.split sum.split dest: known_stopD [OF known_make_dirs])

lemma known_profile_endpoint [known_stops]: "known_stop (profile_endpoint E i p path w)"
  by (auto simp: profile_endpoint_def known_stops exit_codes split: prod.split sum.split dest: known_stopD [OF known_open_local])

lemma known_resolve [known_stops]: "known_stop (resolve_target E C i targ b c w)"
  by (auto simp: resolve_target_def resolve_remote_def known_stops exit_codes split: prod.split sum.split)

lemma known_ls [known_stops]: "known_stop (run_ls E C a args w)"
proof -
  have f: "known_stop (ls_first d p b w)" for d :: "'a driver" and p b w
    by (auto simp: ls_first_def split: prod.split sum.split)
  have "known_stop (ls_objects d t p b w)" for d :: "'a driver" and t p b w
    by (auto simp: ls_objects_def exit_codes split: prod.split sum.split option.split dest: known_stopD [OF f])
  note l = known_stopD [OF this]
  show ?thesis
    by (auto simp: run_ls_def exit_codes split: prod.split sum.split list.split dest: l known_stopD [OF known_resolve])
qed

lemma known_copy_objects: "known_stop (copy_objects sd sp dd dp obs n w)"
  by (induction sd sp dd dp obs n w rule: copy_objects.induct)
    (auto simp: Let_def exit_codes split: prod.split sum.split)

lemma known_cp [known_stops]: "known_stop (run_cp E C a args w)"
proof -
  have "known_stop (copy_tree C s d x y w)" for s d and x y :: "'a endpoint" and w
    by (auto simp: copy_tree_def exit_codes split: prod.split sum.split dest: known_stopD [OF known_copy_objects])
  moreover have "known_stop (copy_file C s d x y w)" for s d and x y :: "'a endpoint" and w
    by (auto simp: copy_file_def exit_codes split: prod.split sum.split)
  ultimately show ?thesis
    by (auto simp: run_cp_def exit_codes split: prod.split sum.split list.split dest: known_stopD [OF known_resolve])
qed

lemma known_remove_objects: "known_stop (remove_objects d b obs w)"
  by (induction d b obs w rule: remove_objects.induct) (auto simp: exit_codes split: prod.split sum.split)

lemma known_rm [known_stops]: "known_stop (run_rm E C a args w)"
proof -
  have "known_stop (remove_tree C b t ep w)" for b t and ep :: "'a endpoint" and w
    by (auto simp: remove_tree_def exit_codes split: prod.split sum.split dest: known_stopD [OF known_remove_objects])
  moreover have "known_stop (remove_file C t ep w)" for t and ep :: "'a endpoint" and w
    by (auto simp: remove_file_def exit_codes split: prod.split sum.split)
  ultimately show ?thesis
    by (auto simp: run_rm_def Let_def exit_codes split: prod.split sum.split list.split dest: known_stopD [OF known_resolve])
qed

lemma known_remote [known_stops]: "known_stop (run_remote E C a args w)"
proof -
  have l: "known_stop (list_profiles E C ns w)" for ns w
  proof (induction ns arbitrary: w)
    case (Cons n ns)
    show ?case by (auto simp: Cons.IH split: prod.split sum.split dest: known_stopD [OF Cons.IH])
  qed simp
  have "profile_of_args a xs = Inl s \<Longrightarrow> stop_code s = 2" for xs s
    by (auto simp: profile_of_args_def Let_def exit_codes split: if_splits)
  then have "known_stop (run_remote_add E C a xs w)" for xs w
    by (auto simp: run_remote_add_def exit_codes split: prod.split sum.split)
  moreover have "known_stop (run_remote_list E C a w)" for w
    by (auto simp: run_remote_list_def exit_codes split: prod.split sum.split dest: known_stopD [OF l])
  moreover have "known_stop (run_remote_remove E C xs w)" for xs w
    by (auto simp: run_remote_remove_def exit_codes split: prod.split sum.split list.split)
  ultimately show ?thesis by (auto simp: run_remote_def exit_codes split: list.split)
qed

lemma known_sync [known_stops]: "known_stop (run_sync E Y pick C a args w)"
  by (auto simp: run_sync_def Let_def exit_codes split: prod.split sum.split list.split dest: known_stopD [OF known_resolve])

lemma known_daemon [known_stops]: "known_stop (run_daemon E P C a args w)"
proof -
  have d: "known_stop (make_dir E m dir mode w)" for m dir mode w
    by (auto simp: make_dir_def exit_codes split: prod.split sum.split)
  have p: "known_stop (write_pid E C n w)" for n w
    by (auto simp: write_pid_def exit_codes split: prod.split sum.split)
  have s: "known_stop (serve_daemon P C l w)" for l w
    by (auto simp: serve_daemon_def Let_def exit_codes split: prod.split sum.split option.split)
  have s': "serve_daemon P C l w = (u, r) \<Longrightarrow> known_stop (v, r)" for l w u v r
    using s [of l w] by (simp add: known_stop_def)
  have "known_stop (start_foreground E P C l w)" for l w
    by (auto simp: start_foreground_def split: prod.split sum.split intro: s' dest: known_stopD [OF d] known_stopD [OF p])
  moreover have "known_stop (start_background E P C po ad w)" for po ad w
    by (auto simp: start_background_def exit_codes split: prod.split sum.split dest: known_stopD [OF d] known_stopD [OF p])
  ultimately have "known_stop (run_daemon_start E P C a w)" for w by (simp add: run_daemon_start_def Let_def)
  moreover have "known_stop (run_daemon_status E P C a w)" for w
    by (auto simp: run_daemon_status_def split: prod.split sum.split option.split probe.split bool.split)
  moreover have "known_stop (run_daemon_stop E P C w)" for w
    by (auto simp: run_daemon_stop_def split: prod.split sum.split option.split)
  ultimately show ?thesis by (auto simp: run_daemon_def exit_codes split: list.split)
qed

lemma finish_code: "known_stop (w, r) \<Longrightarrow> ex_code (finish r) \<in> {0, 1, 2, 3}"
  by (cases r) (auto simp: finish_def exit_codes split: cli_stop.split)

text \<open>C40: Whatever the arguments, the files, the services and the processes do, the program ends with the exit
  code 0, 1, 2 or 3, and arguments that do not parse end it with 2 before anything is touched.
\<close>

theorem exit_code_known:
  "ex_code (snd (run_main E Y pick P argv w)) \<in> {0, 1, 2, 3} \<and>
    (isl (parse_args argv no_arguments) \<longrightarrow> run_main E Y pick P argv w =
      (w, \<lparr>ex_output = [], ex_message = ''Error: '' @ err_msg (projl (parse_args argv no_arguments)), ex_code = 2\<rparr>))"
proof -
  have "ex_code (finish r) \<in> {0, 1, 2, 3}" if "run_command E Y pick P C a cmd args v = Some (u, r)" for C a cmd args v u r
  proof -
    have "known_stop (u, r)"
      using that known_remote [of E C a args v] known_ls [of E C a args v] known_cp [of E C a args v]
        known_sync [of E Y pick C a args v] known_rm [of E C a args v] known_daemon [of E P C a args v]
      by (auto simp: run_command_def split: if_splits)
    then show ?thesis by (rule finish_code)
  qed
  moreover have "ex_code (finish (Inr outs)) = 0" for outs by (simp add: finish_def exit_codes)
  ultimately show ?thesis
    by (auto simp: run_main_def help_page_def exit_codes split: prod.split sum.split list.split option.split)
qed

section \<open>The arguments of the background daemon\<close>

lemma parse_pos:
  assumes "\<not> has_prefix s ''-''"
  shows "parse_args (s # rest) a = parse_args rest (add_pos s a)"
proof -
  have "\<not> has_prefix s ''--''" using assms by (cases s) (auto simp: has_prefix_def take_Cons')
  then show ?thesis using assms by (simp add: parse_args.simps(2))
qed

lemma parse_value:
  assumes "n \<in> set known_value_flags" "CHR ''='' \<notin> set n" "\<not> has_prefix v ''-''"
  shows "parse_args ((''--'' @ n) # v # rest) a = parse_args rest (set_flag n v a)"
proof -
  have "has_prefix (''--'' @ n) ''--''" "trim_prefix (''--'' @ n) ''--'' = n" by (rule has_prefix_append, rule trim_prefix_append)
  then show ?thesis unfolding parse_args.simps(2) by (simp add: split2_none [OF assms(2)] assms(1,3))
qed

lemma parse_bool:
  assumes "n \<in> set known_bool_flags" "n \<notin> set known_value_flags" "CHR ''='' \<notin> set n"
  shows "parse_args ((''--'' @ n) # rest) a = parse_args rest (set_bool n a)"
proof -
  have "has_prefix (''--'' @ n) ''--''" "trim_prefix (''--'' @ n) ''--'' = n" by (rule has_prefix_append, rule trim_prefix_append)
  then show ?thesis unfolding parse_args.simps(2) by (simp add: split2_none [OF assms(3)] assms(1,2))
qed

text \<open>A value the child takes for a value: it does not look like a flag.\<close>

definition plain_value :: "string \<Rightarrow> bool" where
  "plain_value v \<longleftrightarrow> v \<noteq> '''' \<and> \<not> has_prefix v ''-''"

lemma parse_start_args:
  assumes "plain_value port" "plain_value addr" "plain_value (cc_config_dir C)" "plain_value (cc_data_dir C)"
    "plain_value (cc_passphrase C)"
  shows "parse_args (start_args port addr C) no_arguments =
    Ok \<lparr>ar_pos = [''daemon'', ''start''],
        ar_flags = [(''port'', port), (''addr'', addr), (''config'', cc_config_dir C), (''data'', cc_data_dir C),
                    (''vault-passphrase'', cc_passphrase C)],
        ar_bools = [''foreground'']\<rparr>"
proof -
  have k: "n \<in> set known_value_flags \<and> CHR ''='' \<notin> set n"
    if "n = ''port'' \<or> n = ''addr'' \<or> n = ''config'' \<or> n = ''data'' \<or> n = ''vault-passphrase''" for n
    using that by (elim disjE; hypsubst; code_simp)
  have f: "''foreground'' \<in> set known_bool_flags" "''foreground'' \<notin> set known_value_flags" "CHR ''='' \<notin> set ''foreground''"
    by code_simp+
  have v: "\<not> has_prefix port ''-''" "\<not> has_prefix addr ''-''" "\<not> has_prefix (cc_config_dir C) ''-''"
    "\<not> has_prefix (cc_data_dir C) ''-''" "\<not> has_prefix (cc_passphrase C) ''-''"
    using assms by (simp_all add: plain_value_def)
  have p: "\<not> has_prefix ''daemon'' ''-''" "\<not> has_prefix ''start'' ''-''" by code_simp+
  have e: "start_args port addr C = ''daemon'' # ''start'' # (''--'' @ ''foreground'') # (''--'' @ ''port'') # port #
      (''--'' @ ''addr'') # addr # (''--'' @ ''config'') # cc_config_dir C # (''--'' @ ''data'') # cc_data_dir C #
      (''--'' @ ''vault-passphrase'') # cc_passphrase C # []"
    by (simp add: start_args_def)
  note valued = parse_value [OF conjunct1 [OF k] conjunct2 [OF k]]
  show ?thesis
    unfolding e parse_pos [OF p(1)] parse_pos [OF p(2)] parse_bool [OF f]
      valued [of "''port''", simplified, OF v(1)] 
    by (simp add: valued [of "''port''", simplified, OF v(1)] valued [of "''addr''", simplified, OF v(2)]
        valued [of "''config''", simplified, OF v(3)] valued [of "''data''", simplified, OF v(4)]
        valued [of "''vault-passphrase''", simplified, OF v(5)]
        no_arguments_def add_pos_def set_flag_def set_bool_def)
qed

text \<open>C24: The background daemon starts with the settings of the command that started it: the arguments it is
  given parse, in whatever environment, to a foreground start with the same port, address,
  configuration and data directories and passphrase, provided none of them is empty or begins with a
  hyphen.
\<close>

theorem daemon_child_settings:
  assumes "plain_value port" "plain_value addr" "plain_value (cc_config_dir C)" "plain_value (cc_data_dir C)"
    "plain_value (cc_passphrase C)"
  shows "\<exists>a C' w'. parse_args (start_args port addr C) no_arguments = Ok a \<and> new_cli_context E a w = (w', C')
    \<and> (\<forall>P v. run_daemon E P C' a (tl (ar_pos a)) v = start_foreground E P C' (join_host_port addr port) v)
    \<and> cc_config_dir C' = cc_config_dir C \<and> cc_data_dir C' = cc_data_dir C \<and> cc_passphrase C' = cc_passphrase C
    \<and> vault_path C' = vault_path C \<and> token_path C' = token_path C \<and> pid_path C' = pid_path C"
proof -
  define a where "a = \<lparr>ar_pos = [''daemon'', ''start''],
        ar_flags = [(''port'', port), (''addr'', addr), (''config'', cc_config_dir C), (''data'', cc_data_dir C),
                    (''vault-passphrase'', cc_passphrase C)],
        ar_bools = [''foreground'']\<rparr>"
  have p: "parse_args (start_args port addr C) no_arguments = Ok a"
    unfolding a_def by (rule parse_start_args [OF assms])
  have s: "setting E a ''port'' x y = port" "setting E a ''addr'' x y = addr" "setting E a ''config'' x y = cc_config_dir C"
    "setting E a ''data'' x y = cc_data_dir C" "setting E a ''vault-passphrase'' x y = cc_passphrase C" for x y
    using assms by (simp_all add: setting_def flag_def a_def plain_value_def)
  obtain w' C' where c: "new_cli_context E a w = (w', C')" by force
  have "cc_config_dir C' = cc_config_dir C \<and> cc_data_dir C' = cc_data_dir C \<and> cc_passphrase C' = cc_passphrase C"
    using c by (auto simp: new_cli_context_def s Let_def split: prod.splits)
  moreover have g: "\<not> wants_help a [''start'']" "tl (ar_pos a) = [''start'']" "bool_flag a ''foreground''"
    by (simp_all add: a_def wants_help_def bool_flag_def)
  moreover have "run_daemon E P C' a (tl (ar_pos a)) v = start_foreground E P C' (join_host_port addr port) v" for P v
    using s(1,2) g by (simp add: run_daemon_def run_daemon_start_def daemon_port_def daemon_addr_def)
  ultimately show ?thesis using p c by (auto simp: vault_path_def token_path_def pid_path_def)
qed

section \<open>Copies between stores\<close>

definition copy_dest :: "string \<Rightarrow> string \<Rightarrow> string" where
  "copy_dest dp k = (if dp \<noteq> '''' then dp @ ''/'' @ k else k)"

lemma copy_dest_inject [simp]: "copy_dest dp k = copy_dest dp j \<longleftrightarrow> k = j"
  by (simp add: copy_dest_def)

lemma strip_nothing [simp]: "strip_base '''' p = p"
  by (simp add: strip_base_def)

text \<open>The files of a listing.\<close>

definition listed_files :: "object_info list \<Rightarrow> string set" where
  "listed_files obs = oi_path ` {ob \<in> set obs. \<not> oi_isdir ob}"

lemma listed_files_simps [simp]:
  "listed_files [] = {}"
  "listed_files (ob # obs) = (if oi_isdir ob then listed_files obs else insert (oi_path ob) (listed_files obs))"
  by (auto simp: listed_files_def)

context sync_stores
begin

text \<open>The objects of a listing that are files of the source, and whose destinations are keys there is room for.\<close>

definition copyable :: "string \<Rightarrow> string set \<Rightarrow> object_info list \<Rightarrow> 'w \<Rightarrow> bool" where
  "copyable dp K obs w \<longleftrightarrow> (\<forall>ob \<in> set obs. \<not> oi_isdir ob \<longrightarrow>
     (\<exists>d. view_s w (oi_path ob) = Some d \<and> oi_size ob = int (length d) \<and> small_d d) \<and>
     key_d (copy_dest dp (oi_path ob)) = Some (copy_dest dp (oi_path ob)) \<and> copy_dest dp (oi_path ob) \<in> K)"

lemma copy_objects_ok:
  assumes "both K w" "copyable dp K obs w" "distinct (map oi_path obs)"
  shows "\<exists>w'. copy_objects S '''' D dp obs n w = (w', Inr (n + card (listed_files obs))) \<and> both K w' \<and> view_s w' = view_s w
    \<and> (\<forall>k \<in> listed_files obs. view_d w' (copy_dest dp k) = view_s w k)
    \<and> (\<forall>q. q \<notin> copy_dest dp ` listed_files obs \<longrightarrow> view_d w' q = view_d w q)"
  using assms
proof (induction obs arbitrary: n w)
  case Nil
  then show ?case by simp
next
  case (Cons ob obs)
  show ?case
  proof (cases "oi_isdir ob")
    case True
    have "copyable dp K obs w" using Cons.prems(2) by (simp add: copyable_def)
    from Cons.IH [OF Cons.prems(1) this] Cons.prems(3) True show ?thesis by simp
  next
    case False
    let ?k = "oi_path ob"
    obtain d where d: "view_s w ?k = Some d" "oi_size ob = int (length d)"
      "key_d (copy_dest dp ?k) = Some (copy_dest dp ?k)" "copy_dest dp ?k \<in> K" "small_d d"
      using Cons.prems(2) False by (auto simp: copyable_def)
    obtain w1 where 1: "dr_read S background ?k w = (w1, Ok (bytes_reader d))" "both K w1" "calm w w1"
      using read_source [OF Cons.prems(1) d(1)] by blast
    obtain w2 where 2: "dr_write D background (copy_dest dp ?k) (bytes_reader d) (int (length d)) w1 = (w2, Ok ())" "both K w2"
      "view_s w2 = view_s w1" "view_d w2 = (view_d w1)(copy_dest dp ?k \<mapsto> d)"
      using write_dest [OF 1(2) d(3-5)] by blast
    have v: "view_s w2 = view_s w" "view_d w2 = (view_d w)(copy_dest dp ?k \<mapsto> d)"
      using 1(3) 2(3,4) by (simp_all add: calm_def)
    have "copyable dp K obs w2" using Cons.prems(2) unfolding copyable_def v(1) by simp
    moreover have "distinct (map oi_path obs)" using Cons.prems(3) by simp
    ultimately obtain w' where w': "copy_objects S '''' D dp obs (Suc n) w2 = (w', Inr (Suc n + card (listed_files obs)))"
      "both K w'" "view_s w' = view_s w2" "\<forall>k \<in> listed_files obs. view_d w' (copy_dest dp k) = view_s w2 k"
      "\<forall>q. q \<notin> copy_dest dp ` listed_files obs \<longrightarrow> view_d w' q = view_d w2 q"
      using Cons.IH [OF 2(2)] by blast
    have n: "?k \<notin> listed_files obs" using Cons.prems(3) by (auto simp: listed_files_def)
    have "finite (listed_files obs)" by (simp add: listed_files_def)
    then have "copy_objects S '''' D dp (ob # obs) n w = (w', Inr (n + card (listed_files (ob # obs))))"
      using False d(2) 1(1) 2(1) w'(1) n by (simp add: copy_dest_def [symmetric])
    moreover have "copy_dest dp ?k \<notin> copy_dest dp ` listed_files obs" using n by auto
    then have "view_d w' (copy_dest dp ?k) = view_s w ?k" using w'(5) v(2) d(1) by simp
    then have "\<forall>k \<in> listed_files (ob # obs). view_d w' (copy_dest dp k) = view_s w k"
      using w'(4) v(1) False by simp
    moreover have "\<forall>q. q \<notin> copy_dest dp ` listed_files (ob # obs) \<longrightarrow> view_d w' q = view_d w q"
      using w'(5) v(2) False by simp
    ultimately show ?thesis using w'(2,3) v(1) by auto
  qed
qed

lemma copy_tree_mirrors:
  assumes "inv_s w" "inv_d w" "room w K" "pre_s '''' = ''''"
    and "\<forall>k. view_s w k \<noteq> None \<longrightarrow> key_d (copy_dest (trim_slashes (slashed dp)) k) = Some (copy_dest (trim_slashes (slashed dp)) k)
      \<and> copy_dest (trim_slashes (slashed dp)) k \<in> K"
    and "\<forall>k d. view_s w k = Some d \<longrightarrow> small_d d"
  shows "\<exists>w'. copy_tree C src dst \<lparr>ep_driver = S, ep_prefix = '''', ep_isdir = True, ep_isfile = False\<rparr>
        \<lparr>ep_driver = D, ep_prefix = dp, ep_isdir = b, ep_isfile = False\<rparr> w =
      (w', Inr (log_line C (''Copied '' @ nat_text (card (dom (view_s w))) @ '' files from '' @ src @ '' to '' @ dst)))
    \<and> view_s w' = view_s w
    \<and> (\<forall>k. view_s w k \<noteq> None \<longrightarrow> view_d w' (copy_dest (trim_slashes (slashed dp)) k) = view_s w k)
    \<and> (\<forall>q. q \<notin> copy_dest (trim_slashes (slashed dp)) ` dom (view_s w) \<longrightarrow> view_d w' q = view_d w q)"
proof -
  let ?p = "trim_slashes (slashed dp)"
  obtain w1 obs where 1: "dr_list S background '''' w = (w1, Ok obs)" "inv_s w1" "view_s w1 = view_s w" "distinct (map oi_path obs)"
    "{(oi_path ob, oi_size ob) |ob. ob \<in> set obs \<and> \<not> oi_isdir ob} = {(k, int (length d)) |k d. view_s w k = Some d \<and> has_prefix k (pre_s '''')}"
    using src.list_files [OF assms(1), of "''''"] by blast
  have r: "inv_d w1" "view_d w1 = view_d w" "room w1 = room w" using src_reads [OF assms(1,2) disjI2 [OF 1(1)]] by simp_all
  have b: "both K w1" using 1(2) r(1,3) assms(3) by (simp add: both_def)
  have m: "(\<exists>ob. p = oi_path ob \<and> n = oi_size ob \<and> ob \<in> set obs \<and> \<not> oi_isdir ob) \<longleftrightarrow> (\<exists>d. view_s w p = Some d \<and> n = int (length d))" for p n
    using 1(5) unfolding set_eq_iff assms(4) by (auto dest!: spec [where x = "(p, n)"])
  have f: "listed_files obs = dom (view_s w)"
  proof (rule set_eqI)
    fix k
    have "k \<in> listed_files obs \<longleftrightarrow> (\<exists>n ob. k = oi_path ob \<and> n = oi_size ob \<and> ob \<in> set obs \<and> \<not> oi_isdir ob)"
      by (auto simp: listed_files_def)
    also have "\<dots> \<longleftrightarrow> k \<in> dom (view_s w)" unfolding m by auto
    finally show "k \<in> listed_files obs \<longleftrightarrow> k \<in> dom (view_s w)" .
  qed
  have "copyable ?p K obs w1" unfolding copyable_def 1(3)
  proof (intro ballI impI)
    fix ob assume o: "ob \<in> set obs" "\<not> oi_isdir ob"
    then obtain d where "view_s w (oi_path ob) = Some d" "oi_size ob = int (length d)" using m by metis
    then show "(\<exists>d. view_s w (oi_path ob) = Some d \<and> oi_size ob = int (length d) \<and> small_d d) \<and>
        key_d (copy_dest ?p (oi_path ob)) = Some (copy_dest ?p (oi_path ob)) \<and> copy_dest ?p (oi_path ob) \<in> K"
      using assms(5,6) by auto
  qed
  from copy_objects_ok [OF b this 1(4), of 0] obtain w' where
    w': "copy_objects S '''' D ?p obs 0 w1 = (w', Inr (card (dom (view_s w))))" "view_s w' = view_s w"
      "\<forall>k \<in> dom (view_s w). view_d w' (copy_dest ?p k) = view_s w k"
      "\<forall>q. q \<notin> copy_dest ?p ` dom (view_s w) \<longrightarrow> view_d w' q = view_d w q"
    unfolding f 1(3) r(2) by auto
  have "trim_slashes (slashed '''') = ''''" by code_simp
  then show ?thesis using 1(1) w' by (auto simp: copy_tree_def dom_def)
qed

end

text \<open>C10: \<^verbatim>\<open>cp -r\<close> of a directory into a bucket copies every file under its name, below the prefix of the
  destination if it has one, whole and through as many transient refusals as the retries allow; it
  reports their number, leaves the directory as it was and changes no other object of the bucket.
  The files are such that the 32-bit numbers of their parts do not wrap around, up to 32 PiB.
\<close>

theorem cp_uploads_directory:
  assumes "local_inv r (fst w)" "bucket_inv (bucket_client dig t b rs) b (snd w)" "bucket_room b (snd w) K"
    and "\<forall>k. local_view r (fst w) k \<noteq> None \<longrightarrow>
      s3_key (copy_dest (trim_slashes (slashed dp)) k) = Some (copy_dest (trim_slashes (slashed dp)) k)
      \<and> copy_dest (trim_slashes (slashed dp)) k \<in> K"
    and "\<forall>k x. local_view r (fst w) k = Some x \<longrightarrow> uploadable x"
  shows "\<exists>w'. copy_tree C src dst \<lparr>ep_driver = dir_driver r i, ep_prefix = '''', ep_isdir = True, ep_isfile = False\<rparr>
        \<lparr>ep_driver = s3_half (bucket_client dig t b rs) j, ep_prefix = dp, ep_isdir = dir, ep_isfile = False\<rparr> w =
      (w', Inr (log_line C (''Copied '' @ nat_text (card (dom (local_view r (fst w)))) @ '' files from '' @ src @ '' to '' @ dst)))
    \<and> local_view r (fst w') = local_view r (fst w)
    \<and> (\<forall>k. local_view r (fst w) k \<noteq> None \<longrightarrow>
        server_objs b (snd w') (copy_dest (trim_slashes (slashed dp)) k) = local_view r (fst w) k)
    \<and> (\<forall>q. q \<notin> copy_dest (trim_slashes (slashed dp)) ` dom (local_view r (fst w)) \<longrightarrow>
        server_objs b (snd w') q = server_objs b (snd w) q)"
proof -
  have "list_prefix '''' = ''''" by code_simp
  from up.copy_tree_mirrors [OF assms(1-3) this assms(4,5)] show ?thesis by blast
qed

text \<open>A context that prints.\<close>

definition demo_context :: cli_context where
  "demo_context = \<lparr>cc_config_dir = ''/cfg'', cc_data_dir = ''/data'', cc_daemon_addr = ''http://127.0.0.1:8080'', cc_token = '''',
     cc_passphrase = ''pw'', cc_json = False, cc_verbose = False, cc_quiet = False\<rparr>"

lemma cp_uploads_directory_witness:
  "\<exists>w'. copy_tree demo_context ''/srv'' ''r:x/'' \<lparr>ep_driver = dir_driver [''srv''] 0, ep_prefix = '''', ep_isdir = True, ep_isfile = False\<rparr>
        \<lparr>ep_driver = s3_half (bucket_client (\<lambda>_. '''') 0 ''b'' []) 1, ep_prefix = ''x/'', ep_isdir = True, ep_isfile = False\<rparr> upload_start =
      (w', Inr [OutLine ''Copied 1 files from /srv to r:x/''])
    \<and> server_objs ''b'' (snd w') ''x/a/f'' = Some [1, 2] \<and> server_objs ''b'' (snd w') ''old'' = Some [3]"
proof -
  have x: "trim_slashes (slashed ''x/'') = ''x''" "s3_key ''x/a/f'' = Some ''x/a/f''" by code_simp+
  have fs: "fst upload_start = plain_fs" by (simp add: upload_start_def)
  have v: "local_view [''srv''] (fst upload_start) = [''a/f'' \<mapsto> [1, 2]]" by (rule ext) (simp add: fs plain_fs_view)
  have room: "bucket_room ''b'' (snd upload_start) {''x/a/f''}" by (simp add: bucket_room_def upload_start_bucket card_insert_if)
  have names: "\<forall>k. local_view [''srv''] (fst upload_start) k \<noteq> None \<longrightarrow>
      s3_key (copy_dest (trim_slashes (slashed ''x/'')) k) = Some (copy_dest (trim_slashes (slashed ''x/'')) k)
      \<and> copy_dest (trim_slashes (slashed ''x/'')) k \<in> {''x/a/f''}"
    by (simp add: v x copy_dest_def)
  have up: "\<forall>k x. local_view [''srv''] (fst upload_start) k = Some x \<longrightarrow> uploadable x" by (simp add: v uploadable_size)
  have inv: "local_inv [''srv''] (fst upload_start)" by (simp add: fs plain_fs_inv)
  have dom: "dom (local_view [''srv''] (fst upload_start)) = {''a/f''}" by (simp add: v)
  have log: "log_line demo_context (''Copied '' @ nat_text (card {''a/f''}) @ '' files from '' @ ''/srv'' @ '' to '' @ ''r:x/'')
      = [OutLine ''Copied 1 files from /srv to r:x/'']"
    by (simp add: log_line_def demo_context_def nat_text.simps digit_char_def) code_simp
  obtain w' where 1: "copy_tree demo_context ''/srv'' ''r:x/'' \<lparr>ep_driver = dir_driver [''srv''] 0, ep_prefix = '''', ep_isdir = True, ep_isfile = False\<rparr>
        \<lparr>ep_driver = s3_half (bucket_client (\<lambda>_. '''') 0 ''b'' []) 1, ep_prefix = ''x/'', ep_isdir = True, ep_isfile = False\<rparr> upload_start =
      (w', Inr (log_line demo_context (''Copied '' @ nat_text (card (dom (local_view [''srv''] (fst upload_start)))) @ '' files from '' @ ''/srv'' @ '' to '' @ ''r:x/'')))"
    and 2: "\<forall>k. local_view [''srv''] (fst upload_start) k \<noteq> None \<longrightarrow>
        server_objs ''b'' (snd w') (copy_dest (trim_slashes (slashed ''x/'')) k) = local_view [''srv''] (fst upload_start) k"
    and 3: "\<forall>q. q \<notin> copy_dest (trim_slashes (slashed ''x/'')) ` dom (local_view [''srv''] (fst upload_start)) \<longrightarrow>
        server_objs ''b'' (snd w') q = server_objs ''b'' (snd upload_start) q"
    using cp_uploads_directory [OF inv upload_start_bucket(2) room names up] by blast
  have "server_objs ''b'' (snd w') ''x/a/f'' = Some [1, 2]"
    using 2 [rule_format, of "''a/f''"] by (simp add: v x copy_dest_def)
  moreover have "server_objs ''b'' (snd w') ''old'' = Some [3]"
    using 3 [rule_format, of "''old''"] by (simp add: dom x copy_dest_def upload_start_bucket(1))
  ultimately show ?thesis using 1 unfolding dom log by blast
qed

section \<open>Removals\<close>

context object_store
begin

lemma remove_objects_ok:
  assumes "inv w" "distinct (map oi_path obs)" "\<forall>k \<in> listed_files obs. view w k \<noteq> None"
  shows "\<exists>w'. remove_objects D force obs w = (w', Inr ()) \<and> inv w'
    \<and> view w' = (\<lambda>k. if k \<in> listed_files obs then None else view w k)"
  using assms
proof (induction obs arbitrary: w)
  case Nil
  then show ?case by simp
next
  case (Cons ob obs)
  show ?case
  proof (cases "oi_isdir ob")
    case True
    then show ?thesis using Cons by simp
  next
    case False
    let ?k = "oi_path ob"
    obtain d where d: "view w ?k = Some d" using Cons.prems(3) False by auto
    obtain w1 where 1: "dr_delete D background ?k w = (w1, Ok ())" "inv w1" "view w1 = (view w)(?k := None)"
      using delete_plain [OF Cons.prems(1) stored_key [OF Cons.prems(1) d] stored_plain [OF Cons.prems(1) d]] by blast
    have "?k \<notin> listed_files obs" using Cons.prems(2) by (auto simp: listed_files_def)
    then have "\<forall>k \<in> listed_files obs. view w1 k \<noteq> None" using Cons.prems(3) 1(3) False by auto
    then obtain w' where "remove_objects D force obs w1 = (w', Inr ())" "inv w'"
      "view w' = (\<lambda>k. if k \<in> listed_files obs then None else view w1 k)"
      using Cons.IH [OF 1(2)] Cons.prems(2) by auto
    then show ?thesis using False 1(1,3) by (auto intro!: ext)
  qed
qed

lemma listing_files:
  assumes "inv w"
  shows "\<exists>w' obs. dr_list D background p w = (w', Ok obs) \<and> inv w' \<and> view w' = view w \<and> distinct (map oi_path obs)
    \<and> listed_files obs = {k. view w k \<noteq> None \<and> has_prefix k (pre p)}"
proof -
  obtain w' obs where 1: "dr_list D background p w = (w', Ok obs)" "inv w'" "view w' = view w" "distinct (map oi_path obs)"
    "{(oi_path ob, oi_size ob) |ob. ob \<in> set obs \<and> \<not> oi_isdir ob} = {(k, int (length d)) |k d. view w k = Some d \<and> has_prefix k (pre p)}"
    using list_files [OF assms, of p] by blast
  have "fst ` {(oi_path ob, oi_size ob) |ob. ob \<in> set obs \<and> \<not> oi_isdir ob} = listed_files obs"
    by (auto simp: listed_files_def image_iff)
  moreover have "fst ` {(k, int (length d)) |k d. view w k = Some d \<and> has_prefix k (pre p)} = {k. view w k \<noteq> None \<and> has_prefix k (pre p)}"
    by (force simp: image_iff)
  ultimately show ?thesis using 1 by auto
qed

lemma remove_tree_exact:
  assumes "inv w" "key p = Some k"
    and "\<And>v. inv v \<Longrightarrow> dom (view v) \<subseteq> dom (view w) \<Longrightarrow> plain v k"
  shows "\<exists>w'. remove_tree C force targ \<lparr>ep_driver = D, ep_prefix = p, ep_isdir = b, ep_isfile = c\<rparr> w =
      (w', Inr (removed_line C targ))
    \<and> view w' = (\<lambda>j. if j = k \<or> has_prefix j (pre p) then None else view w j)"
proof -
  obtain w1 obs where 1: "dr_list D background p w = (w1, Ok obs)" "inv w1" "view w1 = view w" "distinct (map oi_path obs)"
    "listed_files obs = {k. view w k \<noteq> None \<and> has_prefix k (pre p)}"
    using listing_files [OF assms(1)] by blast
  have "\<forall>k \<in> listed_files obs. view w1 k \<noteq> None" using 1(3,5) by simp
  then obtain w2 where 2: "remove_objects D force obs w1 = (w2, Inr ())" "inv w2"
    "view w2 = (\<lambda>k. if k \<in> listed_files obs then None else view w1 k)"
    using remove_objects_ok [OF 1(2,4)] by blast
  have "plain w2 k" by (rule assms(3) [OF 2(2)]) (auto simp: 2(3) 1(3) split: if_splits)
  then obtain w3 where 3: "dr_delete D background p w2 = (w3, Ok ())" "view w3 = (view w2)(k := None)"
    using delete_plain [OF 2(2) assms(2)] by blast
  have "view w3 = (\<lambda>j. if j = k \<or> has_prefix j (pre p) then None else view w j)"
    unfolding 3(2) 2(3) 1(3,5) by (auto intro!: ext)
  then show ?thesis using 1(1) 2(1) 3(1) by (simp add: remove_tree_def)
qed

end

text \<open>C19: \<^verbatim>\<open>rm -r\<close> of a prefix of a bucket removes exactly the objects whose key begins with it, as a string:
  with \<open>logs\<close> the object \<open>logs-2/x\<close> goes too.  No other object changes, and transient refusals within
  the retries do not stop it.
\<close>

theorem rm_removes_prefix:
  assumes "bucket_inv (bucket_client dig t b rs) b s" "s3_key p = Some k" "card (insert k (dom (server_objs b s))) \<le> 1000"
  shows "\<exists>s'. remove_tree C force targ
        \<lparr>ep_driver = s3_driver (bucket_client dig t b rs) j, ep_prefix = p, ep_isdir = dir, ep_isfile = fl\<rparr> s =
      (s', Inr (removed_line C targ))
    \<and> server_objs b s' = (\<lambda>q. if has_prefix q k then None else server_objs b s q)"
proof -
  have k: "s3_clean_key p = k" using assms(2) by (simp add: s3_key_Some)
  have "bucket_plain b v k" if "dom (server_objs b v) \<subseteq> dom (server_objs b s)" for v
  proof -
    have "finite (dom (server_objs b s))" using assms(1) by (simp add: bucket_inv_def)
    then have "card (insert k (dom (server_objs b v))) \<le> card (insert k (dom (server_objs b s)))"
      using that by (intro card_mono) auto
    then show ?thesis using assms(3) by (simp add: bucket_plain_def)
  qed
  then obtain s' where "remove_tree C force targ
        \<lparr>ep_driver = s3_driver (bucket_client dig t b rs) j, ep_prefix = p, ep_isdir = dir, ep_isfile = fl\<rparr> s =
      (s', Inr (removed_line C targ))"
    "server_objs b s' = (\<lambda>q. if q = k \<or> has_prefix q (s3_clean_key p) then None else server_objs b s q)"
    using object_store.remove_tree_exact [OF bucket_store assms(1,2)] by blast
  then show ?thesis unfolding k by (auto intro!: exI [of _ s'] ext)
qed

definition rm_start :: s3_server where
  "rm_start = simulate_transient_failures 1
     (new_s3_server\<lparr>sv_buckets := [(''b'', [(''logs/a'', [1]), (''logs-2/x'', [2]), (''keep'', [3])])]\<rparr>)"

lemma rm_removes_prefix_witness:
  "\<exists>s'. remove_tree demo_context False ''r:logs''
        \<lparr>ep_driver = s3_driver (bucket_client (\<lambda>_. '''') 0 ''b'' []) 0, ep_prefix = ''logs'', ep_isdir = False, ep_isfile = False\<rparr> rm_start =
      (s', Inr (removed_line demo_context ''r:logs''))
    \<and> server_objs ''b'' s' = [''keep'' \<mapsto> [3]]"
proof -
  have o: "server_objs ''b'' rm_start = [''logs/a'' \<mapsto> [1], ''logs-2/x'' \<mapsto> [2], ''keep'' \<mapsto> [3]]"
    by (auto simp: server_objs_def bucket_of_def rm_start_def simulate_transient_failures_def new_s3_server_def)
  have "server_live rm_start" "server_busy rm_start = 1"
    by (simp_all add: rm_start_def simulate_transient_failures_def new_s3_server_def server_live_def one_each_def
        given_out_def numbered_def server_busy_def)
  moreover have k: "s3_key ''logs/a'' = Some ''logs/a''" "s3_key ''logs-2/x'' = Some ''logs-2/x''" "s3_key ''keep'' = Some ''keep''"
    "s3_key ''logs'' = Some ''logs''" by code_simp+
  ultimately have inv: "bucket_inv (bucket_client (\<lambda>_. '''') 0 ''b'' []) ''b'' rm_start"
    by (simp add: bucket_inv_def o bucket_client_def s3_new_with_client_def default_retry_config_def)
  have "card (insert ''logs'' (dom (server_objs ''b'' rm_start))) \<le> 1000" by (simp add: o card_insert_if)
  from rm_removes_prefix [OF inv k(4) this] obtain s' where
    "remove_tree demo_context False ''r:logs''
        \<lparr>ep_driver = s3_driver (bucket_client (\<lambda>_. '''') 0 ''b'' []) 0, ep_prefix = ''logs'', ep_isdir = False, ep_isfile = False\<rparr> rm_start =
      (s', Inr (removed_line demo_context ''r:logs''))"
    "server_objs ''b'' s' = (\<lambda>q. if has_prefix q ''logs'' then None else server_objs ''b'' rm_start q)" by blast
  moreover have "(\<lambda>q. if has_prefix q ''logs'' then None else server_objs ''b'' rm_start q) = [''keep'' \<mapsto> [3]]"
    by (rule ext) (auto simp: o has_prefix_def)
  ultimately show ?thesis by auto
qed

section \<open>Profiles and targets\<close>


text \<open>A toy environment: a vault whose codec knows the profile of the witness.\<close>

definition added_profile :: remote_profile where
  "added_profile = (empty_profile ''b1'' ''s3'')\<lparr>rp_bucket := ''bk'', rp_region := ''us-east-1''\<rparr>"

definition added_vault :: vault_env where
  "added_vault = demo_vault\<lparr>ve_unmarshal := (\<lambda>b. Ok (Some (if b = [1] then [] else [(''b1'', added_profile)])))\<rparr>"

definition demo_cli :: "fs cli_env" where
  "demo_cli = \<lparr>ce_os = id, ce_put_os = (\<lambda>a w. a), ce_vault = added_vault, ce_connect = (\<lambda>r c e p. Err ErrNotFound),
     ce_getenv = (\<lambda>v. ''''), ce_home = Ok ''/home/u'', ce_tmp = ''/tmp'', ce_time_text = (\<lambda>t. '''')\<rparr>"




lemma daemon_child_settings_witness:
  "\<exists>a C' w'. parse_args (start_args ''9090'' ''127.0.0.1'' demo_context) no_arguments = Ok a
    \<and> new_cli_context demo_cli a plain_fs = (w', C') \<and> cc_config_dir C' = ''/cfg'' \<and> cc_passphrase C' = ''pw''"
proof -
  have "plain_value ''9090''" "plain_value ''127.0.0.1''" "plain_value (cc_config_dir demo_context)"
    "plain_value (cc_data_dir demo_context)" "plain_value (cc_passphrase demo_context)" by code_simp+
  from daemon_child_settings [OF this, of demo_cli plain_fs] show ?thesis by (auto simp: demo_context_def)
qed

text \<open>
  Three behaviours the properties do not cover: a copy to a remote directory with a final slash
  writes to the root of the remote; a passphrase that begins with a hyphen keeps the background
  daemon from starting; the variable for the URL of the daemon is taken for the host to listen on.
\<close>

lemma copy_into_remote_directory:
  "has_suffix p ''/'' \<Longrightarrow> copy_name s (path_endpoint d p) = path_base (ep_prefix s)"
  by (simp add: copy_name_def path_endpoint_def)

lemma hyphen_passphrase:
  "isl (parse_args (start_args ''8080'' ''127.0.0.1'' (demo_context\<lparr>cc_passphrase := ''-pw''\<rparr>)) no_arguments)"
  by code_simp

lemma daemon_url_as_host:
  "join_host_port (daemon_addr (demo_cli\<lparr>ce_getenv := (\<lambda>v. if v = ''UNISTORAGE_DAEMON_ADDR'' then ''http://127.0.0.1:9090'' else '''')\<rparr>) no_arguments)
    ''8080'' = ''[http://127.0.0.1:9090]:8080''"
  by code_simp

lemma exit_code_known_witness:
  "\<forall>Y pick P. run_main demo_cli Y pick P [''ls'', ''--bogus''] plain_fs =
    (plain_fs, \<lparr>ex_output = [], ex_message = ''Error: unknown flag --bogus'', ex_code = 2\<rparr>)"
proof (intro allI)
  fix Y pick P
  have p: "parse_args [''ls'', ''--bogus''] no_arguments = Err (ErrText ''unknown flag --bogus'')" by code_simp
  have "isl (parse_args [''ls'', ''--bogus''] no_arguments)" by (simp add: p)
  then have "run_main demo_cli Y pick P [''ls'', ''--bogus''] plain_fs =
      (plain_fs, \<lparr>ex_output = [], ex_message = ''Error: '' @ err_msg (projl (parse_args [''ls'', ''--bogus''] no_arguments)), ex_code = 2\<rparr>)"
    by (rule conjunct2 [OF exit_code_known, rule_format])
  then show "run_main demo_cli Y pick P [''ls'', ''--bogus''] plain_fs =
      (plain_fs, \<lparr>ex_output = [], ex_message = ''Error: unknown flag --bogus'', ex_code = 2\<rparr>)"
    by (simp add: p)
qed

end
