(* ===== verification/Entitlement.thy ===== *)
theory Entitlement
  imports Storage_Driver
begin

text \<open>
  \<^verbatim>\<open>pkg/entitlement\<close>: the features of the commercial tiers, the checker of the community
  edition and the choice of the checker in an enterprise build.  A checker is a record of its
  methods; no method of the community checker looks at its context.
\<close>

section \<open>Features and licenses\<close>

definition enterprise_features :: "string list" where
  "enterprise_features = [''enterprise.snapshot_backup'', ''enterprise.retention_prune'', ''enterprise.telemetry_probe'',
     ''enterprise.webhook_alerts'']"

definition is_enterprise_feature :: "string \<Rightarrow> bool" where
  "is_enterprise_feature f \<longleftrightarrow> f \<in> set enterprise_features"

record license_info =
  li_tier :: string
  li_customer :: string
  li_licensed_to :: string
  li_issued :: int
  li_expires :: int
  li_features :: "string list"
  li_nodes :: int
  li_expired :: bool
  li_signature :: string

record checker =
  ck_check :: "string \<Rightarrow> bool \<times> go_error option"
  ck_require :: "string \<Rightarrow> go_error option"
  ck_license :: "license_info res"
  ck_enabled :: "string \<Rightarrow> bool"
  ck_info :: license_info
  ck_validate :: "string \<Rightarrow> license_info res"

section \<open>The community checker\<close>

definition community_check :: "string \<Rightarrow> bool \<times> go_error option" where
  "community_check f =
     (if is_enterprise_feature f then (False, Some (errorf_wv ErrFeatureNotLicensed f)) else (True, None))"

definition community_require :: "string \<Rightarrow> go_error option" where
  "community_require f =
     (case community_check f of
        (False, Some e) \<Rightarrow> Some e
      | (False, None) \<Rightarrow> Some (errorf_wv ErrFeatureNotLicensed f)
      | (True, _) \<Rightarrow> None)"

definition community_license :: license_info where
  "community_license = \<lparr>li_tier = ''community'', li_customer = ''community-user'', li_licensed_to = ''Community User'',
     li_issued = zero_time, li_expires = zero_time, li_features = [], li_nodes = 1, li_expired = False, li_signature = ''''\<rparr>"

definition community_enabled :: "string \<Rightarrow> bool" where
  "community_enabled f = (case community_check f of (ok, Some e) \<Rightarrow> False | (ok, None) \<Rightarrow> ok)"

definition community_checker :: checker where
  "community_checker = \<lparr>ck_check = community_check, ck_require = community_require, ck_license = Ok community_license,
     ck_enabled = community_enabled, ck_info = community_license, ck_validate = (\<lambda>k. Err ErrFeatureNotLicensed)\<rparr>"

text \<open>
  The default checker: of the open build, and of an enterprise build with the factory that was
  registered, if one was.
\<close>

definition default_checker :: checker where
  "default_checker = community_checker"

definition register_enterprise_checker :: "'f \<Rightarrow> 'f option \<Rightarrow> 'f option" where
  "register_enterprise_checker f st = Some f"

definition enterprise_default_checker :: "(unit \<Rightarrow> checker) option \<Rightarrow> checker" where
  "enterprise_default_checker st = (case st of Some f \<Rightarrow> f () | None \<Rightarrow> community_checker)"

section \<open>Lemmas\<close>

text \<open>The four answers of the checker agree, and a denial can be recognised.\<close>

lemma community_agrees:
  "ck_enabled community_checker f \<longleftrightarrow> \<not> is_enterprise_feature f"
  "fst (ck_check community_checker f) \<longleftrightarrow> \<not> is_enterprise_feature f"
  "ck_require community_checker f = None \<longleftrightarrow> \<not> is_enterprise_feature f"
  "ck_require community_checker f = Some e \<Longrightarrow> err_is e ErrFeatureNotLicensed"
  by (auto simp: community_checker_def community_enabled_def community_check_def community_require_def errorf_wv_def
      split: if_splits)

lemma enterprise_default:
  "enterprise_default_checker None = default_checker"
  "enterprise_default_checker (register_enterprise_checker f st) = f ()"
  by (simp_all add: enterprise_default_checker_def default_checker_def register_enterprise_checker_def)

end
