(* ===== verification/Spec2Isabelle.thy ===== *)
theory Spec2Isabelle
  imports Local_Faults Mock_Driver S3_Server Sync_Target Sync_Upload Daemon_Props Cli_Props Entitlement
begin

text \<open>
  Verification of UniStorage, a storage gateway with interchangeable backends, a synchronisation
  engine, an encrypted vault of remote profiles, an HTTP daemon and a command line.

  \<^bold>\<open>The program and the theories.\<close>  The program is written in Go.  Its parts and how they use each
  other:

  \<^item> \<^verbatim>\<open>pkg/storage/driver.go\<close> defines the interface of a backend.  \<^verbatim>\<open>Storage_Driver\<close> has its data
    types, the interface as a record of operations on a world, readers and pages, and the contract
    of a driver as the locale \<open>object_store\<close>: a key normal form, a view of the stored objects, and
    what read, write, stat, delete and list do to it.
  \<^item> \<^verbatim>\<open>pkg/storage/mock.go\<close> is \<^verbatim>\<open>Mock_Driver\<close>, with the contract interpreted on it.
  \<^item> \<^verbatim>\<open>pkg/storage/local/sanitizer.go\<close> is \<^verbatim>\<open>Path_Sanitizer\<close>; \<^verbatim>\<open>pkg/storage/local/local.go\<close> is
    \<^verbatim>\<open>Local_Driver\<close> (operations, and the contract on a tree without links and without failing system
    calls) and \<^verbatim>\<open>Local_Faults\<close> (writes when any system call may fail at any moment).
  \<^item> \<^verbatim>\<open>pkg/storage/s3/retry.go\<close> is \<^verbatim>\<open>S3_Retry\<close>; \<^verbatim>\<open>pkg/storage/s3/s3.go\<close> is \<^verbatim>\<open>S3_Driver\<close>, over a client record
    whose laws are the locales \<open>s3_service\<close> and \<open>s3_store\<close> of \<^verbatim>\<open>S3_Service\<close>; \<^verbatim>\<open>S3_Server\<close> is the
    server of \<^verbatim>\<open>tests/e2e/harness/s3_mock.go\<close> and interprets those locales on it.
  \<^item> \<^verbatim>\<open>pkg/sync/target.go\<close>, \<^verbatim>\<open>comparator.go\<close>, \<^verbatim>\<open>conflict.go\<close> and \<^verbatim>\<open>sync.go\<close> are \<^verbatim>\<open>Sync_Target\<close>, \<^verbatim>\<open>Sync_Compare\<close> and
    \<^verbatim>\<open>Sync_Engine\<close>; \<^verbatim>\<open>Sync_Pool\<close> proves what holds for all drivers and all schedules of the workers,
    \<^verbatim>\<open>Sync_Stores\<close> (locale \<open>sync_stores\<close>: two object stores in one world) what holds for drivers with
    the contract, \<^verbatim>\<open>Sync_Upload\<close> interprets it on a local directory and an S3 bucket.
  \<^item> \<^verbatim>\<open>pkg/vault/vault.go\<close> is \<^verbatim>\<open>Vault\<close>, over the AES-256-GCM of \<^verbatim>\<open>Aes_Gcm\<close> (written out; \<open>gcm_open_seal\<close>
    is its round trip) and the JSON values of \<^verbatim>\<open>Json_Values\<close>.
  \<^item> \<^verbatim>\<open>internal/daemon/server.go\<close> is \<^verbatim>\<open>Daemon_Server\<close>: the token, the cache of drivers, the security
    middleware, the routes and the handlers; a request is a record and a session a list of requests.
    \<^verbatim>\<open>Daemon_Props\<close> has its properties; the locale \<open>served_store\<close> there is a remote whose driver keeps
    \<open>object_store\<close>, interpreted on the local driver.
  \<^item> \<^verbatim>\<open>cmd/unistorage\<close>: \<^verbatim>\<open>Cli_Context\<close> (\<^verbatim>\<open>parseArgs\<close> of \<^verbatim>\<open>main.go\<close>, \<^verbatim>\<open>context.go\<close>, \<^verbatim>\<open>resolver.go\<close>), \<^verbatim>\<open>Cli_Commands\<close>
    (\<^verbatim>\<open>fileops.go\<close>, \<^verbatim>\<open>remote.go\<close>, \<^verbatim>\<open>sync_cmd.go\<close>, \<^verbatim>\<open>daemon_cmd.go\<close>, \<^verbatim>\<open>version.go\<close> and \<^verbatim>\<open>runMain\<close>) and \<^verbatim>\<open>Cli_Props\<close>.
  \<^item> \<^verbatim>\<open>pkg/entitlement\<close> is \<^verbatim>\<open>Entitlement\<close>.

  Below them, \<^verbatim>\<open>Go_Prelude\<close> (bytes, strings, numbers as text), \<^verbatim>\<open>Go_Errors\<close> (error values, \<^verbatim>\<open>errors.Is\<close> and
  \<^verbatim>\<open>As\<close>), \<^verbatim>\<open>Go_Path\<close> (\<^verbatim>\<open>path/filepath\<close>), \<^verbatim>\<open>Go_OS\<close> (a file system with links, modes and times, in which every
  call may be told to fail), \<^verbatim>\<open>Go_Tree\<close> (its lemmas) and \<^verbatim>\<open>Sha256\<close> are the parts of the standard
  library the program uses.

  \<^bold>\<open>State and operations.\<close>  An operation takes the world and returns the world and a result, an error
  or a value; a panic is an error value of its own.  The world is a parameter where it is larger than
  the part an operation uses: \<open>embed\<close> and \<open>on_part\<close> put a driver or an operation on a part into a
  larger world.  A context is the function from the moments at which the code asks it to its answer;
  \<open>background\<close> never ends.  The workers of a synchronisation are a list of stages, and a schedule
  picks the one that moves next, so a theorem for all schedules speaks of all interleavings of their
  calls to the drivers.

  \<^bold>\<open>What is shown.\<close>  Confinement of every accepted path to the root of the store, through any links;
  atomicity of local writes under failing calls; read after write, exact listings, complete pages
  and idempotent deletes of the drivers; the S3 driver as a refinement of the object map, its
  uploads through transient failures, and the bounds of its retries; for a synchronisation that it
  ends, accounts for every file, only reads in a dry run and mirrors a directory under every
  schedule; for the vault that it gives back what it was given, refuses damaged files and never
  writes what it could not open; for the daemon that a request without the token or from another
  host or origin changes nothing and learns nothing, that listings hide the secret keys, that
  objects and profiles survive the trip over HTTP and that drivers and token are stable; for the
  command line the exit codes, the arguments handed to the background daemon, targets, copies and
  removals.  Behaviours that look like mistakes are proved as they are, most of them as lemmas beside
  the properties.

  \<^bold>\<open>Bounds and fuel.\<close>  The walk of a path follows at most 40 links, as the kernel does, and 255 in
  \<^verbatim>\<open>filepath.EvalSymlinks\<close>.  The retry
  loops count down the retries.  The pool of workers runs on the weight of its state, which every
  move decreases, so the fuel is never exhausted (\<open>sync_pool_terminates\<close>).  The theorems on buckets
  speak of at most 1000 objects, the page after which the driver does not ask again.  Page ends are
  computed in 64 bits with wrap-around, sizes and times as far as the code's own arithmetic is
  concerned with overflow.

  \<^bold>\<open>Parameters.\<close>  What is not under \<^verbatim>\<open>src\<close> is an argument: Argon2id, the text of JSON (marshalling,
  unmarshalling and decoding), MD5 of the test server, the construction of an SDK client, the random
  bytes and the clock, the home directory and the environment variables, processes and their
  signals, the run of the HTTP listener.  The hypotheses on them are \<open>kdf_ok\<close> (Argon2 answers 32
  bytes), \<open>codec_ok\<close> (JSON gives a map back) and the laws of the S3 locales; each has a witness.

  \<^bold>\<open>Not modelled.\<close>  HTTP, XML and TLS below the handlers, the SDK's own retries, listening, time-outs and
  shutdown of the daemon, the bodies of the answers the router gives itself, paths with an encoded
  slash; requests to the daemon are handled one at a time, and each operation of the in-memory
  driver and of the vault is one step because it holds their lock.  A comparison and a conflict
  backup are one step of a worker.  Sleeps, buffers and the wiping of memory leave no trace in a
  result; \<open>mem_zero\<close> is only its effect on a buffer.  Upper and lower case and white space are those
  of ASCII.  The encoding of a time outside the years of JSON is not an error here.  Windows is not
  modelled: there are no volume names, and the two files that detach a process
  (\<^verbatim>\<open>sysproc_unix.go\<close>, \<^verbatim>\<open>sysproc_windows.go\<close>) set one field of a structure of the system.
\<close>

end
